(* ===== verification/Go_Prelude.thy ===== *)
theory Go_Prelude
  imports Main "HOL-Library.AList" "HOL-Library.Sublist"
begin

text \<open>
  Shared vocabulary of the development: the part of the Go standard library's \<open>strings\<close>
  and \<open>fmt\<close> packages the sources use, the result type of functions that may fail, and the
  generic lemmas on lists and association lists the components share.

  A Go string is a sequence of bytes, as is an Isabelle \<open>string\<close> (a list of 8-bit
  characters), so every function here works byte by byte. A Go map is an association list
  with distinct keys; where the code ranges over a map, the order of the range is an argument
  of the model, because Go leaves it open.
\<close>

named_theorems go_simps \<open>equations of the string functions that proofs unfold\<close>
named_theorems frame_simps \<open>fields an operation leaves alone\<close>

section \<open>Results\<close>

text \<open>
  A call returns a value, returns a non-nil \<open>error\<close>, or panics. Go code tests
  \<open>err != nil\<close> and goes on; a panic is caught nowhere in the sources.
\<close>

datatype ('e, 'a) res = Ok 'a | Err 'e | Panic

fun is_ok :: "('e, 'a) res \<Rightarrow> bool" where
  "is_ok (Ok _) = True"
| "is_ok (Err _) = False"
| "is_ok Panic = False"

section \<open>Strings\<close>

definition hasPrefix :: "string \<Rightarrow> string \<Rightarrow> bool" where
  "hasPrefix s p = (take (length p) s = p)"

definition hasSuffix :: "string \<Rightarrow> string \<Rightarrow> bool" where
  "hasSuffix s p = (length p \<le> length s \<and> drop (length s - length p) s = p)"

fun contains :: "string \<Rightarrow> string \<Rightarrow> bool" where
  "contains [] sub = (sub = [])"
| "contains (c # s) sub = (hasPrefix (c # s) sub \<or> contains s sub)"

text \<open>\<open>strings.Index\<close>, with \<open>None\<close> for -1.\<close>

fun index_of :: "string \<Rightarrow> string \<Rightarrow> nat option" where
  "index_of [] sub = (if sub = [] then Some 0 else None)"
| "index_of (c # s) sub =
     (if hasPrefix (c # s) sub then Some 0 else map_option Suc (index_of s sub))"

text \<open>
  \<open>strings.Split\<close> for a non-empty separator (the sources use no other): cut at the leftmost
  occurrence, and again in what follows it.
\<close>

fun split_str :: "string \<Rightarrow> string \<Rightarrow> string list" where
  "split_str sep [] = [[]]"
| "split_str sep (c # s) =
     (if sep \<noteq> [] \<and> hasPrefix (c # s) sep
      then [] # split_str sep (drop (length sep - 1) s)
      else (case split_str sep s of [] \<Rightarrow> [[c]] | p # ps \<Rightarrow> (c # p) # ps))"

fun join_str :: "string \<Rightarrow> string list \<Rightarrow> string" where
  "join_str sep [] = []"
| "join_str sep [x] = x"
| "join_str sep (x # y # xs) = x @ sep @ join_str sep (y # xs)"

text \<open>
  \<open>strings.TrimSpace\<close> drops the Unicode white space at both ends. \<open>space_len\<close> is
  the number of bytes of the white space character in UTF-8 that a string starts with, 0 if
  there is none; \<open>space_len_rev\<close> is the same for the end of a string given in reverse.
\<close>

definition ascii_space :: "char \<Rightarrow> bool" where
  "ascii_space c = (c = CHR 0x20 \<or> (0x09 \<le> (of_char c :: nat) \<and> (of_char c :: nat) \<le> 0x0D))"

definition uni_space3 :: "char \<Rightarrow> char \<Rightarrow> char \<Rightarrow> bool" where
  "uni_space3 a b c =
     ((a = CHR 0xE1 \<and> b = CHR 0x9A \<and> c = CHR 0x80)
    \<or> (a = CHR 0xE2 \<and> b = CHR 0x80
        \<and> ((0x80 \<le> (of_char c :: nat) \<and> (of_char c :: nat) \<le> 0x8A)
           \<or> c = CHR 0xA8 \<or> c = CHR 0xA9 \<or> c = CHR 0xAF))
    \<or> (a = CHR 0xE2 \<and> b = CHR 0x81 \<and> c = CHR 0x9F)
    \<or> (a = CHR 0xE3 \<and> b = CHR 0x80 \<and> c = CHR 0x80))"

fun space_len :: "string \<Rightarrow> nat" where
  "space_len [] = 0"
| "space_len (a # s) =
     (if ascii_space a then 1
      else (case s of
              [] \<Rightarrow> 0
            | b # t \<Rightarrow>
                if a = CHR 0xC2 \<and> (b = CHR 0x85 \<or> b = CHR 0xA0) then 2
                else (case t of [] \<Rightarrow> 0 | c # _ \<Rightarrow> if uni_space3 a b c then 3 else 0)))"

fun space_len_rev :: "string \<Rightarrow> nat" where
  "space_len_rev [] = 0"
| "space_len_rev (c # s) =
     (if ascii_space c then 1
      else (case s of
              [] \<Rightarrow> 0
            | b # t \<Rightarrow>
                if b = CHR 0xC2 \<and> (c = CHR 0x85 \<or> c = CHR 0xA0) then 2
                else (case t of [] \<Rightarrow> 0 | a # _ \<Rightarrow> if uni_space3 a b c then 3 else 0)))"

function trim_left :: "string \<Rightarrow> string" where
  "trim_left s = (if s = [] \<or> space_len s = 0 then s else trim_left (drop (space_len s) s))"
  by pat_completeness auto
termination
  by (relation "measure length") (auto simp: neq_Nil_conv)

function trim_left_rev :: "string \<Rightarrow> string" where
  "trim_left_rev s =
     (if s = [] \<or> space_len_rev s = 0 then s else trim_left_rev (drop (space_len_rev s) s))"
  by pat_completeness auto
termination
  by (relation "measure length") (auto simp: neq_Nil_conv)

declare trim_left.simps [simp del] trim_left_rev.simps [simp del]

definition trim_space :: "string \<Rightarrow> string" where
  "trim_space s = rev (trim_left_rev (rev (trim_left s)))"

text \<open>\<open>strings.TrimRight(s, "\n")\<close>.\<close>

definition newline :: char where
  "newline = CHR 0x0A"

definition trim_right_newlines :: "string \<Rightarrow> string" where
  "trim_right_newlines s = rev (dropWhile (\<lambda>c. c = newline) (rev s))"

text \<open>
  \<open>strings.ToLower\<close> on the ASCII letters. The sources only look for the ASCII texts
  \<open>.yml\<close>, \<open>.yaml\<close>, \<open>alpha\<close>, \<open>beta\<close>, \<open>rc\<close> and \<open>dev\<close> in its result, and no
  character outside ASCII has one of their letters as its lower case.
\<close>

definition lower_char :: "char \<Rightarrow> char" where
  "lower_char c =
     (if 0x41 \<le> (of_char c :: nat) \<and> (of_char c :: nat) \<le> 0x5A
      then char_of ((of_char c :: nat) + 0x20) else c)"

definition to_lower :: "string \<Rightarrow> string" where
  "to_lower s = map lower_char s"

definition is_digit :: "char \<Rightarrow> bool" where
  "is_digit c = (0x30 \<le> (of_char c :: nat) \<and> (of_char c :: nat) \<le> 0x39)"

text \<open>\<open>%d\<close> on the integers.\<close>

fun show_nat :: "nat \<Rightarrow> string" where
  "show_nat n =
     (if n < 10 then [char_of (48 + n)] else show_nat (n div 10) @ [char_of (48 + n mod 10)])"

declare show_nat.simps [simp del]

definition show_int :: "int \<Rightarrow> string" where
  "show_int i = (if i < 0 then ''-'' @ show_nat (nat (- i)) else show_nat (nat i))"

text \<open>
  \<open>%q\<close>: the text in double quotes, with quotes, backslashes and control characters escaped.
  Characters outside ASCII stay as they are, as \<open>strconv.Quote\<close> does for printable ones.
\<close>

definition hex_digit :: "nat \<Rightarrow> char" where
  "hex_digit n = (if n < 10 then char_of (48 + n) else char_of (87 + n))"

definition escape_char :: "char \<Rightarrow> string" where
  "escape_char c =
     (let n = (of_char c :: nat)
      in if n = 0x22 \<or> n = 0x5C then [CHR 0x5C, c]
         else if 7 \<le> n \<and> n \<le> 13 then [CHR 0x5C, ''abtnvfr'' ! (n - 7)]
         else if n < 0x20 \<or> n = 0x7F
           then [CHR 0x5C, CHR ''x'', hex_digit (n div 16), hex_digit (n mod 16)]
         else [c])"

definition go_quote :: "string \<Rightarrow> string" where
  "go_quote s = [CHR 0x22] @ concat (map escape_char s) @ [CHR 0x22]"

section \<open>Lemmas on strings\<close>

lemma trim_left_length: "length (trim_left s) \<le> length s"
proof (induction s rule: trim_left.induct)
  case (1 s)
  then show ?case by (subst trim_left.simps) auto
qed

lemma trim_left_rev_length: "length (trim_left_rev s) \<le> length s"
proof (induction s rule: trim_left_rev.induct)
  case (1 s)
  then show ?case by (subst trim_left_rev.simps) auto
qed

lemma trim_space_length [simp]: "length (trim_space s) \<le> length s"
  unfolding trim_space_def
  using trim_left_rev_length [of "rev (trim_left s)"] trim_left_length [of s] by simp

lemma trim_space_less: "length s < n \<Longrightarrow> length (trim_space s) < n"
  using trim_space_length le_less_trans by blast

lemma split_str_ne [simp]: "split_str sep s \<noteq> []"
  by (induction sep s rule: split_str.induct) (auto split: list.splits)

text \<open>A part of a split is never longer than the string.\<close>

lemma split_str_total:
  "sum_list (map (\<lambda>p. length p + 1) (split_str sep s)) \<le> length s + 1"
proof (induction sep s rule: split_str.induct)
  case (1 sep)
  show ?case by simp
next
  case (2 sep c s)
  then show ?case by (auto split: list.splits)
qed

lemma split_str_part_le: "p \<in> set (split_str sep s) \<Longrightarrow> length p \<le> length s"
  using split_str_total [of sep s] member_le_sum_list [of "length p + 1"
      "map (\<lambda>p. length p + 1) (split_str sep s)"] by force

lemma hasPrefix_refl [simp]: "hasPrefix s s"
  by (simp add: hasPrefix_def)

lemma hasPrefix_append [simp]: "hasPrefix (p @ s) p"
  by (simp add: hasPrefix_def)

lemma hasPrefix_iff: "hasPrefix s p \<longleftrightarrow> (\<exists>t. s = p @ t)"
  by (auto simp: hasPrefix_def) (metis append_take_drop_id)

lemma hasSuffix_iff: "hasSuffix s p \<longleftrightarrow> (\<exists>t. s = t @ p)"
  by (auto simp: hasSuffix_def) (metis append_take_drop_id)

lemma contains_iff: "contains s sub \<longleftrightarrow> (\<exists>a b. s = a @ sub @ b)"
proof (induction s sub rule: contains.induct)
  case (1 sub)
  show ?case by auto
next
  case (2 c s sub)
  show ?case
  proof
    assume "contains (c # s) sub"
    then consider "hasPrefix (c # s) sub" | "contains s sub" by auto
    then show "\<exists>a b. c # s = a @ sub @ b"
    proof cases
      case 1
      then show ?thesis by (metis hasPrefix_iff append_Nil)
    next
      case 2
      then show ?thesis using "2.IH" by (metis append_Cons)
    qed
  next
    assume "\<exists>a b. c # s = a @ sub @ b"
    then obtain a b where ab: "c # s = a @ sub @ b" by blast
    show "contains (c # s) sub"
    proof (cases a)
      case Nil
      with ab have "hasPrefix (c # s) sub" by (metis append_Nil hasPrefix_append)
      then show ?thesis by simp
    next
      case (Cons a0 as)
      with ab have "s = as @ sub @ b" by simp
      then show ?thesis using "2.IH" by auto
    qed
  qed
qed

section \<open>Lemmas on association lists\<close>

lemma map_of_alist_update [simp]: "map_of (AList.update k v al) = (map_of al)(k \<mapsto> v)"
  by (rule update_conv')

lemma keys_alist_update [simp]: "set (map fst (AList.update k v al)) = insert k (set (map fst al))"
  using dom_update [of k v al] by (simp add: dom_map_of_conv_image_fst)

lemma alist_update_key_order:
  "k \<in> set (map fst al) \<Longrightarrow> map fst (AList.update k v al) = map fst al"
  by (induction al) auto

lemma alist_update_new:
  "k \<notin> set (map fst al) \<Longrightarrow> AList.update k v al = al @ [(k, v)]"
  by (induction al) auto

lemma map_of_in_keys: "map_of al k = Some v \<Longrightarrow> k \<in> set (map fst al)"
  by (auto dest: map_of_SomeD intro: rev_image_eqI)

lemma map_of_keys_iff: "k \<in> set (map fst al) \<longleftrightarrow> (\<exists>v. map_of al k = Some v)"
  by (metis map_of_eq_None_iff list.set_map not_None_eq)

lemma filter_eq_Cons_memD: "filter P xs = y # ys \<Longrightarrow> y \<in> set xs \<and> P y"
  by (metis filter_eq_ConsD in_set_conv_decomp)

text \<open>The part of a list before its first element with a property.\<close>

lemma takeWhile_all: "(\<And>x. x \<in> set xs \<Longrightarrow> P x) \<Longrightarrow> takeWhile P xs = xs"
  by (induction xs) auto

end
