(* ===== verification/Build_Types.thy ===== *)
theory Build_Types
  imports Go_Prelude
begin

text \<open>
  The configuration data of \<open>pkg/buildfab/buildfab.go\<close>, the results and statuses of steps,
  the errors the package builds with \<open>fmt.Errorf\<close> (one constructor per call, with the text
  \<open>Error()\<close> returns), and the two lookups every component uses, \<open>GetAction\<close> and
  \<open>GetStage\<close>.
\<close>

section \<open>Configuration\<close>

record action_variant =
  var_When :: string
  var_Run :: string
  var_Uses :: string
  var_Shell :: string

record action =
  act_Name :: string
  act_Run :: string
  act_Uses :: string
  act_Shell :: string
  act_Variants :: "action_variant list"

record step =
  step_Action :: string
  step_Require :: "string list"
  step_OnError :: string
  step_If :: string
  step_Only :: "string list"

record stage =
  stage_Steps :: "step list"

record config =
  proj_Name :: string
  proj_Modules :: "string list"
  proj_BinDir :: string
  cfg_Include :: "string list"
  cfg_Actions :: "action list"
  cfg_Stages :: "(string \<times> stage) list"

text \<open>\<open>GetAction\<close> returns the first action of that name, \<open>GetStage\<close> looks the map up.\<close>

definition GetAction :: "config \<Rightarrow> string \<Rightarrow> action option" where
  "GetAction c name = find (\<lambda>a. act_Name a = name) (cfg_Actions c)"

definition GetStage :: "config \<Rightarrow> string \<Rightarrow> stage option" where
  "GetStage c name = map_of (cfg_Stages c) name"

section \<open>Errors\<close>

text \<open>
  \<open>ExternalError\<close> is an error made outside the repository (the operating system, YAML,
  the version library), known by its text only. \<open>ContextCanceled\<close> is \<open>ctx.Err()\<close>.
\<close>

datatype go_error =
    ExternalError string
  | ContextCanceled
  | StageNotFound string
  | StepNotFound string string
  | ActionNotFound string
  | DependencyNotFound string
  | CycleDetected string
  | CircularDependency go_error
  | BuildDAGFailed go_error
  | StepFailed string go_error
  | StepFailedMsg string string
  | NoRunCommand string
  | ShellNotFound string
  | ShellConfig go_error
  | ShellConfigFor string go_error
  | CommandFailed go_error
  | CheckRun string
  | NoRegistry string
  | UnknownBuiltIn string
  | BuiltInFailed string
  | ConditionFailed string string go_error
  | IfConditionFailed string go_error
  | StepConditionFailed go_error
  | ExpressionError string
  | ProjectNameRequired
  | NoActions
  | ActionNameRequired
  | VariantNoWhen string nat
  | VariantNoRunUses string nat
  | VariantBoth string nat
  | ActionNoRunUses string
  | ActionBoth string
  | DuplicateAction string
  | StageNoSteps string
  | StepNoAction nat string
  | StepUnknownAction nat string string
  | StepBadOnError nat string string
  | StepBadOnly nat string string
  | NoArguments
  | RunNeedsStage
  | ActionNeedsName
  | UnknownCommand string
  | LoadFailed go_error
  | NoDefaultConfig
  | ConfigNotFound string
  | ReadConfigFailed go_error
  | ParseConfigFileFailed go_error
  | ProcessIncludesFailed go_error
  | ParseConfigFailed go_error
  | CircularInclude string
  | IncludeNotExist string
  | IncludeDirNotExist string
  | BadGlob string go_error
  | ReadFileFailed string go_error
  | ParseFileFailed string go_error
  | OpenConfigFailed go_error
  | ParseYamlConfigFailed go_error
  | ResolveIncludesFailed go_error
  | LoadIncludedFailed go_error
  | NoConfigInDir string
  | ResolveVariablesFailed string go_error
  | UnclosedReference string
  | UndefinedVariable string
  | ResolvePatternFailed string go_error
  | LoadIncludedFileFailed string go_error
  | ReadFailed go_error
  | ParseYamlFailed go_error
  | ConfigInvalid go_error
  | StageNotInConfig string

fun error_text :: "go_error \<Rightarrow> string" where
  "error_text (ExternalError t) = t"
| "error_text ContextCanceled = ''context canceled''"
| "error_text (StageNotFound s) = ''stage not found: '' @ s"
| "error_text (StepNotFound p s) = ''step not found: '' @ p @ '' in stage '' @ s"
| "error_text (ActionNotFound a) = ''action not found: '' @ a"
| "error_text (DependencyNotFound d) = ''dependency not found: '' @ d"
| "error_text (CycleDetected n) = ''cycle detected involving node: '' @ n"
| "error_text (CircularDependency e) = ''circular dependency detected: '' @ error_text e"
| "error_text (BuildDAGFailed e) = ''failed to build execution DAG: '' @ error_text e"
| "error_text (StepFailed s e) = ''step '' @ s @ '' failed: '' @ error_text e"
| "error_text (StepFailedMsg s m) = ''step '' @ s @ '' failed: '' @ m"
| "error_text (NoRunCommand a) = ''action '' @ a @ '' has no run command''"
| "error_text (ShellNotFound s) =
     ''shell '' @ [CHR 0x27] @ s @ [CHR 0x27]
     @ '' not found in PATH. Please install it or use a different shell''"
| "error_text (ShellConfig e) = ''shell configuration error: '' @ error_text e"
| "error_text (ShellConfigFor a e) =
     ''shell configuration error for action '' @ a @ '': '' @ error_text e"
| "error_text (CommandFailed e) = ''command failed: '' @ error_text e"
| "error_text (CheckRun r) = ''failed, to check run:'' @ [newline] @ ''  '' @ r"
| "error_text (NoRegistry u) =
     ''built-in action '' @ u @ '' not supported: no action registry provided''"
| "error_text (UnknownBuiltIn u) = ''unknown built-in action: '' @ u"
| "error_text (BuiltInFailed m) = ''built-in action failed: '' @ m"
| "error_text (ConditionFailed w a e) =
     ''failed to evaluate condition '' @ [CHR 0x27] @ w @ [CHR 0x27]
     @ '' for action '' @ a @ '': '' @ error_text e"
| "error_text (IfConditionFailed s e) =
     ''failed to evaluate if condition for step '' @ s @ '': '' @ error_text e"
| "error_text (StepConditionFailed e) = ''failed to evaluate step condition: '' @ error_text e"
| "error_text (ExpressionError t) = t"
| "error_text ProjectNameRequired = ''project name is required''"
| "error_text NoActions = ''at least one action is required''"
| "error_text ActionNameRequired = ''action name is required''"
| "error_text (VariantNoWhen a i) =
     ''action '' @ a @ '' variant '' @ show_nat i @ '' must have 'when' condition''"
| "error_text (VariantNoRunUses a i) =
     ''action '' @ a @ '' variant '' @ show_nat i @ '' must have either 'run' or 'uses'' @ [CHR 0x27]"
| "error_text (VariantBoth a i) =
     ''action '' @ a @ '' variant '' @ show_nat i @ '' cannot have both 'run' and 'uses'' @ [CHR 0x27]"
| "error_text (ActionNoRunUses a) = ''action '' @ a @ '' must have either 'run' or 'uses'' @ [CHR 0x27]"
| "error_text (ActionBoth a) = ''action '' @ a @ '' cannot have both 'run' and 'uses'' @ [CHR 0x27]"
| "error_text (DuplicateAction a) = ''duplicate action name: '' @ a"
| "error_text (StageNoSteps s) = ''stage '' @ s @ '' must have at least one step''"
| "error_text (StepNoAction i s) =
     ''step '' @ show_nat i @ '' in stage '' @ s @ '' must have an action''"
| "error_text (StepUnknownAction i s a) =
     ''step '' @ show_nat i @ '' in stage '' @ s @ '' references unknown action: '' @ a"
| "error_text (StepBadOnError i s v) =
     ''step '' @ show_nat i @ '' in stage '' @ s @ '' has invalid onerror value: '' @ v
     @ '' (must be 'stop' or 'warn')''"
| "error_text (StepBadOnly i s v) =
     ''step '' @ show_nat i @ '' in stage '' @ s @ '' has invalid only value: '' @ v
     @ '' (must be 'release', 'prerelease', 'patch', 'minor', or 'major')''"
| "error_text NoArguments = ''no arguments provided''"
| "error_text RunNeedsStage = ''run command requires a stage name''"
| "error_text ActionNeedsName = ''action command requires an action name''"
| "error_text (UnknownCommand c) = ''unknown command: '' @ c"
| "error_text (LoadFailed e) = ''failed to load configuration: '' @ error_text e"
| "error_text NoDefaultConfig = ''no configuration file found in default locations''"
| "error_text (ConfigNotFound p) = ''configuration file not found: '' @ p"
| "error_text (ReadConfigFailed e) = ''failed to read configuration file: '' @ error_text e"
| "error_text (ParseConfigFileFailed e) = ''failed to parse configuration file: '' @ error_text e"
| "error_text (ProcessIncludesFailed e) = ''failed to process includes: '' @ error_text e"
| "error_text (ParseConfigFailed e) = ''failed to parse configuration: '' @ error_text e"
| "error_text (CircularInclude p) = ''circular include detected: '' @ p"
| "error_text (IncludeNotExist p) = ''included file does not exist: '' @ p"
| "error_text (IncludeDirNotExist p) = ''directory for include pattern does not exist: '' @ p"
| "error_text (BadGlob p e) = ''invalid glob pattern '' @ go_quote p @ '': '' @ error_text e"
| "error_text (ReadFileFailed p e) = ''failed to read file '' @ p @ '': '' @ error_text e"
| "error_text (ParseFileFailed p e) = ''failed to parse YAML in file '' @ p @ '': '' @ error_text e"
| "error_text (OpenConfigFailed e) = ''failed to open configuration file: '' @ error_text e"
| "error_text (ParseYamlConfigFailed e) = ''failed to parse YAML configuration: '' @ error_text e"
| "error_text (ResolveIncludesFailed e) = ''failed to resolve includes: '' @ error_text e"
| "error_text (LoadIncludedFailed e) = ''failed to load included configurations: '' @ error_text e"
| "error_text (NoConfigInDir p) = ''no configuration file found in directory: '' @ p"
| "error_text (ResolveVariablesFailed p e) = ''failed to resolve variables in action '' @ p @ '': '' @ error_text e"
| "error_text (UnclosedReference p) = ''unclosed variable reference: '' @ p"
| "error_text (UndefinedVariable p) = ''undefined variable: '' @ p"
| "error_text (ResolvePatternFailed p e) = ''failed to resolve include pattern '' @ go_quote p @ '': '' @ error_text e"
| "error_text (LoadIncludedFileFailed p e) = ''failed to load included file '' @ p @ '': '' @ error_text e"
| "error_text (ReadFailed e) = ''failed to read file: '' @ error_text e"
| "error_text (ParseYamlFailed e) = ''failed to parse YAML: '' @ error_text e"
| "error_text (ConfigInvalid e) = ''configuration validation failed: '' @ error_text e"
| "error_text (StageNotInConfig s) =
     ''stage '' @ [CHR 0x27] @ s @ [CHR 0x27] @ '' not found in configuration''"

section \<open>Statuses and results\<close>

text \<open>
  \<open>type Status int\<close>: the constants are 0 to 5 and any other value prints as UNKNOWN.
\<close>

datatype status =
    StatusPending | StatusRunning | StatusOK | StatusWarn | StatusError | StatusSkipped

fun Status_String :: "status \<Rightarrow> string" where
  "Status_String StatusPending = ''PENDING''"
| "Status_String StatusRunning = ''RUNNING''"
| "Status_String StatusOK = ''OK''"
| "Status_String StatusWarn = ''WARN''"
| "Status_String StatusError = ''ERROR''"
| "Status_String StatusSkipped = ''SKIPPED''"

datatype step_status =
    StepStatusPending | StepStatusRunning | StepStatusOK | StepStatusWarn | StepStatusError
  | StepStatusSkipped

fun StepStatus_String :: "step_status \<Rightarrow> string" where
  "StepStatus_String StepStatusPending = ''pending''"
| "StepStatus_String StepStatusRunning = ''running''"
| "StepStatus_String StepStatusOK = ''ok''"
| "StepStatus_String StepStatusWarn = ''warn''"
| "StepStatus_String StepStatusError = ''error''"
| "StepStatus_String StepStatusSkipped = ''skipped''"

record result =
  res_Name :: string
  res_Status :: status
  res_Message :: string
  res_Error :: "go_error option"
  res_Duration :: nat

record step_result =
  sr_StepName :: string
  sr_ActionName :: string
  sr_Status :: step_status
  sr_Duration :: nat
  sr_Output :: string
  sr_Error :: "go_error option"

text \<open>A \<open>Result\<close> literal: fields it does not name are zero.\<close>

definition zero_result :: result where
  "zero_result =
     \<lparr>res_Name = [], res_Status = StatusPending, res_Message = [], res_Error = None,
      res_Duration = 0\<rparr>"

text \<open>The calls of the \<open>StepCallback\<close> interface, with their arguments.\<close>

datatype cb_event =
    OnStepStart string
  | OnStepComplete string step_status string nat
  | OnStepOutput string string
  | OnStepError string go_error

fun event_step :: "cb_event \<Rightarrow> string" where
  "event_step (OnStepStart n) = n"
| "event_step (OnStepComplete n _ _ _) = n"
| "event_step (OnStepOutput n _) = n"
| "event_step (OnStepError n _) = n"

section \<open>Lookup lemmas\<close>

lemma GetAction_name: "GetAction c n = Some a \<Longrightarrow> act_Name a = n"
  by (auto simp: GetAction_def find_Some_iff)

lemma GetAction_in: "GetAction c n = Some a \<Longrightarrow> a \<in> set (cfg_Actions c)"
  by (auto simp: GetAction_def find_Some_iff)

lemma GetAction_None: "GetAction c n = None \<longleftrightarrow> n \<notin> act_Name ` set (cfg_Actions c)"
  by (auto simp: GetAction_def find_None_iff)

end
