(* ===== verification/Dag.thy ===== *)
theory Dag
  imports Build_Types
begin

text \<open>
  The execution graph of a stage: \<open>buildDAG\<close>, \<open>detectCycles\<close> and the queries on it,
  from \<open>pkg/buildfab/buildfab.go\<close>. The map \<open>map[string]*DAGNode\<close> is an association
  list; a range over it takes the order of the keys as an argument (\<open>map_order\<close> says that it
  lists every key once). The main results are that \<open>detectCycles\<close> fails exactly on the
  graphs with a cycle, whatever the order, and that a graph \<open>buildDAG\<close> returns is closed
  under \<open>require\<close>, has no cycle, and has one node per step name.
\<close>

record dag_node =
  node_Step :: step
  node_Action :: action
  node_Dependencies :: "string list"
  node_Dependents :: "string list"

type_synonym dag = "(string \<times> dag_node) list"

section \<open>Building the graph\<close>

text \<open>The first loop of \<open>buildDAG\<close>: one node per step, a later step replacing an earlier one.\<close>

fun addNodes :: "config \<Rightarrow> step list \<Rightarrow> dag \<Rightarrow> go_error + dag" where
  "addNodes c [] dag = Inr dag"
| "addNodes c (s # ss) dag =
     (case GetAction c (step_Action s) of
        None \<Rightarrow> Inl (ActionNotFound (step_Action s))
      | Some a \<Rightarrow>
          addNodes c ss
            (AList.update (step_Action s)
               \<lparr>node_Step = s, node_Action = a, node_Dependencies = step_Require s,
                node_Dependents = []\<rparr> dag))"

text \<open>The inner loop of the second loop: the dependencies of one node.\<close>

fun linkDeps :: "string \<Rightarrow> string list \<Rightarrow> dag \<Rightarrow> go_error + dag" where
  "linkDeps name [] dag = Inr dag"
| "linkDeps name (d # ds) dag =
     (case map_of dag d of
        None \<Rightarrow> Inl (DependencyNotFound d)
      | Some dn \<Rightarrow>
          linkDeps name ds
            (AList.update d (dn\<lparr>node_Dependents := node_Dependents dn @ [name]\<rparr>) dag))"

fun linkNodes :: "string list \<Rightarrow> dag \<Rightarrow> go_error + dag" where
  "linkNodes [] dag = Inr dag"
| "linkNodes (k # ks) dag =
     (case map_of dag k of
        None \<Rightarrow> linkNodes ks dag
      | Some nd \<Rightarrow>
          (case linkDeps (step_Action (node_Step nd)) (node_Dependencies nd) dag of
             Inl e \<Rightarrow> Inl e
           | Inr dag' \<Rightarrow> linkNodes ks dag'))"

section \<open>Cycle detection\<close>

text \<open>
  The closure \<open>dfs\<close> of \<open>detectCycles\<close> with the maps \<open>visited\<close> and \<open>recStack\<close> as the
  sets of names mapped to true; \<open>dfs_deps\<close> is its loop over \<open>node.Dependencies\<close>. The
  deferred reset of \<open>recStack\<close> runs on every return after it was set. A name without a node
  is a nil pointer in \<open>node.Dependencies\<close>, a panic.
\<close>

type_synonym dfs_state = "string set \<times> string set"

function dfs :: "dag \<Rightarrow> string \<Rightarrow> dfs_state \<Rightarrow> (go_error, unit) res \<times> dfs_state"
  and dfs_deps :: "dag \<Rightarrow> string list \<Rightarrow> dfs_state \<Rightarrow> (go_error, unit) res \<times> dfs_state"
where
  "dfs dag n (vis, stk) =
     (if n \<in> stk then (Err (CycleDetected n), vis, stk)
      else if n \<in> vis then (Ok (), vis, stk)
      else (case map_of dag n of
              None \<Rightarrow> (Panic, insert n vis, stk)
            | Some nd \<Rightarrow>
                (case dfs_deps dag (node_Dependencies nd) (insert n vis, insert n stk) of
                   (r, vis', stk') \<Rightarrow> (r, vis', stk' - {n}))))"
| "dfs_deps dag [] st = (Ok (), st)"
| "dfs_deps dag (d # ds) st =
     (case dfs dag d st of
        (Ok _, st') \<Rightarrow> dfs_deps dag ds st'
      | (Err e, st') \<Rightarrow> (Err e, st')
      | (Panic, st') \<Rightarrow> (Panic, st'))"
  by pat_completeness auto

lemma dfs_visited_mono:
  "dfs_dfs_deps_dom (Inl (dag, n, st)) \<Longrightarrow> fst st \<subseteq> fst (snd (dfs dag n st))"
  "dfs_dfs_deps_dom (Inr (dag, ds, st)) \<Longrightarrow> fst st \<subseteq> fst (snd (dfs_deps dag ds st))"
proof (induction dag n st and dag ds st rule: dfs_dfs_deps.pinduct)
  case (1 dag n vis stk)
  then show ?case
    by (fastforce simp: dfs.psimps split: option.split prod.split)
next
  case (2 dag st)
  then show ?case by (simp add: dfs_deps.psimps)
next
  case (3 dag d ds st)
  then show ?case
    by (fastforce simp: dfs_deps.psimps split: prod.split res.split)
qed

termination dfs
proof (relation "inv_image (less_than <*lex*> less_than <*lex*> less_than)
    (\<lambda>x. case x of
        Inl (dag, n, vis, stk) \<Rightarrow> (card (set (map fst dag) - vis), 0::nat, 0)
      | Inr (dag, ds, vis, stk) \<Rightarrow> (card (set (map fst dag) - vis), 1, length ds))",
    goal_cases)
  case 1
  show ?case by (intro wf_inv_image wf_lex_prod wf_less_than)
next
  case (2 dag n vis stk nd)
  have "card (set (map fst dag) - insert n vis) < card (set (map fst dag) - vis)"
    using 2 map_of_in_keys [of dag n nd] by (intro psubset_card_mono) auto
  then show ?case by simp
next
  case (3 dag d ds st)
  then show ?case by (cases st) simp
next
  case (4 dag d ds st r st' u)
  obtain vis stk vis' stk' where st: "st = (vis, stk)" "st' = (vis', stk')"
    by (metis surj_pair)
  have "vis \<subseteq> vis'"
    using dfs_visited_mono(1) [of dag d st] 4 st by (metis fst_conv snd_conv)
  then have "card (set (map fst dag) - vis') \<le> card (set (map fst dag) - vis)"
    by (intro card_mono) auto
  then show ?case using st by auto
qed

declare dfs.simps [simp del]

text \<open>The loop over \<open>range dag\<close>.\<close>

fun detectLoop :: "dag \<Rightarrow> string list \<Rightarrow> dfs_state \<Rightarrow> (go_error, unit) res" where
  "detectLoop dag [] st = Ok ()"
| "detectLoop dag (k # ks) st =
     (if k \<in> fst st then detectLoop dag ks st
      else (case dfs dag k st of
              (Ok _, st') \<Rightarrow> detectLoop dag ks st'
            | (Err e, _) \<Rightarrow> Err e
            | (Panic, _) \<Rightarrow> Panic))"

definition detectCycles :: "dag \<Rightarrow> string list \<Rightarrow> (go_error, unit) res" where
  "detectCycles dag ord = detectLoop dag ord ({}, {})"

text \<open>
  \<open>buildDAG\<close>: \<open>link_ord\<close> and \<open>cycle_ord\<close> give the orders of its two ranges over the
  map of the nodes.
\<close>

definition buildDAG ::
  "config \<Rightarrow> (dag \<Rightarrow> string list) \<Rightarrow> (dag \<Rightarrow> string list) \<Rightarrow> step list \<Rightarrow> (go_error, dag) res" where
  "buildDAG c link_ord cycle_ord steps =
     (case addNodes c steps [] of
        Inl e \<Rightarrow> Err e
      | Inr dag \<Rightarrow>
          (case linkNodes (link_ord dag) dag of
             Inl e \<Rightarrow> Err e
           | Inr dag' \<Rightarrow>
               (case detectCycles dag' (cycle_ord dag') of
                  Ok _ \<Rightarrow> Ok dag'
                | Err e \<Rightarrow> Err (CircularDependency e)
                | Panic \<Rightarrow> Panic)))"

section \<open>What the graph is\<close>

definition dag_deps :: "dag \<Rightarrow> string \<Rightarrow> string list" where
  "dag_deps dag n = (case map_of dag n of None \<Rightarrow> [] | Some nd \<Rightarrow> node_Dependencies nd)"

definition dep_edge :: "dag \<Rightarrow> (string \<times> string) set" where
  "dep_edge dag = {(u, v). v \<in> set (dag_deps dag u)}"

definition dag_names :: "dag \<Rightarrow> string set" where
  "dag_names dag = set (map fst dag)"

definition dag_closed :: "dag \<Rightarrow> bool" where
  "dag_closed dag = (\<forall>u. set (dag_deps dag u) \<subseteq> dag_names dag)"

definition key_order :: "dag \<Rightarrow> string list \<Rightarrow> bool" where
  "key_order dag ord = (distinct ord \<and> set ord = dag_names dag)"

lemma dag_names_iff: "n \<in> dag_names dag \<longleftrightarrow> (\<exists>nd. map_of dag n = Some nd)"
  unfolding dag_names_def by (rule map_of_keys_iff)

section \<open>Correctness of the search\<close>

definition on_cycle :: "dag \<Rightarrow> string \<Rightarrow> bool" where
  "on_cycle dag n = ((n, n) \<in> (dep_edge dag)\<^sup>+)"

text \<open>A name from which no cycle can be reached.\<close>

definition cycle_free_from :: "dag \<Rightarrow> string \<Rightarrow> bool" where
  "cycle_free_from dag n = (\<forall>w. (n, w) \<in> (dep_edge dag)\<^sup>* \<longrightarrow> (w, w) \<notin> (dep_edge dag)\<^sup>+)"

text \<open>
  The invariant of the search: the finished names (visited and off the stack) are closed under
  dependencies and no cycle can be reached from them.
\<close>

definition dfs_inv :: "dag \<Rightarrow> dfs_state \<Rightarrow> bool" where
  "dfs_inv dag st =
     (case st of (vis, stk) \<Rightarrow>
        stk \<subseteq> vis \<and> vis \<subseteq> dag_names dag
      \<and> (\<forall>u \<in> vis - stk. set (dag_deps dag u) \<subseteq> vis - stk \<and> cycle_free_from dag u))"

definition dfs_post :: "dag \<Rightarrow> string list \<Rightarrow> dfs_state \<Rightarrow> (go_error, unit) res \<times> dfs_state \<Rightarrow> bool" where
  "dfs_post dag ns st out =
     (case out of
        (Ok _, st') \<Rightarrow> dfs_inv dag st' \<and> snd st' = snd st \<and> fst st \<subseteq> fst st'
                      \<and> set ns \<subseteq> fst st' - snd st'
      | (Err e, _) \<Rightarrow> (\<exists>m. e = CycleDetected m \<and> on_cycle dag m)
      | (Panic, _) \<Rightarrow> False)"

lemma dep_edge_iff: "(u, v) \<in> dep_edge dag \<longleftrightarrow> v \<in> set (dag_deps dag u)"
  by (simp add: dep_edge_def)

lemma finished_closed:
  assumes "dfs_inv dag (vis, stk)" "u \<in> vis - stk" "(u, w) \<in> (dep_edge dag)\<^sup>*"
  shows "w \<in> vis - stk"
  using assms(3,1,2)
proof (induction rule: rtrancl_induct)
  case base
  then show ?case by simp
next
  case (step y z)
  then have "y \<in> vis - stk" by blast
  with step(2,4) show ?case unfolding dfs_inv_def dep_edge_iff by blast
qed

text \<open>
  When all dependencies of a name on top of the stack are finished, the name can be finished.
\<close>

lemma cycle_free_from_step:
  assumes inv: "dfs_inv dag (vis, stk)" and n: "n \<in> stk"
    and deps: "set (dag_deps dag n) \<subseteq> vis - stk"
  shows "cycle_free_from dag n"
  unfolding cycle_free_from_def
proof (intro allI impI notI)
  fix w assume reach: "(n, w) \<in> (dep_edge dag)\<^sup>*" and cyc: "(w, w) \<in> (dep_edge dag)\<^sup>+"
  show False
  proof (cases "w = n")
    case True
    with cyc obtain d where "(n, d) \<in> dep_edge dag" "(d, n) \<in> (dep_edge dag)\<^sup>*"
      by (meson tranclD)
    then show False
      using finished_closed [OF inv, of d n] deps n by (auto simp: dep_edge_iff)
  next
    case False
    with reach obtain d where "(n, d) \<in> dep_edge dag" "(d, w) \<in> (dep_edge dag)\<^sup>*"
      by (metis converse_rtranclE)
    then show False
      using inv deps cyc unfolding dfs_inv_def cycle_free_from_def dep_edge_iff by blast
  qed
qed

lemma dfs_inv_push:
  assumes "dfs_inv dag (vis, stk)" "n \<notin> vis" "n \<in> dag_names dag"
  shows "dfs_inv dag (insert n vis, insert n stk)"
  using assms unfolding dfs_inv_def by auto

lemma dfs_inv_pop:
  assumes inv: "dfs_inv dag (vis, insert n stk)" and n: "n \<notin> stk"
    and deps: "set (dag_deps dag n) \<subseteq> vis - insert n stk"
  shows "dfs_inv dag (vis, stk)"
proof -
  have "cycle_free_from dag n"
    using cycle_free_from_step [OF inv] deps by simp
  then show ?thesis
    using inv deps n unfolding dfs_inv_def by auto
qed

lemma dfs_correct:
  "dag_closed dag \<Longrightarrow> dfs_inv dag st \<Longrightarrow> n \<in> dag_names dag
    \<Longrightarrow> (\<forall>r \<in> snd st. (r, n) \<in> (dep_edge dag)\<^sup>+) \<Longrightarrow> dfs_post dag [n] st (dfs dag n st)"
  "dag_closed dag \<Longrightarrow> dfs_inv dag st \<Longrightarrow> set ds \<subseteq> dag_names dag
    \<Longrightarrow> (\<forall>r \<in> snd st. \<forall>d \<in> set ds. (r, d) \<in> (dep_edge dag)\<^sup>+)
    \<Longrightarrow> dfs_post dag ds st (dfs_deps dag ds st)"
proof (induction dag n st and dag ds st rule: dfs_dfs_deps.induct)
  case (1 dag n vis stk)
  consider (stack) "n \<in> stk" | (seen) "n \<notin> stk" "n \<in> vis" | (new) "n \<notin> stk" "n \<notin> vis"
    by blast
  then show ?case
  proof cases
    case stack
    with "1.prems" show ?thesis by (auto simp: dfs.simps dfs_post_def on_cycle_def)
  next
    case seen
    with "1.prems" show ?thesis by (auto simp: dfs.simps dfs_post_def)
  next
    case new
    from "1.prems"(3) obtain nd where nd: "map_of dag n = Some nd"
      by (auto simp: dag_names_iff)
    let ?ds = "node_Dependencies nd" and ?st = "(insert n vis, insert n stk)"
    have ds: "dag_deps dag n = ?ds" using nd by (simp add: dag_deps_def)
    have edge: "(n, d) \<in> dep_edge dag" if "d \<in> set ?ds" for d
      using that ds by (simp add: dep_edge_iff)
    have post: "dfs_post dag ?ds ?st (dfs_deps dag ?ds ?st)"
    proof (rule "1.IH" [OF new nd "1.prems"(1)])
      show "dfs_inv dag ?st" using dfs_inv_push "1.prems"(2,3) new(2) by blast
      show "set ?ds \<subseteq> dag_names dag"
        using "1.prems"(1) ds unfolding dag_closed_def by metis
      show "\<forall>r\<in>snd ?st. \<forall>d\<in>set ?ds. (r, d) \<in> (dep_edge dag)\<^sup>+"
        using "1.prems"(4) edge by (auto intro: trancl_into_trancl)
    qed
    obtain r vis' stk' where out: "dfs_deps dag ?ds ?st = (r, vis', stk')"
      by (metis surj_pair)
    then have res: "dfs dag n (vis, stk) = (r, vis', stk' - {n})"
      using new nd by (simp add: dfs.simps)
    show ?thesis
    proof (cases r)
      case (Ok u)
      then have *: "dfs_inv dag (vis', insert n stk)" "stk' = insert n stk" "insert n vis \<subseteq> vis'"
        "set ?ds \<subseteq> vis' - insert n stk"
        using post out by (auto simp: dfs_post_def)
      then have "dfs_inv dag (vis', stk)" using dfs_inv_pop [of dag vis' n stk] new ds by metis
      then show ?thesis using res Ok * new by (auto simp: dfs_post_def)
    next
      case (Err e)
      then show ?thesis using res post out by (auto simp: dfs_post_def)
    next
      case Panic
      then show ?thesis using res post out by (auto simp: dfs_post_def)
    qed
  qed
next
  case (2 dag st)
  then show ?case by (simp add: dfs_post_def)
next
  case (3 dag d ds st)
  have d: "dfs_post dag [d] st (dfs dag d st)"
    using "3.IH"(1) "3.prems" by simp
  obtain r st' where out: "dfs dag d st = (r, st')" by (metis surj_pair)
  show ?case
  proof (cases r)
    case (Ok u)
    then have *: "dfs_inv dag st'" "snd st' = snd st" "fst st \<subseteq> fst st'" "d \<in> fst st' - snd st'"
      using d out by (auto simp: dfs_post_def)
    then have "dfs_post dag ds st' (dfs_deps dag ds st')"
      using "3.IH"(2) [of r st' u] "3.prems" out Ok by simp
    then show ?thesis using * out Ok by (auto simp: dfs_post_def split: prod.splits res.splits)
  next
    case (Err e)
    then show ?thesis using d out by (auto simp: dfs_post_def)
  next
    case Panic
    then show ?thesis using d out by (auto simp: dfs_post_def)
  qed
qed

lemma detectLoop_correct:
  assumes "dag_closed dag" "dfs_inv dag (vis, {})" "set ks \<subseteq> dag_names dag"
  shows "case detectLoop dag ks (vis, {}) of
           Ok _ \<Rightarrow> \<exists>vis'. dfs_inv dag (vis', {}) \<and> set ks \<union> vis \<subseteq> vis'
         | Err e \<Rightarrow> \<exists>m. e = CycleDetected m \<and> on_cycle dag m
         | Panic \<Rightarrow> False"
  using assms
proof (induction ks arbitrary: vis)
  case Nil
  then show ?case by auto
next
  case (Cons k ks)
  show ?case
  proof (cases "k \<in> vis")
    case True
    with Cons.IH [of vis] Cons.prems show ?thesis by (auto split: res.splits)
  next
    case False
    have post: "dfs_post dag [k] (vis, {}) (dfs dag k (vis, {}))"
      using dfs_correct(1) [of dag "(vis, {})" k] Cons.prems by simp
    obtain r vis' stk' where out: "dfs dag k (vis, {}) = (r, vis', stk')"
      by (metis surj_pair)
    show ?thesis
    proof (cases r)
      case (Ok u)
      then have *: "dfs_inv dag (vis', {})" "stk' = {}" "vis \<subseteq> vis'" "k \<in> vis'"
        using post out by (auto simp: dfs_post_def)
      with Cons.IH [of vis'] Cons.prems have IH: "case detectLoop dag ks (vis', {}) of
           Ok _ \<Rightarrow> \<exists>v. dfs_inv dag (v, {}) \<and> set ks \<union> vis' \<subseteq> v
         | Err e \<Rightarrow> \<exists>m. e = CycleDetected m \<and> on_cycle dag m
         | Panic \<Rightarrow> False" by simp
      have "detectLoop dag (k # ks) (vis, {}) = detectLoop dag ks (vis', {})"
        using False out Ok * by simp
      with IH * show ?thesis by (fastforce split: res.splits)
    next
      case (Err e)
      then show ?thesis using False post out by (auto simp: dfs_post_def)
    next
      case Panic
      then show ?thesis using False post out by (auto simp: dfs_post_def)
    qed
  qed
qed

lemma dep_edge_source: "(u, v) \<in> dep_edge dag \<Longrightarrow> u \<in> dag_names dag"
  by (cases "map_of dag u") (auto simp: dep_edge_iff dag_deps_def dag_names_iff)

lemma on_cycle_in_keys: "on_cycle dag n \<Longrightarrow> n \<in> dag_names dag"
  unfolding on_cycle_def by (meson tranclD dep_edge_source)

theorem detectCycles_spec:
  assumes "dag_closed dag" "key_order dag ord"
  shows "case detectCycles dag ord of
           Ok _ \<Rightarrow> acyclic (dep_edge dag)
         | Err e \<Rightarrow> \<exists>m. e = CycleDetected m \<and> on_cycle dag m
         | Panic \<Rightarrow> False"
proof -
  have inv: "dfs_inv dag ({}, {})" by (simp add: dfs_inv_def)
  have ks: "set ord = dag_names dag" using assms(2) by (simp add: key_order_def)
  note loop = detectLoop_correct [OF assms(1) inv, of ord]
  show ?thesis
  proof (cases "detectLoop dag ord ({}, {})")
    case (Ok u)
    with loop ks obtain vis where "dfs_inv dag (vis, {})" "dag_names dag \<subseteq> vis"
      by auto
    then have "\<not> on_cycle dag n" for n
      using on_cycle_in_keys [of dag n]
      unfolding dfs_inv_def cycle_free_from_def on_cycle_def by auto
    then show ?thesis using Ok by (simp add: detectCycles_def acyclic_def on_cycle_def)
  next
    case (Err e)
    then show ?thesis using loop ks by (simp add: detectCycles_def)
  next
    case Panic
    then show ?thesis using loop ks by (simp add: detectCycles_def)
  qed
qed

theorem detectCycles_iff:
  assumes "dag_closed dag" "key_order dag ord"
  shows "(detectCycles dag ord = Ok ()) = acyclic (dep_edge dag)"
  using detectCycles_spec [OF assms]
  by (cases "detectCycles dag ord") (auto simp: acyclic_def on_cycle_def)


section \<open>Correctness of the construction\<close>

text \<open>
  The steps of a stage as a graph: the node of a name is its last step, as in the map.
\<close>

definition last_step :: "step list \<Rightarrow> string \<Rightarrow> step option" where
  "last_step steps n = find (\<lambda>s. step_Action s = n) (rev steps)"

definition require_edge :: "step list \<Rightarrow> (string \<times> string) set" where
  "require_edge steps = {(u, v). \<exists>s. last_step steps u = Some s \<and> v \<in> set (step_Require s)}"

definition actions_exist :: "config \<Rightarrow> step list \<Rightarrow> bool" where
  "actions_exist c steps = (\<forall>s \<in> set steps. GetAction c (step_Action s) \<noteq> None)"

definition requires_exist :: "step list \<Rightarrow> bool" where
  "requires_exist steps = (snd ` require_edge steps \<subseteq> step_Action ` set steps)"

definition step_node :: "config \<Rightarrow> step \<Rightarrow> dag_node" where
  "step_node c s =
     \<lparr>node_Step = s, node_Action = the (GetAction c (step_Action s)),
      node_Dependencies = step_Require s, node_Dependents = []\<rparr>"

text \<open>A range order lists every key of the map once.\<close>

definition range_order :: "(dag \<Rightarrow> string list) \<Rightarrow> bool" where
  "range_order f = (\<forall>dag. distinct (map fst dag) \<longrightarrow> key_order dag (f dag))"

lemma range_order_fst: "range_order (map fst)"
  by (simp add: range_order_def key_order_def dag_names_def)

lemma last_step_Nil [simp]: "last_step [] n = None"
  by (simp add: last_step_def)

lemma find_append:
  "find P (xs @ ys) = (case find P xs of None \<Rightarrow> find P ys | Some x \<Rightarrow> Some x)"
  by (induction xs) auto

lemma last_step_Cons:
  "last_step (s # ss) n =
     (case last_step ss n of None \<Rightarrow> if step_Action s = n then Some s else None | Some t \<Rightarrow> Some t)"
  by (simp add: last_step_def find_append split: option.split)

lemma last_step_name: "last_step steps n = Some s \<Longrightarrow> step_Action s = n \<and> s \<in> set steps"
  unfolding last_step_def by (metis (mono_tags, lifting) find_Some_iff nth_mem set_rev)

lemma last_step_None: "last_step steps n = None \<longleftrightarrow> n \<notin> step_Action ` set steps"
  by (auto simp: last_step_def find_None_iff)

lemma addNodes_ok:
  "actions_exist c steps \<Longrightarrow>
   \<exists>dag'. addNodes c steps dag = Inr dag'
     \<and> (\<forall>n. map_of dag' n =
            (case last_step steps n of None \<Rightarrow> map_of dag n | Some s \<Rightarrow> Some (step_node c s)))
     \<and> (distinct (map fst dag) \<longrightarrow> distinct (map fst dag'))"
proof (induction steps arbitrary: dag)
  case Nil
  then show ?case by simp
next
  case (Cons s ss)
  then obtain a where a: "GetAction c (step_Action s) = Some a"
    by (auto simp: actions_exist_def)
  let ?dag = "AList.update (step_Action s) (step_node c s) dag"
  have eq: "addNodes c (s # ss) dag = addNodes c ss ?dag"
    using a by (simp add: step_node_def)
  have "actions_exist c ss" using Cons.prems by (simp add: actions_exist_def)
  from Cons.IH [OF this, of ?dag] obtain dag' where dag': "addNodes c ss ?dag = Inr dag'"
    "\<forall>n. map_of dag' n =
         (case last_step ss n of None \<Rightarrow> map_of ?dag n | Some t \<Rightarrow> Some (step_node c t))"
    "distinct (map fst ?dag) \<longrightarrow> distinct (map fst dag')" by blast
  have "map_of dag' n =
      (case last_step (s # ss) n of None \<Rightarrow> map_of dag n | Some t \<Rightarrow> Some (step_node c t))" for n
    using dag'(2) by (auto simp: last_step_Cons split: option.split)
  then show ?case using eq dag' distinct_update [of dag "step_Action s" "step_node c s"] by auto
qed

lemma addNodes_error:
  "\<not> actions_exist c steps \<Longrightarrow>
   \<exists>s \<in> set steps. addNodes c steps dag = Inl (ActionNotFound (step_Action s))
     \<and> GetAction c (step_Action s) = None"
proof (induction steps arbitrary: dag)
  case Nil
  then show ?case by (simp add: actions_exist_def)
next
  case (Cons s ss)
  show ?case
  proof (cases "GetAction c (step_Action s)")
    case None
    then show ?thesis by simp
  next
    case (Some a)
    with Cons show ?thesis by (fastforce simp: actions_exist_def)
  qed
qed

text \<open>Linking only touches the \<open>Dependents\<close> of nodes.\<close>

definition dag_core :: "dag \<Rightarrow> string \<Rightarrow> (step \<times> action \<times> string list) option" where
  "dag_core dag n =
     map_option (\<lambda>nd. (node_Step nd, node_Action nd, node_Dependencies nd)) (map_of dag n)"

lemma dag_core_deps: "dag_core dag = dag_core dag' \<Longrightarrow> dag_deps dag = dag_deps dag'"
proof (rule ext)
  fix n assume "dag_core dag = dag_core dag'"
  then have "dag_core dag n = dag_core dag' n" by simp
  then show "dag_deps dag n = dag_deps dag' n"
    by (auto simp: dag_core_def dag_deps_def split: option.splits)
qed

lemma dag_core_names: "dag_core dag = dag_core dag' \<Longrightarrow> dag_names dag = dag_names dag'"
proof (rule set_eqI)
  fix n assume "dag_core dag = dag_core dag'"
  then have "dag_core dag n = dag_core dag' n" by simp
  then show "n \<in> dag_names dag \<longleftrightarrow> n \<in> dag_names dag'"
    by (cases "map_of dag n"; cases "map_of dag' n") (auto simp: dag_core_def dag_names_iff)
qed

lemma linkDeps_core: "linkDeps name ds dag = Inr dag' \<Longrightarrow> dag_core dag' = dag_core dag"
proof (induction ds arbitrary: dag)
  case Nil
  then show ?case by simp
next
  case (Cons d ds)
  from Cons.prems obtain dn where dn: "map_of dag d = Some dn"
    by (auto split: option.splits)
  let ?dag = "AList.update d (dn\<lparr>node_Dependents := node_Dependents dn @ [name]\<rparr>) dag"
  have "dag_core ?dag = dag_core dag" by (rule ext) (simp add: dag_core_def dn)
  then show ?case using Cons dn by (simp split: option.splits)
qed

lemma linkDeps_keys: "linkDeps name ds dag = Inr dag' \<Longrightarrow> map fst dag' = map fst dag"
proof (induction ds arbitrary: dag)
  case Nil
  then show ?case by simp
next
  case (Cons d ds)
  then show ?case
    by (auto split: option.splits dest: map_of_in_keys simp: alist_update_key_order)
qed

lemma linkDeps_total:
  "(\<exists>dag'. linkDeps name ds dag = Inr dag' \<and> set ds \<subseteq> dag_names dag)
   \<or> (\<exists>d. linkDeps name ds dag = Inl (DependencyNotFound d) \<and> d \<in> set ds \<and> d \<notin> dag_names dag)"
proof (induction ds arbitrary: dag)
  case Nil
  then show ?case by simp
next
  case (Cons d ds)
  show ?case
  proof (cases "map_of dag d")
    case None
    then show ?thesis by (auto simp: dag_names_iff)
  next
    case (Some dn)
    let ?dag = "AList.update d (dn\<lparr>node_Dependents := node_Dependents dn @ [name]\<rparr>) dag"
    have "dag_names ?dag = dag_names dag"
      using Some by (auto simp: dag_names_iff split: if_splits)
    then show ?thesis using Cons.IH [of ?dag] Some by (auto simp: dag_names_iff)
  qed
qed

lemma linkNodes_keys: "linkNodes ks dag = Inr dag' \<Longrightarrow> map fst dag' = map fst dag"
proof (induction ks arbitrary: dag)
  case Nil
  then show ?case by simp
next
  case (Cons k ks)
  then show ?case by (auto split: option.splits sum.splits dest: linkDeps_keys)
qed

lemma linkNodes_core: "linkNodes ks dag = Inr dag' \<Longrightarrow> dag_core dag' = dag_core dag"
proof (induction ks arbitrary: dag)
  case Nil
  then show ?case by simp
next
  case (Cons k ks)
  then show ?case by (auto split: option.splits sum.splits dest: linkDeps_core)
qed

lemma linkNodes_total:
  "(\<exists>dag'. linkNodes ks dag = Inr dag' \<and> (\<forall>k \<in> set ks. set (dag_deps dag k) \<subseteq> dag_names dag))
   \<or> (\<exists>k d. linkNodes ks dag = Inl (DependencyNotFound d) \<and> k \<in> set ks
         \<and> d \<in> set (dag_deps dag k) \<and> d \<notin> dag_names dag)"
proof (induction ks arbitrary: dag)
  case Nil
  then show ?case by simp
next
  case (Cons k ks)
  show ?case
  proof (cases "map_of dag k")
    case None
    then show ?thesis using Cons.IH [of dag] by (fastforce simp: dag_deps_def)
  next
    case (Some nd)
    let ?name = "step_Action (node_Step nd)" and ?ds = "node_Dependencies nd"
    have ds: "dag_deps dag k = ?ds" using Some by (simp add: dag_deps_def)
    show ?thesis
    proof (cases "linkDeps ?name ?ds dag")
      case (Inl e)
      then obtain d where "e = DependencyNotFound d" "d \<in> set (dag_deps dag k)" "d \<notin> dag_names dag"
        using linkDeps_total [of ?name ?ds dag] ds by auto
      then show ?thesis using Some Inl by (intro disjI2 exI [of _ k] exI [of _ d]) simp
    next
      case (Inr dag1)
      then have core: "dag_core dag1 = dag_core dag" by (rule linkDeps_core)
      have "set ?ds \<subseteq> dag_names dag" using linkDeps_total [of ?name ?ds dag] Inr by auto
      then show ?thesis
        using Cons.IH [of dag1] Inr Some ds dag_core_deps [OF core] dag_core_names [OF core]
        by auto
    qed
  qed
qed

text \<open>
  The graph of a stage whose actions exist, before linking, and what linking and cycle
  detection make of it.
\<close>

lemma built_nodes:
  assumes "\<forall>n. map_of dag n = map_option (step_node c) (last_step steps n)"
  shows "dag_names dag = step_Action ` set steps" and "dep_edge dag = require_edge steps"
proof -
  show "dag_names dag = step_Action ` set steps"
  proof (rule set_eqI)
    fix n
    show "n \<in> dag_names dag \<longleftrightarrow> n \<in> step_Action ` set steps"
      using assms last_step_None [of steps n]
      by (cases "last_step steps n") (simp_all add: dag_names_iff)
  qed
  show "dep_edge dag = require_edge steps"
  proof (rule set_eqI)
    fix e
    show "e \<in> dep_edge dag \<longleftrightarrow> e \<in> require_edge steps"
      using assms by (cases e, cases "last_step steps (fst e)")
        (simp_all add: dep_edge_def dag_deps_def require_edge_def step_node_def)
  qed
qed

theorem buildDAG_cases:
  assumes lo: "range_order lo" and co: "range_order co"
  shows "case buildDAG c lo co steps of
      Ok dag \<Rightarrow> actions_exist c steps \<and> requires_exist steps \<and> acyclic (require_edge steps)
             \<and> distinct (map fst dag)
             \<and> dag_core dag = (\<lambda>n. map_option (\<lambda>s. (s, the (GetAction c n), step_Require s))
                                      (last_step steps n))
    | Err e \<Rightarrow>
        (\<exists>s \<in> set steps. e = ActionNotFound (step_Action s) \<and> GetAction c (step_Action s) = None)
      \<or> (actions_exist c steps \<and>
          (\<exists>u d. e = DependencyNotFound d \<and> (u, d) \<in> require_edge steps
                \<and> d \<notin> step_Action ` set steps))
      \<or> (actions_exist c steps \<and> requires_exist steps \<and>
          (\<exists>m. e = CircularDependency (CycleDetected m) \<and> (m, m) \<in> (require_edge steps)\<^sup>+))
    | Panic \<Rightarrow> False"
proof (cases "actions_exist c steps")
  case False
  then show ?thesis using addNodes_error [OF False, of "[]"] by (auto simp: buildDAG_def)
next
  case True
  then obtain dag where dag: "addNodes c steps [] = Inr dag"
    "\<forall>n. map_of dag n = map_option (step_node c) (last_step steps n)" "distinct (map fst dag)"
    using addNodes_ok [OF True, of "[]"] by (auto simp: option.case_eq_if map_option_case)
  note built = built_nodes [OF dag(2)]
  have ord: "set (lo dag) = dag_names dag"
    using lo dag(3) by (auto simp: range_order_def key_order_def)
  show ?thesis
  proof (cases "linkNodes (lo dag) dag")
    case (Inl e)
    then obtain k d where "e = DependencyNotFound d" "(k, d) \<in> require_edge steps"
      "d \<notin> step_Action ` set steps"
      using linkNodes_total [of "lo dag" dag] built by (auto simp: dep_edge_iff [symmetric])
    then show ?thesis using True dag Inl by (auto simp: buildDAG_def)
  next
    case (Inr dag1)
    have core: "dag_core dag1 = dag_core dag" by (rule linkNodes_core [OF Inr])
    have deps: "dag_deps dag1 = dag_deps dag" "dag_names dag1 = dag_names dag"
      using dag_core_deps [OF core] dag_core_names [OF core] by auto
    have edges: "dep_edge dag1 = require_edge steps"
      using built(2) deps by (simp add: dep_edge_def)
    have nonames: "dag_deps dag u = []" if "u \<notin> dag_names dag" for u
      using that by (auto simp: dag_deps_def dag_names_iff split: option.splits)
    have closed: "dag_closed dag1"
      using linkNodes_total [of "lo dag" dag] Inr deps ord nonames
      unfolding dag_closed_def by (metis Inr_Inl_False empty_iff list.set(1) subsetI)
    then have req: "requires_exist steps"
      unfolding requires_exist_def edges [symmetric] dep_edge_def
      using closed deps built(1) unfolding dag_closed_def by fastforce
    have dist: "distinct (map fst dag1)" using linkNodes_keys [OF Inr] dag(3) by simp
    then have "key_order dag1 (co dag1)" using co by (simp add: range_order_def)
    note cyc = detectCycles_spec [OF closed this]
    have core1: "dag_core dag1 = (\<lambda>n. map_option (\<lambda>s. (s, the (GetAction c n), step_Require s))
                                      (last_step steps n))"
    proof (rule ext)
      fix n
      show "dag_core dag1 n =
          map_option (\<lambda>s. (s, the (GetAction c n), step_Require s)) (last_step steps n)"
        unfolding core using dag(2) last_step_name [of steps n]
        by (cases "last_step steps n") (simp_all add: dag_core_def step_node_def)
    qed
    have res: "buildDAG c lo co steps =
        (case detectCycles dag1 (co dag1) of
           Ok _ \<Rightarrow> Ok dag1 | Err e \<Rightarrow> Err (CircularDependency e) | Panic \<Rightarrow> Panic)"
      using dag Inr by (simp add: buildDAG_def)
    show ?thesis
      using res cyc True req edges dist core1
      by (cases "detectCycles dag1 (co dag1)") (auto simp: on_cycle_def)
  qed
qed


section \<open>Properties\<close>

lemma buildDAG_Ok:
  assumes "range_order lo" "range_order co" "buildDAG c lo co steps = Ok dag"
  shows "actions_exist c steps" "requires_exist steps" "acyclic (require_edge steps)"
    "distinct (map fst dag)"
    "dag_core dag = (\<lambda>n. map_option (\<lambda>s. (s, the (GetAction c n), step_Require s)) (last_step steps n))"
  using buildDAG_cases [OF assms(1,2), of c steps] assms(3) by simp_all

lemma buildDAG_Err:
  assumes "range_order lo" "range_order co" "buildDAG c lo co steps = Err e"
  shows "\<not> (actions_exist c steps \<and> requires_exist steps \<and> acyclic (require_edge steps))"
  using buildDAG_cases [OF assms(1,2), of c steps] assms(3)
  by (auto simp: actions_exist_def requires_exist_def acyclic_def)

lemma buildDAG_node:
  assumes "range_order lo" "range_order co" "buildDAG c lo co steps = Ok dag"
  shows "map_of dag n = Some nd \<Longrightarrow> last_step steps n = Some (node_Step nd)
           \<and> GetAction c n = Some (node_Action nd) \<and> node_Dependencies nd = step_Require (node_Step nd)"
    and "dag_names dag = step_Action ` set steps" and "dep_edge dag = require_edge steps"
proof -
  note ok = buildDAG_Ok [OF assms]
  have core: "map_option (\<lambda>nd. (node_Step nd, node_Action nd, node_Dependencies nd)) (map_of dag n)
      = map_option (\<lambda>s. (s, the (GetAction c n), step_Require s)) (last_step steps n)" for n
    using ok(5) by (simp add: dag_core_def fun_eq_iff)
  have act: "GetAction c n \<noteq> None" if "last_step steps n = Some s" for n s
    using that ok(1) last_step_name [OF that] by (auto simp: actions_exist_def last_step_def find_Some_iff)
  show "map_of dag n = Some nd \<Longrightarrow> last_step steps n = Some (node_Step nd)
           \<and> GetAction c n = Some (node_Action nd) \<and> node_Dependencies nd = step_Require (node_Step nd)"
    using core [of n] act [of n] by (cases "last_step steps n") auto
  show "dag_names dag = step_Action ` set steps"
  proof (rule set_eqI)
    fix m show "m \<in> dag_names dag \<longleftrightarrow> m \<in> step_Action ` set steps"
      using core [of m] last_step_None [of steps m] dag_names_iff [of m dag]
      by (cases "last_step steps m") auto
  qed
  have "dag_deps dag u = (case last_step steps u of None \<Rightarrow> [] | Some s \<Rightarrow> step_Require s)" for u
    using core [of u] by (cases "last_step steps u") (auto simp: dag_deps_def)
  then show "dep_edge dag = require_edge steps"
    by (auto simp: dep_edge_def require_edge_def split: option.splits dest: sym)
qed

text \<open>C7: A stage can be run exactly when every step names an action, every required step is a
  step of the stage and the requirements have no cycle; the order in which the maps are ranged
  over does not matter, and a stage that cannot be run is an error, never a crash.\<close>

theorem buildDAG_accepts:
  assumes "range_order lo" "range_order co"
  shows "if actions_exist c steps \<and> requires_exist steps \<and> acyclic (require_edge steps)
    then \<exists>dag. buildDAG c lo co steps = Ok dag else \<exists>e. buildDAG c lo co steps = Err e"
  using buildDAG_cases [OF assms, of c steps] buildDAG_Err [OF assms, of c steps]
  by (cases "buildDAG c lo co steps") auto

text \<open>A stage of two steps that require each other.\<close>

definition loop_config :: config where
  "loop_config =
     \<lparr>proj_Name = ''p'', proj_Modules = [], proj_BinDir = [], cfg_Include = [],
      cfg_Actions = map (\<lambda>n. \<lparr>act_Name = n, act_Run = ''x'', act_Uses = [], act_Shell = [], act_Variants = []\<rparr>)
        [''a'', ''b''], cfg_Stages = []\<rparr>"

definition plain_step :: "string \<Rightarrow> string list \<Rightarrow> step" where
  "plain_step n req = \<lparr>step_Action = n, step_Require = req, step_OnError = [], step_If = [], step_Only = []\<rparr>"

theorem buildDAG_accepts_witness:
  "(\<exists>dag. buildDAG loop_config (map fst) (map fst) [plain_step ''a'' []] = Ok dag)
   \<and> (\<exists>e. buildDAG loop_config (map fst) (map fst) [plain_step ''a'' [''b''], plain_step ''b'' [''a'']] = Err e)"
proof -
  let ?one = "[plain_step ''a'' []]" and ?two = "[plain_step ''a'' [''b''], plain_step ''b'' [''a'']]"
  have act: "actions_exist loop_config ?one"
    by (simp add: actions_exist_def loop_config_def plain_step_def GetAction_def)
  have "require_edge ?one = {}"
    by (auto simp: require_edge_def last_step_def plain_step_def split: if_splits)
  then have ok: "requires_exist ?one" "acyclic (require_edge ?one)"
    by (simp_all add: requires_exist_def acyclic_def)
  have "(''a'', ''b'') \<in> require_edge ?two" "(''b'', ''a'') \<in> require_edge ?two"
    by (simp_all add: require_edge_def last_step_def plain_step_def)
  then have "\<not> acyclic (require_edge ?two)"
    unfolding acyclic_def by (meson trancl.r_into_trancl trancl.trancl_into_trancl)
  then show ?thesis
    using buildDAG_accepts [OF range_order_fst range_order_fst, of loop_config ?one] act ok
      buildDAG_accepts [OF range_order_fst range_order_fst, of loop_config ?two] by simp
qed

text \<open>C8: The error names a culprit: a step without an action; else a required name that is no
  step; else, when all of these are in order, a step that lies on a cycle of requirements.\<close>

theorem buildDAG_error_culprit:
  assumes "range_order lo" "range_order co" "buildDAG c lo co steps = Err e"
  shows "(\<exists>s \<in> set steps. e = ActionNotFound (step_Action s) \<and> GetAction c (step_Action s) = None)
     \<or> actions_exist c steps \<and> (\<exists>u d. e = DependencyNotFound d \<and> (u, d) \<in> require_edge steps
          \<and> d \<notin> step_Action ` set steps)
     \<or> actions_exist c steps \<and> requires_exist steps
       \<and> (\<exists>m. e = CircularDependency (CycleDetected m) \<and> (m, m) \<in> (require_edge steps)\<^sup>+)"
  using buildDAG_cases [OF assms(1,2), of c steps] assms(3) by simp

theorem buildDAG_error_culprit_witness:
  "\<exists>m. buildDAG loop_config (map fst) (map fst) [plain_step ''a'' [''b''], plain_step ''b'' [''a'']]
      = Err (CircularDependency (CycleDetected m))
    \<and> (m, m) \<in> (require_edge [plain_step ''a'' [''b''], plain_step ''b'' [''a'']])\<^sup>+"
proof -
  have e: "buildDAG loop_config (map fst) (map fst) [plain_step ''a'' [''b''], plain_step ''b'' [''a'']]
      = Err (CircularDependency (CycleDetected ''a''))"
    by code_simp
  show ?thesis using buildDAG_error_culprit [OF range_order_fst range_order_fst e] e by auto
qed

text \<open>C9: The graph of an accepted stage is the stage: its nodes are the steps (of two steps with
  the same name the last one), each with the configured action and its requirements.\<close>

theorem buildDAG_graph:
  assumes "range_order lo" "range_order co" "buildDAG c lo co steps = Ok dag"
  shows "dag_names dag = step_Action ` set steps \<and> distinct (map fst dag)
    \<and> (\<forall>n nd. map_of dag n = Some nd \<longrightarrow> last_step steps n = Some (node_Step nd)
         \<and> GetAction c n = Some (node_Action nd) \<and> node_Dependencies nd = step_Require (node_Step nd))"
  using buildDAG_node [OF assms] buildDAG_Ok(4) [OF assms] by simp

theorem buildDAG_graph_witness:
  "\<exists>dag. buildDAG loop_config (map fst) (map fst) [plain_step ''a'' [''b''], plain_step ''b'' []] = Ok dag
     \<and> dag_names dag = {''a'', ''b''}"
proof -
  have "is_ok (buildDAG loop_config (map fst) (map fst) [plain_step ''a'' [''b''], plain_step ''b'' []])"
    by code_simp
  then obtain dag where d: "buildDAG loop_config (map fst) (map fst)
      [plain_step ''a'' [''b''], plain_step ''b'' []] = Ok dag"
    by (cases "buildDAG loop_config (map fst) (map fst) [plain_step ''a'' [''b''], plain_step ''b'' []]") auto
  then show ?thesis
    using buildDAG_graph [OF range_order_fst range_order_fst d] by (simp add: plain_step_def)
qed

end
