(* ===== verification/Go_Float.thy ===== *)
theory Go_Float
  imports Go_Prelude
begin

text \<open>
  Go's \<open>float64\<close> as the sources use it: \<open>strconv.ParseFloat(s, 64)\<close>,
  \<open>strconv.FormatFloat(v, 'f', -1, 64)\<close>, the comparisons, conversion from \<open>int\<close>,
  \<open>time.Duration.Seconds()\<close> and the verb \<open>%.3f\<close>. A finite number is a sign, a mantissa
  and a power of two; a rational number is rounded to the nearest one, ties to even, as IEEE
  754 prescribes.
\<close>

datatype f64 = F64_NaN | F64_Inf bool | F64_Fin bool nat int

section \<open>Rounding\<close>

fun bit_length :: "nat \<Rightarrow> nat" where
  "bit_length n = (if n = 0 then 0 else Suc (bit_length (n div 2)))"

declare bit_length.simps [simp del]

text \<open>The largest \<open>l\<close> with \<open>2 ^ l \<le> p / q\<close>, for positive \<open>p\<close> and \<open>q\<close>.\<close>

definition log2_ratio :: "nat \<Rightarrow> nat \<Rightarrow> int" where
  "log2_ratio p q =
     (let l = int (bit_length p) - int (bit_length q)
      in if (if 0 \<le> l then q * 2 ^ nat l \<le> p else q \<le> p * 2 ^ nat (- l)) then l else l - 1)"

definition div_half_even :: "nat \<Rightarrow> nat \<Rightarrow> nat" where
  "div_half_even p q =
     (let d = p div q; r = p mod q
      in if 2 * r < q \<or> (2 * r = q \<and> even d) then d else d + 1)"

definition scale_ratio :: "nat \<Rightarrow> nat \<Rightarrow> int \<Rightarrow> nat" where
  "scale_ratio p q e =
     (if 0 \<le> e then div_half_even p (q * 2 ^ nat e) else div_half_even (p * 2 ^ nat (- e)) q)"

text \<open>The number nearest to \<open>p / q\<close>; an infinity when it is out of range.\<close>

definition round_f64 :: "bool \<Rightarrow> nat \<Rightarrow> nat \<Rightarrow> f64" where
  "round_f64 neg p q =
     (if p = 0 then F64_Fin neg 0 0
      else let e = max (log2_ratio p q - 52) (- 1074); m = scale_ratio p q e
           in if 971 < e \<or> (e = 971 \<and> m = 2 ^ 53) then F64_Inf neg else F64_Fin neg m e)"

definition f64_of_int :: "int \<Rightarrow> f64" where
  "f64_of_int i = round_f64 (i < 0) (nat \<bar>i\<bar>) 1"

section \<open>Comparison\<close>

definition f64_scaled :: "bool \<Rightarrow> nat \<Rightarrow> int \<Rightarrow> int \<Rightarrow> int" where
  "f64_scaled neg m e base = (if neg then - 1 else 1) * int m * 2 ^ nat (e - base)"

fun f64_eq :: "f64 \<Rightarrow> f64 \<Rightarrow> bool" where
  "f64_eq F64_NaN _ = False"
| "f64_eq _ F64_NaN = False"
| "f64_eq (F64_Inf a) (F64_Inf b) = (a = b)"
| "f64_eq (F64_Inf _) (F64_Fin _ _ _) = False"
| "f64_eq (F64_Fin _ _ _) (F64_Inf _) = False"
| "f64_eq (F64_Fin s m e) (F64_Fin t n f) =
     (f64_scaled s m e (min e f) = f64_scaled t n f (min e f))"

fun f64_less :: "f64 \<Rightarrow> f64 \<Rightarrow> bool" where
  "f64_less F64_NaN _ = False"
| "f64_less _ F64_NaN = False"
| "f64_less (F64_Inf a) (F64_Inf b) = (a \<and> \<not> b)"
| "f64_less (F64_Inf a) (F64_Fin _ _ _) = a"
| "f64_less (F64_Fin _ _ _) (F64_Inf b) = (\<not> b)"
| "f64_less (F64_Fin s m e) (F64_Fin t n f) =
     (f64_scaled s m e (min e f) < f64_scaled t n f (min e f))"

definition f64_le :: "f64 \<Rightarrow> f64 \<Rightarrow> bool" where
  "f64_le a b = (f64_less a b \<or> f64_eq a b)"

definition f64_zero :: f64 where
  "f64_zero = F64_Fin False 0 0"

section \<open>Parsing\<close>

text \<open>
  \<open>strconv.ParseFloat\<close>: an optional sign, then \<open>inf\<close>, \<open>infinity\<close> or (unsigned)
  \<open>nan\<close> in any case, or a decimal or hexadecimal number with an optional exponent (required
  in hexadecimal). Underscores must stand between digits. A number out of range is an error.
\<close>

definition digit_val :: "char \<Rightarrow> nat" where
  "digit_val c = (of_char c :: nat) - 48"

definition hex_val :: "char \<Rightarrow> nat option" where
  "hex_val c =
     (let l = (of_char (lower_char c) :: nat)
      in if is_digit c then Some (digit_val c)
         else if 97 \<le> l \<and> l \<le> 102 then Some (l - 87) else None)"

text \<open>
  The mantissa loop of \<open>readFloat\<close>: the value of the digits, the number of digits after the
  point, whether a point and a digit were seen, and the rest of the text.
\<close>

fun read_mantissa ::
  "bool \<Rightarrow> bool \<Rightarrow> bool \<Rightarrow> nat \<Rightarrow> nat \<Rightarrow> string \<Rightarrow> bool \<times> nat \<times> nat \<times> string" where
  "read_mantissa hex dot digits m frac [] = (digits, m, frac, [])"
| "read_mantissa hex dot digits m frac (c # s) =
     (if c = CHR ''_'' then read_mantissa hex dot digits m frac s
      else if c = CHR ''.'' \<and> \<not> dot then read_mantissa hex True digits m frac s
      else if is_digit c
        then read_mantissa hex dot True ((if hex then 16 else 10) * m + digit_val c)
               (if dot then frac + 1 else frac) s
      else (case (if hex then hex_val c else None) of
              Some v \<Rightarrow>
                read_mantissa hex dot True (16 * m + v) (if dot then frac + 1 else frac) s
            | None \<Rightarrow> (digits, m, frac, c # s)))"

fun read_exp_digits :: "nat \<Rightarrow> string \<Rightarrow> nat \<times> string" where
  "read_exp_digits e [] = (e, [])"
| "read_exp_digits e (c # s) =
     (if c = CHR ''_'' then read_exp_digits e s
      else if is_digit c
        then read_exp_digits (if e < 10000 then 10 * e + digit_val c else e) s
      else (e, c # s))"

definition read_sign :: "string \<Rightarrow> bool \<times> string" where
  "read_sign s =
     (case s of
        c # t \<Rightarrow> if c = CHR ''+'' then (False, t) else if c = CHR ''-'' then (True, t) else (False, s)
      | [] \<Rightarrow> (False, s))"

text \<open>The exponent after its letter; \<open>None\<close> when no digit follows.\<close>

definition read_exponent :: "string \<Rightarrow> (int \<times> string) option" where
  "read_exponent s =
     (case read_sign s of
        (neg, t) \<Rightarrow>
          (case t of
             c # _ \<Rightarrow>
               if is_digit c
               then (case read_exp_digits 0 t of
                       (e, r) \<Rightarrow> Some (if neg then - int e else int e, r))
               else None
           | [] \<Rightarrow> None))"

fun underscore_scan :: "bool \<Rightarrow> char \<Rightarrow> string \<Rightarrow> bool" where
  "underscore_scan hex saw [] = (saw \<noteq> CHR ''_'')"
| "underscore_scan hex saw (c # s) =
     (if is_digit c \<or> (hex \<and> hex_val c \<noteq> None) then underscore_scan hex (CHR ''0'') s
      else if c = CHR ''_''
        then saw = CHR ''0'' \<and> underscore_scan hex (CHR ''_'') s
      else saw \<noteq> CHR ''_'' \<and> underscore_scan hex (CHR ''!'') s)"

definition hex_prefix :: "string \<Rightarrow> bool" where
  "hex_prefix s = (hasPrefix (to_lower s) ''0x'' \<and> 2 < length s)"

definition underscore_ok :: "string \<Rightarrow> bool" where
  "underscore_ok s =
     (let t = snd (read_sign s)
      in if hasPrefix (to_lower t) ''0x'' then underscore_scan True (CHR ''0'') (drop 2 t)
         else if hasPrefix (to_lower t) ''0b'' \<or> hasPrefix (to_lower t) ''0o''
           then underscore_scan False (CHR ''0'') (drop 2 t)
         else underscore_scan False (CHR ''^'') t)"

text \<open>The number \<open>m * base ^ e\<close>, rounded.\<close>

definition make_f64 :: "bool \<Rightarrow> bool \<Rightarrow> nat \<Rightarrow> nat \<Rightarrow> int \<Rightarrow> f64" where
  "make_f64 neg hex m frac e =
     (let b = (if hex then 2 else 10); x = e - int (if hex then 4 * frac else frac)
      in if 0 \<le> x then round_f64 neg (m * b ^ nat x) 1 else round_f64 neg m (b ^ nat (- x)))"

definition f64_in_range :: "f64 \<Rightarrow> f64 option" where
  "f64_in_range v = (case v of F64_Inf _ \<Rightarrow> None | _ \<Rightarrow> Some v)"

definition read_float :: "string \<Rightarrow> f64 option" where
  "read_float s =
     (case read_sign s of
        (neg, t) \<Rightarrow>
          let hex = hex_prefix t; u = (if hex then drop 2 t else t)
          in case read_mantissa hex False False 0 0 u of
               (digits, m, frac, r) \<Rightarrow>
                 if \<not> digits then None
                 else if r = []
                   then (if hex then None else f64_in_range (make_f64 neg hex m frac 0))
                 else if lower_char (hd r) = (if hex then CHR ''p'' else CHR ''e'')
                   then (case read_exponent (tl r) of
                           Some (e, []) \<Rightarrow> f64_in_range (make_f64 neg hex m frac e)
                         | _ \<Rightarrow> None)
                 else None)"

definition parse_float :: "string \<Rightarrow> f64 option" where
  "parse_float s =
     (let t = to_lower (snd (read_sign s))
      in if t = ''inf'' \<or> t = ''infinity'' then Some (F64_Inf (fst (read_sign s)))
         else if to_lower s = ''nan'' then Some F64_NaN
         else if CHR ''_'' \<in> set s \<and> \<not> underscore_ok s then None
         else read_float s)"

section \<open>Formatting\<close>

text \<open>
  The numerator and denominator of a finite number, and its floor as an integer (\<open>int(v)\<close>
  truncates, and agrees with it on the numbers that are not negative).
\<close>

definition f64_num :: "nat \<Rightarrow> int \<Rightarrow> nat" where
  "f64_num m e = (if 0 \<le> e then m * 2 ^ nat e else m)"

definition f64_den :: "int \<Rightarrow> nat" where
  "f64_den e = (if 0 \<le> e then 1 else 2 ^ nat (- e))"

fun f64_trunc :: "f64 \<Rightarrow> int" where
  "f64_trunc (F64_Fin neg m e) =
     (if neg then - int (f64_num m e div f64_den e) else int (f64_num m e div f64_den e))"
| "f64_trunc _ = 0"

fun pad_left :: "nat \<Rightarrow> char \<Rightarrow> string \<Rightarrow> string" where
  "pad_left n c s = replicate (n - length s) c @ s"

text \<open>\<open>%.3f\<close> of a finite number: the nearest thousandth, ties to even on the exact value.\<close>

fun format_3f :: "f64 \<Rightarrow> string" where
  "format_3f (F64_Fin neg m e) =
     (let k = div_half_even (f64_num m e * 1000) (f64_den e)
      in (if neg then ''-'' else '''') @ show_nat (k div 1000) @ ''.''
         @ pad_left 3 (CHR ''0'') (show_nat (k mod 1000)))"
| "format_3f (F64_Inf neg) = (if neg then ''-Inf'' else ''+Inf'')"
| "format_3f F64_NaN = ''NaN''"

text \<open>
  \<open>FormatFloat(v, 'f', -1, 64)\<close>: the shortest decimal that parses back to \<open>v\<close>, the
  closest to \<open>v\<close> among those of that length. \<open>k\<close> is the number of decimals; a negative
  one stands for trailing zeros before the point. \<open>sig_digits\<close> tries 1, 2, ... digits; 17
  are always enough.
\<close>

definition f64_cands :: "nat \<Rightarrow> int \<Rightarrow> int \<Rightarrow> nat list" where
  "f64_cands m e k =
     (let p = f64_num m e * (if 0 \<le> k then 10 ^ nat k else 1);
          q = f64_den e * (if 0 \<le> k then 1 else 10 ^ nat (- k));
          near = div_half_even p q; lo = p div q
      in if near = lo then [lo, lo + 1] else [lo + 1, lo])"

definition f64_dec :: "nat \<Rightarrow> int \<Rightarrow> f64" where
  "f64_dec d k = (if 0 \<le> k then round_f64 False d (10 ^ nat k) else round_f64 False (d * 10 ^ nat (- k)) 1)"

fun log10_floor :: "nat \<Rightarrow> nat \<Rightarrow> nat \<Rightarrow> int" where
  "log10_floor 0 p q = 0"
| "log10_floor (Suc fuel) p q =
     (if 10 * q \<le> p then 1 + log10_floor fuel p (10 * q)
      else if p < q then log10_floor fuel (10 * p) q - 1 else 0)"

fun sig_digits :: "nat \<Rightarrow> nat \<Rightarrow> nat \<Rightarrow> int \<Rightarrow> int \<Rightarrow> nat \<times> int" where
  "sig_digits 0 n m e l = (0, 0)"
| "sig_digits (Suc fuel) n m e l =
     (let k = int n - 1 - l
      in case find (\<lambda>d. f64_eq (f64_dec d k) (F64_Fin False m e)) (f64_cands m e k) of
           Some d \<Rightarrow> (d, k)
         | None \<Rightarrow> sig_digits fuel (Suc n) m e l)"

definition show_decimal :: "nat \<Rightarrow> int \<Rightarrow> string" where
  "show_decimal d k =
     (if k \<le> 0 then show_nat (d * 10 ^ nat (- k))
      else show_nat (d div 10 ^ nat k) @ ''.''
           @ pad_left (nat k) (CHR ''0'') (show_nat (d mod 10 ^ nat k)))"

fun format_float :: "f64 \<Rightarrow> string" where
  "format_float F64_NaN = ''NaN''"
| "format_float (F64_Inf neg) = (if neg then ''-Inf'' else ''+Inf'')"
| "format_float (F64_Fin neg m e) =
     (if neg then ''-'' else '''') @
     (if m = 0 then ''0''
      else (case sig_digits 17 1 m e (log10_floor 700 (f64_num m e) (f64_den e)) of
              (d, k) \<Rightarrow> show_decimal d k))"

section \<open>Durations\<close>

text \<open>
  \<open>d.Seconds()\<close> of a duration in nanoseconds: the whole seconds plus the rest divided by
  1e9, each operation rounded. Durations of the sources come from \<open>time.Since\<close> or are 0.
\<close>

definition f64_add_nonneg :: "f64 \<Rightarrow> f64 \<Rightarrow> f64" where
  "f64_add_nonneg a b =
     (case (a, b) of
        (F64_Fin _ m e, F64_Fin _ n f) \<Rightarrow>
          round_f64 False (f64_num m e * f64_den f + f64_num n f * f64_den e)
            (f64_den e * f64_den f)
      | _ \<Rightarrow> F64_NaN)"

definition duration_seconds :: "nat \<Rightarrow> f64" where
  "duration_seconds d =
     f64_add_nonneg (round_f64 False (d div 1000000000) 1)
       (round_f64 False (d mod 1000000000) 1000000000)"

section \<open>Lemmas\<close>

lemma f64_less_irrefl [simp]: "\<not> f64_less a a"
  by (cases a) auto

lemma f64_eq_sym: "f64_eq a b = f64_eq b a"
  by (cases a; cases b) (auto simp: min.commute)

end
