(* ===== verification/Expression.thy ===== *)
theory Expression
  imports Build_Types Go_Float
begin

text \<open>
  \<open>pkg/buildfab/expression.go\<close> and \<open>platform.go\<close>: the language of \<open>when\<close> and \<open>if\<close>
  conditions. The process environment, the file system, the platform and version functions of
  \<open>version-go\<close> and compiled regular expressions are the fields of \<open>go_env\<close>; a compiled
  pattern is a test on strings, or the text of the compilation error. \<open>env_version_compare\<close>
  compares two strings that parse as versions (\<open>env_version_error\<close> is \<open>None\<close> for both).
\<close>

section \<open>Context and values\<close>

record platform_info =
  pi_Platform :: string
  pi_Arch :: string
  pi_OS :: string
  pi_OSVersion :: string
  pi_NumCPU :: int

record go_env =
  env_platform :: platform_info
  env_getenv :: "string \<Rightarrow> string"
  env_stat_exists :: "string \<Rightarrow> bool"
  env_regexp :: "string \<Rightarrow> string + (string \<Rightarrow> bool)"
  env_version_error :: "string \<Rightarrow> string option"
  env_version_compare :: "string \<Rightarrow> string \<Rightarrow> int"

record expr_context =
  ectx_Variables :: "string \<Rightarrow> string option"
  ectx_Inputs :: "string \<Rightarrow> string option"
  ectx_Matrix :: "string \<Rightarrow> string option"
  ectx_CI :: bool
  ectx_Branch :: string

datatype expr_value = VBool bool | VStr string | VFloat f64 | VInt int

record expr_result =
  er_Value :: expr_value
  er_Type :: string

type_synonym expr_res = "(go_error, expr_result) res"

definition mk_bool :: "bool \<Rightarrow> expr_result" where
  "mk_bool b = \<lparr>er_Value = VBool b, er_Type = ''bool''\<rparr>"

definition mk_string :: "string \<Rightarrow> expr_result" where
  "mk_string s = \<lparr>er_Value = VStr s, er_Type = ''string''\<rparr>"

definition mk_number :: "expr_value \<Rightarrow> expr_result" where
  "mk_number v = \<lparr>er_Value = v, er_Type = ''number''\<rparr>"

definition expr_error :: "string \<Rightarrow> (go_error, 'a) res" where
  "expr_error t = Err (ExpressionError t)"

text \<open>\<open>GetPlatformVariablesMap\<close>, and \<open>AddPlatformVariables\<close> over the user's map.\<close>

definition GetPlatformVariablesMap :: "go_env \<Rightarrow> string \<Rightarrow> string option" where
  "GetPlatformVariablesMap env = map_of
     [(''platform'', pi_Platform (env_platform env)), (''arch'', pi_Arch (env_platform env)),
      (''os'', pi_OS (env_platform env)), (''os_version'', pi_OSVersion (env_platform env)),
      (''cpu'', show_int (pi_NumCPU (env_platform env)))]"

definition AddPlatformVariables ::
  "go_env \<Rightarrow> (string \<Rightarrow> string option) option \<Rightarrow> string \<Rightarrow> string option" where
  "AddPlatformVariables env variables =
     (case variables of None \<Rightarrow> Map.empty | Some m \<Rightarrow> m) ++ GetPlatformVariablesMap env"

definition getGitBranch :: string where
  "getGitBranch = ''main''"

text \<open>User variables override the platform's.\<close>

definition NewExpressionContext :: "go_env \<Rightarrow> (string \<Rightarrow> string option) \<Rightarrow> expr_context" where
  "NewExpressionContext env variables =
     \<lparr>ectx_Variables = GetPlatformVariablesMap env ++ variables,
      ectx_Inputs = Map.empty, ectx_Matrix = Map.empty,
      ectx_CI = (env_getenv env ''CI'' \<noteq> []), ectx_Branch = getGitBranch\<rparr>"

section \<open>Conversions and comparison\<close>

definition toBool :: "expr_result \<Rightarrow> bool" where
  "toBool r =
     (case er_Value r of
        VBool b \<Rightarrow> b
      | VStr s \<Rightarrow> if s = ''false'' then False else s \<noteq> []
      | VFloat v \<Rightarrow> \<not> f64_eq v f64_zero
      | VInt i \<Rightarrow> i \<noteq> 0)"

definition toString :: "expr_result \<Rightarrow> string" where
  "toString r =
     (case er_Value r of
        VStr s \<Rightarrow> s
      | VBool b \<Rightarrow> if b then ''true'' else ''false''
      | VFloat v \<Rightarrow> format_float v
      | VInt i \<Rightarrow> show_int i)"

definition toNumber :: "expr_result \<Rightarrow> f64" where
  "toNumber r =
     (case er_Value r of
        VFloat v \<Rightarrow> v
      | VInt i \<Rightarrow> f64_of_int i
      | VStr s \<Rightarrow> (case parse_float s of Some v \<Rightarrow> v | None \<Rightarrow> f64_zero)
      | VBool b \<Rightarrow> if b then f64_of_int 1 else f64_zero)"

text \<open>Go compares strings byte by byte.\<close>

fun str_less :: "string \<Rightarrow> string \<Rightarrow> bool" where
  "str_less [] [] = False"
| "str_less [] (_ # _) = True"
| "str_less (_ # _) [] = False"
| "str_less (a # s) (b # t) =
     ((of_char a :: nat) < of_char b \<or> (a = b \<and> str_less s t))"

text \<open>The six cases of a \<open>switch op\<close>; \<open>None\<close> when none applies.\<close>

definition switch_order :: "('a \<Rightarrow> 'a \<Rightarrow> bool) \<Rightarrow> ('a \<Rightarrow> 'a \<Rightarrow> bool) \<Rightarrow> 'a \<Rightarrow> 'a \<Rightarrow> string \<Rightarrow> bool option" where
  "switch_order eq lt a b op =
     (if op = ''=='' then Some (eq a b)
      else if op = ''!='' then Some (\<not> eq a b)
      else if op = ''<'' then Some (lt a b)
      else if op = ''<='' then Some (lt a b \<or> eq a b)
      else if op = ''>'' then Some (lt b a)
      else if op = ''>='' then Some (lt b a \<or> eq a b)
      else None)"

definition switch_bool :: "bool \<Rightarrow> bool \<Rightarrow> string \<Rightarrow> bool option" where
  "switch_bool a b op =
     (if op = ''=='' then Some (a = b) else if op = ''!='' then Some (a \<noteq> b) else None)"

text \<open>A matched case returns; otherwise control goes on to the next block.\<close>

definition first_return :: "bool option list \<Rightarrow> (go_error, bool) res \<Rightarrow> (go_error, bool) res" where
  "first_return rs d = (case find (\<lambda>r. r \<noteq> None) rs of Some (Some b) \<Rightarrow> Ok b | _ \<Rightarrow> d)"

definition compareValues :: "expr_result \<Rightarrow> expr_result \<Rightarrow> string \<Rightarrow> (go_error, bool) res" where
  "compareValues left right op =
     (let lt = er_Type left; rt = er_Type right in
      first_return
        [if lt = ''number'' \<and> rt = ''number''
           then switch_order f64_eq f64_less (toNumber left) (toNumber right) op else None,
         if (lt = ''number'' \<or> rt = ''number'') \<and> (lt = ''string'' \<or> rt = ''string'')
           then switch_order f64_eq f64_less (toNumber left) (toNumber right) op else None,
         if lt = ''string'' \<or> rt = ''string''
           then switch_order (=) str_less (toString left) (toString right) op else None,
         if lt = ''bool'' \<and> rt = ''bool'' then switch_bool (toBool left) (toBool right) op else None]
        (expr_error (''cannot compare '' @ lt @ '' and '' @ rt)))"

section \<open>Atoms\<close>

definition lookup_or :: "(string \<Rightarrow> string option) \<Rightarrow> string \<Rightarrow> string \<Rightarrow> (go_error, string) res" where
  "lookup_or m k msg = (case m k of Some v \<Rightarrow> Ok v | None \<Rightarrow> expr_error (msg @ k))"

definition resolveVariable :: "go_env \<Rightarrow> string \<Rightarrow> expr_context \<Rightarrow> (go_error, string) res" where
  "resolveVariable env name ctx =
     (if name = ''os'' then
        Ok (case ectx_Variables ctx ''os'' of Some v \<Rightarrow> v | None \<Rightarrow> pi_OS (env_platform env))
      else if name = ''arch'' then
        Ok (case ectx_Variables ctx ''arch'' of Some v \<Rightarrow> v | None \<Rightarrow> pi_Arch (env_platform env))
      else if name = ''ci'' then Ok (if ectx_CI ctx then ''true'' else ''false'')
      else if name = ''branch'' then Ok (ectx_Branch ctx)
      else if hasPrefix name ''env.'' then Ok (env_getenv env (drop 4 name))
      else if hasPrefix name ''inputs.''
        then lookup_or (ectx_Inputs ctx) (drop 7 name) ''undefined input: ''
      else if hasPrefix name ''matrix.''
        then lookup_or (ectx_Matrix ctx) (drop 7 name) ''undefined matrix key: ''
      else lookup_or (ectx_Variables ctx) name ''undefined variable: '')"

text \<open>\<open>expr[1 : len(expr)-1]\<close>; on one byte the bounds are 1 and 0, which panics.\<close>

definition strip_ends :: "string \<Rightarrow> (go_error, string) res" where
  "strip_ends s = (if length s < 2 then Panic else Ok (take (length s - 2) (drop 1 s)))"

definition single_quote :: string where
  "single_quote = [CHR 0x27]"

definition double_quote :: string where
  "double_quote = [CHR 0x22]"

definition parseVariableReference :: "go_env \<Rightarrow> string \<Rightarrow> expr_context \<Rightarrow> expr_res" where
  "parseVariableReference env expr ctx =
     (if (hasPrefix expr single_quote \<and> hasSuffix expr single_quote)
         \<or> (hasPrefix expr double_quote \<and> hasSuffix expr double_quote)
      then (case strip_ends expr of Ok v \<Rightarrow> Ok (mk_string v) | Err e \<Rightarrow> Err e | Panic \<Rightarrow> Panic)
      else (case parse_float expr of
              Some num \<Rightarrow> Ok (mk_number (VFloat num))
            | None \<Rightarrow>
                if expr = ''true'' then Ok (mk_bool True)
                else if expr = ''false'' then Ok (mk_bool False)
                else (case resolveVariable env expr ctx of
                        Ok v \<Rightarrow> Ok (mk_string v) | Err e \<Rightarrow> Err e | Panic \<Rightarrow> Panic)))"

section \<open>Functions\<close>

definition arity_error :: "string \<Rightarrow> string \<Rightarrow> expr_result list \<Rightarrow> expr_res" where
  "arity_error f expects args = expr_error (f @ ''() expects '' @ expects @ '', got '' @ show_nat (length args))"

text \<open>The \<open>switch name\<close> of \<open>parseFunctionCall\<close>.\<close>

definition switch_function :: "go_env \<Rightarrow> string \<Rightarrow> expr_result list \<Rightarrow> expr_res" where
  "switch_function env name args =
     (let arg = (\<lambda>i. toString (args ! i)) in
      if name = ''contains'' then
        (if length args \<noteq> 2 then arity_error name ''2 arguments'' args
         else Ok (mk_bool (contains (arg 0) (arg 1))))
      else if name = ''startsWith'' then
        (if length args \<noteq> 2 then arity_error name ''2 arguments'' args
         else Ok (mk_bool (hasPrefix (arg 0) (arg 1))))
      else if name = ''endsWith'' then
        (if length args \<noteq> 2 then arity_error name ''2 arguments'' args
         else Ok (mk_bool (hasSuffix (arg 0) (arg 1))))
      else if name = ''matches'' then
        (if length args \<noteq> 2 then arity_error name ''2 arguments'' args
         else (case env_regexp env (arg 1) of
                 Inl t \<Rightarrow> expr_error (''invalid regex in matches(): '' @ t)
               | Inr re \<Rightarrow> Ok (mk_bool (re (arg 0)))))
      else if name = ''fileExists'' then
        (if length args \<noteq> 1 then arity_error name ''1 argument'' args
         else Ok (mk_bool (env_stat_exists env (arg 0))))
      else if name = ''semverCompare'' then
        (if length args \<noteq> 2 then arity_error name ''2 arguments'' args
         else (case env_version_error env (arg 0) of
                 Some t \<Rightarrow> expr_error (''invalid version 1: '' @ t)
               | None \<Rightarrow>
                   (case env_version_error env (arg 1) of
                      Some t \<Rightarrow> expr_error (''invalid version 2: '' @ t)
                    | None \<Rightarrow> Ok (mk_number (VInt (env_version_compare env (arg 0) (arg 1)))))))
      else expr_error (''unknown function: '' @ name))"

text \<open>
  \<open>FindStringSubmatch\<close> of \<open>^(\w+)\((.*)\)$\<close>: the word before the first parenthesis, and
  everything up to the last byte, which has to be a parenthesis; the dot matches any character
  but a newline.
\<close>

definition word_char :: "char \<Rightarrow> bool" where
  "word_char c =
     (let n = (of_char c :: nat)
      in is_digit c \<or> (65 \<le> n \<and> n \<le> 90) \<or> (97 \<le> n \<and> n \<le> 122) \<or> c = CHR ''_'')"

definition match_call :: "string \<Rightarrow> (string \<times> string) option" where
  "match_call s =
     (let name = takeWhile word_char s; rest = dropWhile word_char s
      in if name \<noteq> [] \<and> 2 \<le> length rest \<and> hd rest = CHR ''('' \<and> last rest = CHR '')''
            \<and> newline \<notin> set (butlast (tl rest))
         then Some (name, butlast (tl rest)) else None)"

section \<open>The recursive parser\<close>

text \<open>
  The scan for \<open>&&\<close> or \<open>||\<close> (\<open>c\<close> is the operator's character): outside parentheses,
  and with a space on both sides. \<open>prev\<close> is the byte before.
\<close>

fun find_op :: "char \<Rightarrow> int \<Rightarrow> char option \<Rightarrow> string \<Rightarrow> nat \<Rightarrow> nat option" where
  "find_op c depth prev [] i = None"
| "find_op c depth prev (x # s) i =
     (if x = CHR ''('' then find_op c (depth + 1) (Some x) s (i + 1)
      else if x = CHR '')'' then find_op c (depth - 1) (Some x) s (i + 1)
      else if x = c \<and> s \<noteq> [] \<and> hd s = c \<and> depth = 0
              \<and> prev = Some (CHR '' '') \<and> tl s \<noteq> [] \<and> hd (tl s) = CHR '' ''
      then Some i
      else find_op c depth (Some x) s (i + 1))"

definition operator_pos :: "char \<Rightarrow> string \<Rightarrow> nat option" where
  "operator_pos c s = (if contains s [CHR '' '', c, c, CHR '' ''] then find_op c 0 None s 0 else None)"

definition comparison_operators :: "string list" where
  "comparison_operators = [''!='', '' = '', ''<='', ''>='', ''<'', ''>'', ''=='']"

text \<open>Try the next parser after an error; a panic goes up.\<close>

fun or_else :: "expr_res \<Rightarrow> expr_res \<Rightarrow> expr_res" where
  "or_else (Ok v) d = Ok v"
| "or_else (Err e) d = d"
| "or_else Panic d = Panic"

lemma or_else_cong [fundef_cong]:
  "a = a' \<Longrightarrow> b = b' \<Longrightarrow> or_else a b = or_else a' b'"
  by simp

text \<open>Both operands are always evaluated, the left one first.\<close>

fun bool_op :: "(bool \<Rightarrow> bool \<Rightarrow> bool) \<Rightarrow> expr_res \<Rightarrow> expr_res \<Rightarrow> expr_res" where
  "bool_op f (Ok l) (Ok r) = Ok (mk_bool (f (toBool l) (toBool r)))"
| "bool_op f (Ok l) (Err e) = Err e"
| "bool_op f (Ok l) Panic = Panic"
| "bool_op f (Err e) r = Err e"
| "bool_op f Panic r = Panic"

lemma find_op_bound: "find_op c d p s i = Some j \<Longrightarrow> i \<le> j \<and> j + 2 < i + length s"
  by (induction c d p s i rule: find_op.induct) (fastforce split: if_splits simp: neq_Nil_conv)+

lemma operator_pos_bound: "operator_pos c s = Some j \<Longrightarrow> j + 2 < length s"
  using find_op_bound by (fastforce simp: operator_pos_def split: if_splits)

lemma match_call_length: "match_call s = Some (f, a) \<Longrightarrow> length a + 3 \<le> length s"
proof -
  assume m: "match_call s = Some (f, a)"
  have "length s = length (takeWhile word_char s) + length (dropWhile word_char s)"
    by (metis length_append takeWhile_dropWhile_id)
  moreover have "takeWhile word_char s \<noteq> []" "2 \<le> length (dropWhile word_char s)"
    "a = butlast (tl (dropWhile word_char s))"
    using m by (auto simp: match_call_def Let_def split: if_splits)
  ultimately show ?thesis by (cases "takeWhile word_char s") auto
qed

lemma split_two_length:
  "split_str sep s = [a, b] \<Longrightarrow> length a < length s \<and> length b < length s"
  using split_str_total [of sep s] by simp

definition sum_parts :: "string list \<Rightarrow> nat" where
  "sum_parts ps = sum_list (map (\<lambda>p. length p + 1) ps)"

lemma sum_parts_simps [simp]:
  "sum_parts [] = 0" "sum_parts (p # ps) = length p + 1 + sum_parts ps"
  by (simp_all add: sum_parts_def)

lemma sum_parts_split: "sum_parts (split_str sep s) \<le> length s + 1"
  using split_str_total [of sep s] by (simp add: sum_parts_def)

lemma trim_le: "length s \<le> n \<Longrightarrow> length (trim_space s) \<le> n"
  using trim_space_length le_trans by blast

text \<open>How far each call of the parser is below its caller.\<close>

lemma parse_sizes:
  "length s < n \<Longrightarrow> 20 * length (trim_space s) + 12 < 20 * n + 11"
  "length s < n \<Longrightarrow> 20 * length (trim_space s) + 12 < 20 * n + 2 + k"
  using trim_space_length [of s] by linarith+

lemma inner_length: "length s \<le> n \<Longrightarrow> 2 \<le> length s \<Longrightarrow> length (take (length s - 2) (drop 1 s)) < n"
  by simp

lemma parens_length: "hasPrefix s ''('' \<Longrightarrow> hasSuffix s '')'' \<Longrightarrow> 2 \<le> length s"
  by (cases s) (auto simp: hasPrefix_def hasSuffix_def Suc_le_eq split: if_splits)

lemma operand_length:
  assumes "hasPrefix expr ''!''"
  shows "length (trim_space (drop 1 expr)) < length expr"
    "length (trim_space (take n (drop 1 (trim_space (drop 1 expr))))) < length expr"
proof -
  have "length (drop 1 expr) < length expr" using assms by (cases expr) (auto simp: hasPrefix_def)
  then show a: "length (trim_space (drop 1 expr)) < length expr" by (rule trim_space_less)
  show "length (trim_space (take n (drop 1 (trim_space (drop 1 expr))))) < length expr"
    using a by (intro trim_space_less) simp
qed

function (sequential)
  parseExpression :: "go_env \<Rightarrow> expr_context \<Rightarrow> string \<Rightarrow> expr_res" and
  parseLogicalExpression :: "go_env \<Rightarrow> expr_context \<Rightarrow> string \<Rightarrow> expr_res" and
  parseComparisonExpression :: "go_env \<Rightarrow> expr_context \<Rightarrow> string \<Rightarrow> expr_res" and
  parseOperators :: "go_env \<Rightarrow> expr_context \<Rightarrow> string \<Rightarrow> string list \<Rightarrow> expr_res" and
  parseFunctionCall :: "go_env \<Rightarrow> expr_context \<Rightarrow> string \<Rightarrow> expr_res" and
  parseArgs :: "go_env \<Rightarrow> expr_context \<Rightarrow> string list \<Rightarrow> (go_error, expr_result list) res" where
  "parseExpression env ctx expr0 =
     (let expr = trim_space expr0 in
      if hasPrefix expr ''('' \<and> hasSuffix expr '')''
      then parseExpression env ctx (trim_space (take (length expr - 2) (drop 1 expr)))
      else or_else (parseLogicalExpression env ctx expr)
          (or_else (parseComparisonExpression env ctx expr)
          (or_else (parseFunctionCall env ctx expr)
          (or_else (parseVariableReference env expr ctx)
            (expr_error (''unable to parse expression: '' @ expr))))))"
| "parseLogicalExpression env ctx expr =
     (if hasPrefix expr ''!'' then
        (let operand0 = trim_space (drop 1 expr);
             operand = (if hasPrefix operand0 ''('' \<and> hasSuffix operand0 '')''
                        then trim_space (take (length operand0 - 2) (drop 1 operand0)) else operand0)
         in case parseExpression env ctx operand of
              Ok r \<Rightarrow> Ok (mk_bool (\<not> toBool r)) | Err e \<Rightarrow> Err e | Panic \<Rightarrow> Panic)
      else (case operator_pos (CHR ''&'') expr of
        Some i \<Rightarrow>
          bool_op (\<and>) (parseExpression env ctx (trim_space (take i expr)))
            (parseExpression env ctx (trim_space (drop (i + 2) expr)))
      | None \<Rightarrow>
          (case operator_pos (CHR ''|'') expr of
             Some i \<Rightarrow>
               bool_op (\<or>) (parseExpression env ctx (trim_space (take i expr)))
                 (parseExpression env ctx (trim_space (drop (i + 2) expr)))
           | None \<Rightarrow> expr_error ''not a logical expression'')))"
| "parseComparisonExpression env ctx expr = parseOperators env ctx expr comparison_operators"
| "parseOperators env ctx expr [] = expr_error ''not a comparison expression''"
| "parseOperators env ctx expr (op # ops) =
     (case (if contains expr op then split_str op expr else []) of
        [p, q] \<Rightarrow>
          (case parseExpression env ctx (trim_space p) of
             Err e \<Rightarrow> Err e
           | Panic \<Rightarrow> Panic
           | Ok left \<Rightarrow>
               (case parseExpression env ctx (trim_space q) of
                  Err e \<Rightarrow> Err e
                | Panic \<Rightarrow> Panic
                | Ok right \<Rightarrow>
                    (let op1 = trim_space op; op2 = (if op1 = ''='' then ''=='' else op1)
                     in case compareValues left right op2 of
                          Ok b \<Rightarrow> Ok (mk_bool b) | Err e \<Rightarrow> Err e | Panic \<Rightarrow> Panic)))
      | _ \<Rightarrow> parseOperators env ctx expr ops)"
| "parseFunctionCall env ctx expr =
     (case match_call expr of
        None \<Rightarrow> expr_error (''not a function call: '' @ expr)
      | Some (name, argsStr) \<Rightarrow>
          (case (if argsStr \<noteq> [] then parseArgs env ctx (split_str '','' argsStr) else Ok []) of
             Ok args \<Rightarrow> switch_function env name args
           | Err e \<Rightarrow> Err e
           | Panic \<Rightarrow> Panic))"
| "parseArgs env ctx [] = Ok []"
| "parseArgs env ctx (p # ps) =
     (case parseExpression env ctx (trim_space p) of
        Err e \<Rightarrow> Err e
      | Panic \<Rightarrow> Panic
      | Ok a \<Rightarrow>
          (case parseArgs env ctx ps of
             Ok as \<Rightarrow> Ok (a # as) | Err e \<Rightarrow> Err e | Panic \<Rightarrow> Panic))"
  by pat_completeness auto


termination
proof (relation "measure (\<lambda>x. case x of
       Inl (Inl (_, _, s)) \<Rightarrow> 20 * length s + 12
     | Inl (Inr (Inl (_, _, s))) \<Rightarrow> 20 * length s + 11
     | Inl (Inr (Inr (_, _, s))) \<Rightarrow> 20 * length s + 10
     | Inr (Inl (_, _, s, ops)) \<Rightarrow> 20 * length s + 2 + length ops
     | Inr (Inr (Inl (_, _, s))) \<Rightarrow> 20 * length s + 1
     | Inr (Inr (Inr (_, _, ps))) \<Rightarrow> 20 * sum_parts ps)", goal_cases)
  case 1
  show ?case by simp
next
  case (2 env ctx expr0 x)
  then have "length (take (length x - 2) (drop 1 x)) < length expr0"
    using parens_length [of x] trim_space_length [of expr0] by (intro inner_length) auto
  from trim_space_less [OF this] show ?case by simp
next
  case (3 env ctx expr0 x)
  then show ?case using trim_space_length [of expr0] by (simp del: trim_space_length)
next
  case (4 env ctx expr0 x)
  then show ?case using trim_space_length [of expr0] by (simp del: trim_space_length)
next
  case (5 env ctx expr0 x)
  then show ?case using trim_space_length [of expr0] by (simp del: trim_space_length)
next
  case (6 env ctx expr x xa)
  then show ?case using operand_length(1) [of expr] operand_length(2) [of expr "length x - 2"] by (simp split: if_splits)
next
  case (7 env ctx expr i)
  then show ?case using parse_sizes(1) [of "take i expr" "length expr"] operator_pos_bound by fastforce
next
  case (8 env ctx expr i)
  then show ?case using parse_sizes(1) [of "drop (i + 2) expr" "length expr"] operator_pos_bound by fastforce
next
  case (9 env ctx expr i)
  then show ?case using parse_sizes(1) [of "take i expr" "length expr"] operator_pos_bound by fastforce
next
  case (10 env ctx expr i)
  then show ?case using parse_sizes(1) [of "drop (i + 2) expr" "length expr"] operator_pos_bound by fastforce
next
  case (11 env ctx expr)
  show ?case by (simp add: comparison_operators_def)
next
  case (12 env ctx expr op ops)
  then show ?case by simp
next
  case (13 env ctx expr op ops a b)
  then show ?case by simp
next
  case (14 env ctx expr op ops a b c d)
  then have "length a < length expr" using split_two_length [of op expr] by (auto split: if_splits)
  with parse_sizes(2) [OF this, of "Suc (length ops)"] show ?case by simp
next
  case (15 env ctx expr op ops a b c d)
  then have "length c < length expr" using split_two_length [of op expr] by (auto split: if_splits)
  with parse_sizes(2) [OF this, of "Suc (length ops)"] show ?case by simp
next
  case (16 env ctx expr op ops a b c d)
  then show ?case by simp
next
  case (17 env ctx expr r f y)
  then have "length y + 3 \<le> length expr" by (metis match_call_length)
  with sum_parts_split [of "'',''" y] show ?case by simp
next
  case (18 env ctx p ps)
  then show ?case using trim_space_length [of p] by (simp del: trim_space_length)
next
  case (19 env ctx p ps)
  then show ?case by simp
qed


section \<open>Entry points\<close>

definition EvaluateExpression :: "go_env \<Rightarrow> string \<Rightarrow> expr_context \<Rightarrow> (go_error, bool) res" where
  "EvaluateExpression env expr0 ctx =
     (let expr1 = trim_space expr0;
          expr = (if hasPrefix expr1 ''${{'' \<and> hasSuffix expr1 ''}}''
                  then trim_space (take (length expr1 - 5) (drop 3 expr1)) else expr1)
      in case parseExpression env ctx expr of
           Ok r \<Rightarrow> Ok (toBool r) | Err e \<Rightarrow> Err e | Panic \<Rightarrow> Panic)"

definition ParseExpression :: "go_env \<Rightarrow> string \<Rightarrow> expr_context \<Rightarrow> expr_res" where
  "ParseExpression env expr ctx = parseExpression env ctx expr"

definition callFunction :: "go_env \<Rightarrow> string \<Rightarrow> expr_result list \<Rightarrow> expr_res" where
  "callFunction env name args =
     (if name \<in> {''contains'', ''startsWith'', ''endsWith'', ''matches'', ''semverCompare''}
         \<and> length args \<noteq> 2
      then expr_error (name @ ''() expects 2 arguments, got '' @ show_nat (length args))
      else if name = ''fileExists'' \<and> length args \<noteq> 1
      then expr_error (name @ ''() expects 1 argument, got '' @ show_nat (length args))
      else if name = ''contains'' then
        Ok (mk_bool (contains (toString (args ! 0)) (toString (args ! 1))))
      else if name = ''startsWith'' then
        Ok (mk_bool (hasPrefix (toString (args ! 0)) (toString (args ! 1))))
      else if name = ''endsWith'' then
        Ok (mk_bool (hasSuffix (toString (args ! 0)) (toString (args ! 1))))
      else if name = ''matches'' then
        (case env_regexp env (toString (args ! 1)) of
           Inl t \<Rightarrow> expr_error (''invalid regex in matches(): '' @ t)
         | Inr re \<Rightarrow> Ok (mk_bool (re (toString (args ! 0)))))
      else if name = ''fileExists'' then
        Ok (mk_bool (env_stat_exists env (toString (args ! 0))))
      else if name = ''semverCompare'' then
        (case (env_version_error env (toString (args ! 0)),
               env_version_error env (toString (args ! 1))) of
           (Some t, _) \<Rightarrow> expr_error (''invalid version 1: '' @ t)
         | (None, Some t) \<Rightarrow> expr_error (''invalid version 2: '' @ t)
         | (None, None) \<Rightarrow>
             Ok (mk_number (VInt (env_version_compare env (toString (args ! 0))
               (toString (args ! 1))))))
      else expr_error (''unknown function: '' @ name))"

definition parseFunctionArguments ::
  "go_env \<Rightarrow> string \<Rightarrow> expr_context \<Rightarrow> (go_error, expr_result list) res" where
  "parseFunctionArguments env argsStr ctx =
     (if argsStr = [] then Ok [] else parseArgs env ctx (split_str '','' argsStr))"

text \<open>The switch inside the parser and \<open>callFunction\<close> are the same function.\<close>

lemma callFunction_switch: "callFunction env name args = switch_function env name args"
  by (simp add: callFunction_def switch_function_def arity_error_def Let_def split: option.split)

end
