(* ===== verification/Variables.thy ===== *)
theory Variables
  imports Expression
begin

text \<open>
  \<open>pkg/buildfab/variables.go\<close>: \<open>${{ name }}\<close> references in commands, step names and
  conditions. A Go map that is nil is \<open>None\<close>. No call here returns an error.
\<close>

section \<open>The pattern\<close>

text \<open>
  A match of \<open>\$\{\{\s*([^}]+)\s*\}\}\<close> at the beginning of a text: the bytes between
  \<open>${{\<close> and the first \<open>}\<close>, at least one, and \<open>}}\<close> after them. \<open>match_ref\<close> returns
  the first capture group, the matched text and what follows it. The leading \<open>\s*\<close> gives
  its last byte back when nothing else is left for the group; the group takes the trailing
  white space.
\<close>

definition re_space :: "char \<Rightarrow> bool" where
  "re_space c = (c = CHR 0x09 \<or> c = CHR 0x0A \<or> c = CHR 0x0C \<or> c = CHR 0x0D \<or> c = CHR 0x20)"

definition ref_group :: "string \<Rightarrow> string" where
  "ref_group body = (let g = dropWhile re_space body in if g = [] then [last body] else g)"

definition match_ref :: "string \<Rightarrow> (string \<times> string \<times> string) option" where
  "match_ref s =
     (let body = takeWhile (\<lambda>c. c \<noteq> CHR ''}'') (drop 3 s); rest = drop (length body) (drop 3 s)
      in if hasPrefix s ''${{'' \<and> body \<noteq> [] \<and> hasPrefix rest ''}}''
         then Some (ref_group body, ''${{'' @ body @ ''}}'', drop 2 rest) else None)"

lemma match_ref_split: "match_ref s = Some (g, m, r) \<Longrightarrow> s = m @ r \<and> 6 \<le> length m"
proof -
  assume m: "match_ref s = Some (g, m, r)"
  let ?b = "takeWhile (\<lambda>c. c \<noteq> CHR ''}'') (drop 3 s)" and ?r = "drop (length (takeWhile (\<lambda>c. c \<noteq> CHR ''}'') (drop 3 s))) (drop 3 s)"
  have h: "hasPrefix s ''${{''" "?b \<noteq> []" "hasPrefix ?r ''}}''" "m = ''${{'' @ ?b @ ''}}''" "r = drop 2 ?r"
    using m by (auto simp: match_ref_def Let_def split: if_splits)
  obtain t where t: "s = ''${{'' @ t" using h(1) by (auto simp: hasPrefix_iff)
  obtain u where u: "?r = ''}}'' @ u" using h(3) by (auto simp: hasPrefix_iff)
  have "t = ?b @ ?r" using t by (simp add: dropWhile_eq_drop [symmetric])
  then have "s = ''${{'' @ ?b @ ''}}'' @ u" using t u by simp
  moreover have "r = u" unfolding h(5) u by simp
  ultimately have s: "s = m @ r" using h(4) by simp
  have "6 \<le> length m" using h(2,4) by (cases ?b) simp_all
  with s show ?thesis by blast
qed

lemma match_ref_shorter: "match_ref s = Some (g, m, r) \<Longrightarrow> length r < length s"
  using match_ref_split [of s g m r] by auto

text \<open>
  \<open>ReplaceAllStringFunc\<close> goes over the text once, from the left; what a reference is
  replaced by is not looked at again.
\<close>

function replace_refs :: "(string \<Rightarrow> string option) \<Rightarrow> string \<Rightarrow> string" where
  "replace_refs variables s =
     (case match_ref s of
        Some (g, m, r) \<Rightarrow>
          (case variables (trim_space g) of Some v \<Rightarrow> v | None \<Rightarrow> m) @ replace_refs variables r
      | None \<Rightarrow> (case s of [] \<Rightarrow> [] | c # t \<Rightarrow> c # replace_refs variables t))"
  by pat_completeness auto
termination
  by (relation "measure (length \<circ> snd)") (auto dest: match_ref_shorter)

declare replace_refs.simps [simp del]

section \<open>Operations\<close>

definition InterpolateVariables :: "string \<Rightarrow> (string \<Rightarrow> string option) option \<Rightarrow> string" where
  "InterpolateVariables text variables =
     (case variables of None \<Rightarrow> text | Some m \<Rightarrow> replace_refs m text)"

definition InterpolateAction :: "action \<Rightarrow> (string \<Rightarrow> string option) option \<Rightarrow> action" where
  "InterpolateAction a variables =
     (if act_Run a = [] then a else a\<lparr>act_Run := InterpolateVariables (act_Run a) variables\<rparr>)"

definition InterpolateStep :: "step \<Rightarrow> (string \<Rightarrow> string option) option \<Rightarrow> step" where
  "InterpolateStep st variables =
     st\<lparr>step_Action := InterpolateVariables (step_Action st) variables,
        step_Require := map (\<lambda>r. InterpolateVariables r variables) (step_Require st),
        step_If := (if step_If st \<noteq> [] then InterpolateVariables (step_If st) variables else [])\<rparr>"

section \<open>Lemmas\<close>

lemma match_ref_None: "s = [] \<or> hd s \<noteq> CHR ''$'' \<Longrightarrow> match_ref s = None"
  by (cases s) (auto simp: match_ref_def hasPrefix_def)

lemma replace_refs_Nil [simp]: "replace_refs m [] = []"
  by (subst replace_refs.simps) (simp add: match_ref_None)

lemma replace_refs_literal:
  "CHR ''$'' \<notin> set p \<Longrightarrow> replace_refs m (p @ s) = p @ replace_refs m s"
proof (induction p)
  case (Cons c p)
  then have "match_ref ((c # p) @ s) = None" by (intro match_ref_None) auto
  with Cons show ?case by (subst replace_refs.simps) simp
qed simp

definition ref_body :: "string \<Rightarrow> bool" where
  "ref_body b = (b \<noteq> [] \<and> CHR ''}'' \<notin> set b)"

lemma takeWhile_body: "CHR ''}'' \<notin> set b \<Longrightarrow> takeWhile (\<lambda>c. c \<noteq> CHR ''}'') (b @ CHR ''}'' # s) = b"
  by (induction b) auto

lemma match_ref_ref:
  "ref_body b \<Longrightarrow> match_ref (''${{'' @ b @ ''}}'' @ s) = Some (ref_group b, ''${{'' @ b @ ''}}'', s)"
  by (simp add: match_ref_def Let_def takeWhile_body ref_body_def hasPrefix_def)

lemma re_space_ascii: "re_space c \<Longrightarrow> ascii_space c"
  by (auto simp: re_space_def ascii_space_def)

lemma trim_left_ascii: "ascii_space c \<Longrightarrow> trim_left (c # s) = trim_left s"
  by (subst trim_left.simps) simp

lemma trim_left_re_space: "trim_left (dropWhile re_space s) = trim_left s"
  by (induction s) (auto simp: trim_left_ascii re_space_ascii)

lemma trim_left_empty: "dropWhile re_space s = [] \<Longrightarrow> trim_left s = []"
  by (metis trim_left_re_space trim_left.simps)

text \<open>The group and the whole body name the same variable.\<close>

lemma trim_ref_group: "b \<noteq> [] \<Longrightarrow> trim_space (ref_group b) = trim_space b"
proof (cases "dropWhile re_space b = []")
  case True
  assume "b \<noteq> []"
  then have "re_space (last b)" using True by (simp add: dropWhile_eq_Nil_conv)
  then have "trim_left [last b] = []" by (intro trim_left_empty) simp
  then show ?thesis
    using True trim_left_empty [OF True] by (simp add: ref_group_def trim_space_def Let_def)
next
  case False
  then have "ref_group b = dropWhile re_space b" unfolding ref_group_def Let_def by (rule if_not_P)
  then show ?thesis by (simp add: trim_space_def trim_left_re_space)
qed

lemma replace_refs_ref:
  assumes "ref_body b"
  shows "replace_refs m (''${{'' @ b @ ''}}'' @ s)
     = (case m (trim_space b) of Some v \<Rightarrow> v | None \<Rightarrow> ''${{'' @ b @ ''}}'') @ replace_refs m s"
proof -
  have "trim_space (ref_group b) = trim_space b"
    using assms by (intro trim_ref_group) (simp add: ref_body_def)
  then show ?thesis
    by (subst replace_refs.simps) (simp only: match_ref_ref [OF assms] option.case prod.case)
qed

text \<open>
  A text as pieces: literal text without a dollar, and references. Its value is each piece's
  value in turn.
\<close>

datatype piece = Lit string | Ref string

fun piece_text :: "piece \<Rightarrow> string" where
  "piece_text (Lit t) = t"
| "piece_text (Ref b) = ''${{'' @ b @ ''}}''"

fun piece_ok :: "piece \<Rightarrow> bool" where
  "piece_ok (Lit t) = (CHR ''$'' \<notin> set t)"
| "piece_ok (Ref b) = ref_body b"

fun piece_value :: "(string \<Rightarrow> string option) \<Rightarrow> piece \<Rightarrow> string" where
  "piece_value m (Lit t) = t"
| "piece_value m (Ref b) =
     (case m (trim_space b) of Some v \<Rightarrow> v | None \<Rightarrow> ''${{'' @ b @ ''}}'')"

lemma replace_refs_pieces:
  "\<forall>p \<in> set ps. piece_ok p \<Longrightarrow>
     replace_refs m (concat (map piece_text ps) @ s) = concat (map (piece_value m) ps) @ replace_refs m s"
proof (induction ps)
  case (Cons p ps)
  then show ?case
    using replace_refs_ref [of _ m "concat (map piece_text ps) @ s"]
    by (cases p) (simp_all add: replace_refs_literal)
qed simp


end
