(* ===== verification/Actions.thy ===== *)
theory Actions
  imports Build_Types
begin

text \<open>
  The built-in actions: \<open>pkg/buildfab/actions.go\<close> (names with the prefix \<open>Default_\<close>) and
  the copy in \<open>internal/actions/registry.go\<close> (prefix \<open>Registry_\<close>), which reports what git
  finds as a warning. The output of a command and the contents of a file are functions of the
  state of the system, \<open>Inl\<close> with the text of the error when the call fails.
\<close>

record sys =
  sys_command :: "string list \<Rightarrow> string + string"
  sys_readfile :: "string \<Rightarrow> string + string"

type_synonym run_result = "result \<times> go_error option"

datatype builtin = GitUntracked | GitUncommitted | GitModified | VersionCheck | VersionCheckGreatest

definition mk_result :: "status \<Rightarrow> string \<Rightarrow> result" where
  "mk_result st msg = zero_result\<lparr>res_Status := st, res_Message := msg\<rparr>"

section \<open>pkg/buildfab/actions.go\<close>

definition Default_GitUntrackedAction_Run :: "sys \<Rightarrow> run_result" where
  "Default_GitUntrackedAction_Run s =
     (case sys_command s [''git'', ''status'', ''--porcelain''] of
        Inl err \<Rightarrow> (mk_result StatusError ''Failed to check git status'',
                    Some (ExternalError (''git status failed: '' @ err)))
      | Inr output \<Rightarrow>
          let lines = split_str [newline] (trim_space output);
              untracked = map (\<lambda>l. trim_space (drop 2 l)) (filter (\<lambda>l. hasPrefix l ''??'') lines)
          in if 0 < length untracked
             then (mk_result StatusError
                    (''Untracked files found, to check run:'' @ [newline] @ ''      git status''),
                   Some (ExternalError ''untracked files found''))
             else (mk_result StatusOK ''No untracked files found'', None))"

definition Default_GitUncommittedAction_Run :: "sys \<Rightarrow> run_result" where
  "Default_GitUncommittedAction_Run s =
     (case sys_command s [''git'', ''status'', ''--porcelain''] of
        Inl err \<Rightarrow> (mk_result StatusError ''Failed to check git status'',
                    Some (ExternalError (''git status failed: '' @ err)))
      | Inr output \<Rightarrow>
          let lines = split_str [newline] (trim_space output);
              uncommitted = map (\<lambda>l. trim_space (drop 2 l))
                (filter (\<lambda>l. 2 \<le> length l
                   \<and> take 2 l \<in> {''M '', ''A '', ''D '', ''R '', ''C ''}) lines)
          in if 0 < length uncommitted
             then (mk_result StatusError
                    (''Uncommitted changes found, to check run:'' @ [newline] @ ''      git status''),
                   Some (ExternalError ''uncommitted changes found''))
             else (mk_result StatusOK ''No uncommitted changes found'', None))"

definition Default_GitModifiedAction_Run :: "sys \<Rightarrow> run_result" where
  "Default_GitModifiedAction_Run s =
     (case sys_command s [''git'', ''diff'', ''--name-only''] of
        Inl err \<Rightarrow> (mk_result StatusError ''Failed to check git diff'',
                    Some (ExternalError (''git diff failed: '' @ err)))
      | Inr output \<Rightarrow>
          let lines = split_str [newline] (trim_space output);
              modified = filter (\<lambda>l. l \<noteq> []) lines
          in if 0 < length modified
             then (mk_result StatusError
                    (''There are modified files, to check run:'' @ [newline] @ ''      git status''),
                   Some (ExternalError ''modified files found''))
             else (mk_result StatusOK ''No modified files found'', None))"

definition Default_isNumeric :: "string \<Rightarrow> bool" where
  "Default_isNumeric s = (if s = [] then False else list_all is_digit s)"

definition Default_isValidVersionPart :: "string \<Rightarrow> bool" where
  "Default_isValidVersionPart part =
     (if Default_isNumeric part then True
      else let lower = to_lower part
           in if contains lower ''alpha'' \<or> contains lower ''beta'' \<or> contains lower ''rc''
                 \<or> contains lower ''dev''
              then True else False)"

fun Default_parts_loop :: "string list \<Rightarrow> bool" where
  "Default_parts_loop [] = True"
| "Default_parts_loop (part # parts) =
     (if part = [] then False
      else if \<not> Default_isValidVersionPart part then False
      else Default_parts_loop parts)"

definition Default_isValidVersion :: "string \<Rightarrow> bool" where
  "Default_isValidVersion version =
     (if \<not> hasPrefix version ''v'' then False
      else let version = drop 1 version
           in if \<not> contains version ''.'' then False
              else let parts = split_str ''.'' version
                   in if length parts < 3 then False else Default_parts_loop parts)"

definition Default_VersionCheckAction_Run :: "sys \<Rightarrow> run_result" where
  "Default_VersionCheckAction_Run s =
     (case sys_readfile s ''VERSION'' of
        Inl err \<Rightarrow> (mk_result StatusError ''VERSION file not found'',
                    Some (ExternalError (''VERSION file not found: '' @ err)))
      | Inr data \<Rightarrow>
          let version = trim_space data
          in if version = []
             then (mk_result StatusError ''VERSION file is empty'',
                   Some (ExternalError ''VERSION file is empty''))
             else if \<not> Default_isValidVersion version
             then (mk_result StatusError (''Invalid version format: '' @ version),
                   Some (ExternalError (''invalid version format: '' @ version)))
             else (mk_result StatusOK (''Version format is valid: '' @ version), None))"

definition Default_VersionCheckGreatestAction_Run :: "sys \<Rightarrow> run_result" where
  "Default_VersionCheckGreatestAction_Run s =
     (case sys_readfile s ''VERSION'' of
        Inl err \<Rightarrow> (mk_result StatusError ''VERSION file not found'',
                    Some (ExternalError (''VERSION file not found: '' @ err)))
      | Inr data \<Rightarrow>
          let currentVersion = trim_space data
          in (case sys_command s [''git'', ''tag'', ''--sort=-version:refname''] of
                Inl err \<Rightarrow> (mk_result StatusError ''Failed to get git tags'',
                            Some (ExternalError (''git tag failed: '' @ err)))
              | Inr output \<Rightarrow>
                  let tags = split_str [newline] (trim_space output)
                  in if length tags = 0 \<or> (length tags = 1 \<and> tags ! 0 = [])
                     then (mk_result StatusOK ''No tags found, current version is greatest'', None)
                     else let greatestTag = tags ! 0
                          in if currentVersion = greatestTag
                             then (mk_result StatusOK
                                    (''Current version '' @ currentVersion @ '' is the greatest''), None)
                             else (mk_result StatusError
                                    (''Current version '' @ currentVersion
                                     @ '' is not the greatest. Greatest is '' @ greatestTag),
                                   Some (ExternalError ''current version is not the greatest''))))"

fun Default_runner_Run :: "builtin \<Rightarrow> sys \<Rightarrow> run_result" where
  "Default_runner_Run GitUntracked s = Default_GitUntrackedAction_Run s"
| "Default_runner_Run GitUncommitted s = Default_GitUncommittedAction_Run s"
| "Default_runner_Run GitModified s = Default_GitModifiedAction_Run s"
| "Default_runner_Run VersionCheck s = Default_VersionCheckAction_Run s"
| "Default_runner_Run VersionCheckGreatest s = Default_VersionCheckGreatestAction_Run s"

fun Default_Description :: "builtin \<Rightarrow> string" where
  "Default_Description GitUntracked = ''Check for untracked files''"
| "Default_Description GitUncommitted = ''Check for uncommitted changes''"
| "Default_Description GitModified = ''Check for modified files''"
| "Default_Description VersionCheck = ''Validate version format''"
| "Default_Description VersionCheckGreatest = ''Check if current version is the greatest''"

type_synonym Default_registry = "(string \<times> builtin) list"

definition Default_Register :: "string \<Rightarrow> builtin \<Rightarrow> Default_registry \<Rightarrow> Default_registry" where
  "Default_Register name runner r = AList.update name runner r"

definition Default_GetRunner :: "Default_registry \<Rightarrow> string \<Rightarrow> builtin option" where
  "Default_GetRunner r name = map_of r name"

definition Default_ListActions :: "Default_registry \<Rightarrow> (string \<times> string) list" where
  "Default_ListActions r = map (\<lambda>(name, runner). (name, Default_Description runner)) r"

definition Default_New :: "Default_registry" where
  "Default_New =
     Default_Register ''version@check-greatest'' VersionCheckGreatest
     (Default_Register ''version@check'' VersionCheck
     (Default_Register ''git@modified'' GitModified
     (Default_Register ''git@uncommitted'' GitUncommitted
     (Default_Register ''git@untracked'' GitUntracked []))))"

section \<open>internal/actions/registry.go\<close>

definition Registry_GitUntrackedAction_Run :: "sys \<Rightarrow> run_result" where
  "Registry_GitUntrackedAction_Run s =
     (case sys_command s [''git'', ''status'', ''--porcelain''] of
        Inl err \<Rightarrow> (mk_result StatusError ''Failed to check git status'',
                    Some (ExternalError (''git status failed: '' @ err)))
      | Inr output \<Rightarrow>
          let lines = split_str [newline] (trim_space output);
              untracked = map (\<lambda>l. trim_space (drop 2 l)) (filter (\<lambda>l. hasPrefix l ''??'') lines)
          in if 0 < length untracked
             then (mk_result StatusWarn
                    (''Untracked files found, to check run:'' @ [newline] @ ''    git status''),
                   None)
             else (mk_result StatusOK ''No untracked files found'', None))"

definition Registry_GitUncommittedAction_Run :: "sys \<Rightarrow> run_result" where
  "Registry_GitUncommittedAction_Run s =
     (case sys_command s [''git'', ''status'', ''--porcelain''] of
        Inl err \<Rightarrow> (mk_result StatusError ''Failed to check git status'',
                    Some (ExternalError (''git status failed: '' @ err)))
      | Inr output \<Rightarrow>
          let lines = split_str [newline] (trim_space output);
              uncommitted = map (\<lambda>l. trim_space (drop 2 l))
                (filter (\<lambda>l. 2 \<le> length l
                   \<and> take 2 l \<in> {''M '', ''A '', ''D '', ''R '', ''C ''}) lines)
          in if 0 < length uncommitted
             then (mk_result StatusWarn
                    (''Uncommitted changes found, to check run:'' @ [newline] @ ''    git status''),
                   None)
             else (mk_result StatusOK ''No uncommitted changes found'', None))"

definition Registry_GitModifiedAction_Run :: "sys \<Rightarrow> run_result" where
  "Registry_GitModifiedAction_Run s =
     (case sys_command s [''git'', ''diff'', ''--name-only''] of
        Inl err \<Rightarrow> (mk_result StatusError ''Failed to check git diff'',
                    Some (ExternalError (''git diff failed: '' @ err)))
      | Inr output \<Rightarrow>
          let lines = split_str [newline] (trim_space output);
              modified = filter (\<lambda>l. l \<noteq> []) lines
          in if 0 < length modified
             then (mk_result StatusWarn
                    (''There are modified files, to check run:'' @ [newline] @ ''    git status''),
                   None)
             else (mk_result StatusOK ''No modified files found'', None))"

definition Registry_isNumeric :: "string \<Rightarrow> bool" where
  "Registry_isNumeric s = (if s = [] then False else list_all is_digit s)"

definition Registry_isValidVersionPart :: "string \<Rightarrow> bool" where
  "Registry_isValidVersionPart part =
     (if Registry_isNumeric part then True
      else let lower = to_lower part
           in if contains lower ''alpha'' \<or> contains lower ''beta'' \<or> contains lower ''rc''
                 \<or> contains lower ''dev''
              then True else False)"

fun Registry_parts_loop :: "string list \<Rightarrow> bool" where
  "Registry_parts_loop [] = True"
| "Registry_parts_loop (part # parts) =
     (if part = [] then False
      else if \<not> Registry_isValidVersionPart part then False
      else Registry_parts_loop parts)"

definition Registry_isValidVersion :: "string \<Rightarrow> bool" where
  "Registry_isValidVersion version =
     (if \<not> hasPrefix version ''v'' then False
      else let version = drop 1 version
           in if \<not> contains version ''.'' then False
              else let parts = split_str ''.'' version
                   in if length parts < 3 then False else Registry_parts_loop parts)"

definition Registry_VersionCheckAction_Run :: "sys \<Rightarrow> run_result" where
  "Registry_VersionCheckAction_Run s =
     (case sys_readfile s ''VERSION'' of
        Inl err \<Rightarrow> (mk_result StatusError ''VERSION file not found'',
                    Some (ExternalError (''VERSION file not found: '' @ err)))
      | Inr data \<Rightarrow>
          let version = trim_space data
          in if version = []
             then (mk_result StatusError ''VERSION file is empty'',
                   Some (ExternalError ''VERSION file is empty''))
             else if \<not> Registry_isValidVersion version
             then (mk_result StatusError (''Invalid version format: '' @ version),
                   Some (ExternalError (''invalid version format: '' @ version)))
             else (mk_result StatusOK (''Version format is valid: '' @ version), None))"

definition Registry_VersionCheckGreatestAction_Run :: "sys \<Rightarrow> run_result" where
  "Registry_VersionCheckGreatestAction_Run s =
     (case sys_readfile s ''VERSION'' of
        Inl err \<Rightarrow> (mk_result StatusError ''VERSION file not found'',
                    Some (ExternalError (''VERSION file not found: '' @ err)))
      | Inr data \<Rightarrow>
          let currentVersion = trim_space data
          in (case sys_command s [''git'', ''tag'', ''--sort=-version:refname''] of
                Inl err \<Rightarrow> (mk_result StatusError ''Failed to get git tags'',
                            Some (ExternalError (''git tag failed: '' @ err)))
              | Inr output \<Rightarrow>
                  let tags = split_str [newline] (trim_space output)
                  in if length tags = 0 \<or> (length tags = 1 \<and> tags ! 0 = [])
                     then (mk_result StatusOK ''No tags found, current version is greatest'', None)
                     else let greatestTag = tags ! 0
                          in if currentVersion = greatestTag
                             then (mk_result StatusOK
                                    (''Current version '' @ currentVersion @ '' is the greatest''), None)
                             else (mk_result StatusError
                                    (''Current version '' @ currentVersion
                                     @ '' is not the greatest. Greatest is '' @ greatestTag),
                                   Some (ExternalError ''current version is not the greatest''))))"

fun Registry_runner_Run :: "builtin \<Rightarrow> sys \<Rightarrow> run_result" where
  "Registry_runner_Run GitUntracked s = Registry_GitUntrackedAction_Run s"
| "Registry_runner_Run GitUncommitted s = Registry_GitUncommittedAction_Run s"
| "Registry_runner_Run GitModified s = Registry_GitModifiedAction_Run s"
| "Registry_runner_Run VersionCheck s = Registry_VersionCheckAction_Run s"
| "Registry_runner_Run VersionCheckGreatest s = Registry_VersionCheckGreatestAction_Run s"

fun Registry_Description :: "builtin \<Rightarrow> string" where
  "Registry_Description GitUntracked = ''Check for untracked files''"
| "Registry_Description GitUncommitted = ''Check for uncommitted changes''"
| "Registry_Description GitModified = ''Check for modified files''"
| "Registry_Description VersionCheck = ''Validate version format''"
| "Registry_Description VersionCheckGreatest = ''Check if current version is the greatest''"

type_synonym Registry_registry = "(string \<times> builtin) list"

definition Registry_Register :: "string \<Rightarrow> builtin \<Rightarrow> Registry_registry \<Rightarrow> Registry_registry" where
  "Registry_Register name runner r = AList.update name runner r"

definition Registry_GetRunner :: "Registry_registry \<Rightarrow> string \<Rightarrow> builtin option" where
  "Registry_GetRunner r name = map_of r name"

definition Registry_ListActions :: "Registry_registry \<Rightarrow> (string \<times> string) list" where
  "Registry_ListActions r = map (\<lambda>(name, runner). (name, Registry_Description runner)) r"

definition Registry_New :: "Registry_registry" where
  "Registry_New =
     Registry_Register ''version@check-greatest'' VersionCheckGreatest
     (Registry_Register ''version@check'' VersionCheck
     (Registry_Register ''git@modified'' GitModified
     (Registry_Register ''git@uncommitted'' GitUncommitted
     (Registry_Register ''git@untracked'' GitUntracked []))))"

section \<open>The registry interface\<close>

text \<open>
  What the runner relies on, \<open>ActionRegistry\<close> in \<open>buildfab.go\<close>: a name registered last is
  the one found, and listing gives the description of every registered runner.
\<close>

locale action_registry =
  fixes register :: "string \<Rightarrow> builtin \<Rightarrow> 'r \<Rightarrow> 'r"
    and get :: "'r \<Rightarrow> string \<Rightarrow> builtin option"
    and listing :: "'r \<Rightarrow> (string \<times> string) list"
    and description :: "builtin \<Rightarrow> string"
    and empty :: 'r
  assumes get_empty: "get empty n = None"
    and get_register: "get (register n b r) m = (if m = n then Some b else get r m)"
    and listing_get: "map_of (listing r) n = map_option description (get r n)"
begin

lemma get_registered: "get (register n b r) n = Some b"
  by (simp add: get_register)

lemma get_fold:
  "get (fold (\<lambda>(n, b). register n b) bs r) m
     = (case map_of (rev bs) m of Some b \<Rightarrow> Some b | None \<Rightarrow> get r m)"
proof (induction bs arbitrary: r)
  case (Cons nb bs)
  then show ?case
    by (cases nb) (auto simp: map_add_def get_register split: option.split)
qed simp

lemma listed_iff: "n \<in> fst ` set (listing r) \<longleftrightarrow> get r n \<noteq> None"
proof -
  have "n \<in> fst ` set (listing r) \<longleftrightarrow> map_of (listing r) n \<noteq> None"
    by (metis map_of_eq_None_iff)
  then show ?thesis by (simp add: listing_get)
qed

end

interpretation default_registry: action_registry Default_Register Default_GetRunner
  Default_ListActions Default_Description "[]"
proof
  fix r :: Default_registry and n
  show "map_of (Default_ListActions r) n = map_option Default_Description (Default_GetRunner r n)"
    by (induction r) (auto simp: Default_ListActions_def Default_GetRunner_def)
qed (simp_all add: Default_Register_def Default_GetRunner_def)

interpretation internal_registry: action_registry Registry_Register Registry_GetRunner
  Registry_ListActions Registry_Description "[]"
proof
  fix r :: Registry_registry and n
  show "map_of (Registry_ListActions r) n = map_option Registry_Description (Registry_GetRunner r n)"
    by (induction r) (auto simp: Registry_ListActions_def Registry_GetRunner_def)
qed (simp_all add: Registry_Register_def Registry_GetRunner_def)

section \<open>The version test\<close>

lemma Registry_isValidVersion_eq: "Registry_isValidVersion v = Default_isValidVersion v"
proof -
  have "Registry_isValidVersionPart p = Default_isValidVersionPart p" for p
    by (simp add: Registry_isValidVersionPart_def Default_isValidVersionPart_def
        Registry_isNumeric_def Default_isNumeric_def)
  then have "Registry_parts_loop ps = Default_parts_loop ps" for ps
    by (induction ps) auto
  then show ?thesis by (simp add: Registry_isValidVersion_def Default_isValidVersion_def)
qed

lemma join_split: "sep \<noteq> [] \<Longrightarrow> join_str sep (split_str sep s) = s"
proof (induction sep s rule: split_str.induct)
  case (2 sep c s)
  show ?case
  proof (cases "hasPrefix (c # s) sep")
    case True
    then obtain t where t: "c # s = sep @ t" by (auto simp: hasPrefix_iff)
    then have d: "drop (length sep - 1) s = t" using 2(3) by (cases sep) auto
    obtain q qs where q: "split_str sep t = q # qs" by (meson list.exhaust split_str_ne)
    have "split_str sep (c # s) = [] # q # qs" using True 2(3) d q by simp
    moreover have "join_str sep (q # qs) = t" using 2(1) [OF _ 2(3)] True 2(3) d q by simp
    ultimately show ?thesis using t by simp
  next
    case False
    obtain q qs where q: "split_str sep s = q # qs" by (meson list.exhaust split_str_ne)
    have "split_str sep (c # s) = (c # q) # qs" using q False by (simp only: split_str.simps) simp
    moreover have "join_str sep (q # qs) = s" using 2(2,3) False q by simp
    ultimately show ?thesis by (cases qs) auto
  qed
qed auto

lemma split_char_parts: "p \<in> set (split_str [d] s) \<Longrightarrow> d \<notin> set p"
proof (induction s arbitrary: p)
  case (Cons c s)
  obtain q qs where q: "split_str [d] s = q # qs" by (meson list.exhaust split_str_ne)
  with Cons show ?case by (cases "c = d") (auto simp: hasPrefix_def)
qed auto

lemma split_char_join:
  "ps \<noteq> [] \<Longrightarrow> \<forall>p \<in> set ps. d \<notin> set p \<Longrightarrow> split_str [d] (join_str [d] ps) = ps"
proof (induction ps rule: induct_list012)
  case (2 p)
  then show ?case by (induction p) (auto simp: hasPrefix_def)
next
  case (3 p q ps)
  have "d \<notin> set p \<Longrightarrow> split_str [d] (p @ d # t) = p # split_str [d] t" for t
    by (induction p) (auto simp: hasPrefix_def)
  with 3 show ?case by simp
qed simp

lemma Default_parts_loop_iff: "Default_parts_loop ps \<longleftrightarrow> (\<forall>p \<in> set ps. p \<noteq> [] \<and> Default_isValidVersionPart p)"
  by (induction ps) auto

lemma join_contains: "2 \<le> length ps \<Longrightarrow> contains (join_str [d] ps) [d]"
proof -
  assume "2 \<le> length ps"
  then obtain a b rest where "ps = a # b # rest" by (metis Suc_le_length_iff numeral_2_eq_2)
  then show ?thesis unfolding contains_iff
    by (intro exI [of _ a] exI [of _ "join_str [d] (b # rest)"]) simp
qed

lemma isValidVersion_iff:
  "Default_isValidVersion v \<longleftrightarrow>
     (\<exists>ps. v = CHR ''v'' # join_str ''.'' ps \<and> 3 \<le> length ps
        \<and> (\<forall>p \<in> set ps. p \<noteq> [] \<and> CHR ''.'' \<notin> set p \<and> Default_isValidVersionPart p))"
proof
  assume a: "Default_isValidVersion v"
  let ?ps = "split_str ''.'' (drop 1 v)"
  have "v = CHR ''v'' # drop 1 v"
    using a by (cases v) (auto simp: Default_isValidVersion_def hasPrefix_def split: if_splits)
  moreover have "3 \<le> length ?ps" "Default_parts_loop ?ps"
    using a by (auto simp: Default_isValidVersion_def Let_def split: if_splits)
  ultimately show "\<exists>ps. v = CHR ''v'' # join_str ''.'' ps \<and> 3 \<le> length ps
        \<and> (\<forall>p \<in> set ps. p \<noteq> [] \<and> CHR ''.'' \<notin> set p \<and> Default_isValidVersionPart p)"
    using split_char_parts [of _ "CHR ''.''"] join_split [of "''.''" "drop 1 v"]
    by (intro exI [of _ ?ps]) (auto simp: Default_parts_loop_iff)
next
  assume "\<exists>ps. v = CHR ''v'' # join_str ''.'' ps \<and> 3 \<le> length ps
        \<and> (\<forall>p \<in> set ps. p \<noteq> [] \<and> CHR ''.'' \<notin> set p \<and> Default_isValidVersionPart p)"
  then obtain ps where ps: "v = CHR ''v'' # join_str ''.'' ps" "3 \<le> length ps"
    "\<forall>p \<in> set ps. p \<noteq> [] \<and> CHR ''.'' \<notin> set p \<and> Default_isValidVersionPart p" by blast
  have "split_str ''.'' (join_str ''.'' ps) = ps" using ps(2,3) by (intro split_char_join) auto
  moreover have "contains (join_str ''.'' ps) ''.''" using ps(2) by (intro join_contains) simp
  ultimately show "Default_isValidVersion v"
    using ps by (auto simp: Default_isValidVersion_def hasPrefix_def Default_parts_loop_iff)
qed

section \<open>Properties\<close>

text \<open>C40: The version test accepts exactly the texts \<open>v\<close> followed by at least three parts
  separated by dots, each a number or an identifier that mentions alpha, beta, rc or dev.\<close>

theorem version_format_accepted:
  "Registry_isValidVersion v \<longleftrightarrow>
     (\<exists>ps. v = CHR ''v'' # join_str ''.'' ps \<and> 3 \<le> length ps
        \<and> (\<forall>p \<in> set ps. p \<noteq> [] \<and> CHR ''.'' \<notin> set p \<and> Default_isValidVersionPart p))"
  by (simp add: Registry_isValidVersion_eq isValidVersion_iff)

theorem version_format_accepted_witness:
  "Registry_isValidVersion ''v1.20.3-rc'' \<and> \<not> Registry_isValidVersion ''1.20.3''"
proof -
  have "''v1.20.3-rc'' = CHR ''v'' # join_str ''.'' [''1'', ''20'', ''3-rc'']"
    "Default_isValidVersionPart ''1''" "Default_isValidVersionPart ''20''"
    "Default_isValidVersionPart ''3-rc''" by code_simp+
  then have "\<exists>ps. ''v1.20.3-rc'' = CHR ''v'' # join_str ''.'' ps \<and> 3 \<le> length ps
      \<and> (\<forall>p \<in> set ps. p \<noteq> [] \<and> CHR ''.'' \<notin> set p \<and> Default_isValidVersionPart p)"
    by (intro exI [of _ "[''1'', ''20'', ''3-rc'']"]) simp
  then show ?thesis
    using version_format_accepted [of "''v1.20.3-rc''"] version_format_accepted [of "''1.20.3''"] by simp
qed


definition status_sys :: "string \<Rightarrow> sys" where
  "status_sys output = \<lparr>sys_command = (\<lambda>_. Inr output), sys_readfile = (\<lambda>_. Inl [])\<rparr>"

text \<open>An unstaged modification on the first line of \<open>git status --porcelain\<close> is reported
  as a staged one: \<open>TrimSpace\<close> takes away the leading blank that tells them apart. The same
  line in second place is not reported.\<close>

theorem unstaged_first_line_reported:
  "res_Status (fst (Default_GitUncommittedAction_Run
      (status_sys ('' M main.go'' @ [newline] @ ''?? notes'' @ [newline])))) = StatusError
   \<and> res_Status (fst (Default_GitUncommittedAction_Run
      (status_sys (''?? notes'' @ [newline] @ '' M main.go'' @ [newline])))) = StatusOK"
  by code_simp

end
