(* ===== verification/Display.thy ===== *)
theory Display
  imports Build_Types Go_Float
begin

text \<open>
  What the output managers write: the icons and colours as bytes, the execution time and the
  error messages as \<open>ordered_output.go\<close> and \<open>simple.go\<close> rework them before printing.
  The two files hold copies of the same code, modelled as two groups of definitions; they
  agree except on the dependency they name for a skipped step.
\<close>

section \<open>Colours and icons\<close>

definition escape :: "string \<Rightarrow> string" where
  "escape code = CHR 0x1B # ''['' @ code @ ''m''"

definition colorReset :: string where "colorReset = escape ''0''"
definition colorGreen :: string where "colorGreen = escape ''32''"
definition colorYellow :: string where "colorYellow = escape ''33''"
definition colorRed :: string where "colorRed = escape ''31''"
definition colorCyan :: string where "colorCyan = escape ''36''"
definition colorGray :: string where "colorGray = escape ''90''"

definition icon_check :: string where "icon_check = [CHR 0xE2, CHR 0x9C, CHR 0x93]"
definition icon_cross :: string where "icon_cross = [CHR 0xE2, CHR 0x9C, CHR 0x97]"
definition icon_arrow :: string where "icon_arrow = [CHR 0xE2, CHR 0x86, CHR 0x92]"
definition icon_circle :: string where "icon_circle = [CHR 0xE2, CHR 0x97, CHR 0x8B]"
definition icon_laptop :: string where "icon_laptop = [CHR 0xF0, CHR 0x9F, CHR 0x92, CHR 0xBB]"

text \<open>The \<open>switch status\<close> of \<open>showStepResult\<close> and of \<open>SimpleStepCallback.OnStepComplete\<close>.\<close>

fun status_icon :: "step_status \<Rightarrow> string" where
  "status_icon StepStatusOK = icon_check"
| "status_icon StepStatusWarn = ''!''"
| "status_icon StepStatusError = icon_cross"
| "status_icon StepStatusSkipped = icon_arrow"
| "status_icon _ = ''?''"

fun status_color :: "step_status \<Rightarrow> string" where
  "status_color StepStatusOK = colorGreen"
| "status_color StepStatusWarn = colorYellow"
| "status_color StepStatusError = colorRed"
| "status_color _ = colorGray"

definition result_line :: "bool \<Rightarrow> string \<Rightarrow> step_status \<Rightarrow> string \<Rightarrow> string" where
  "result_line verbose n status msg =
     (if verbose then '''' else [CHR 0x0D]) @ ''  '' @ status_color status @ status_icon status
     @ colorReset @ '' '' @ n @ '' '' @ msg @ [newline]"

definition start_line :: "bool \<Rightarrow> string \<Rightarrow> string" where
  "start_line verbose n =
     (if verbose then ''  '' @ icon_laptop @ '' '' @ n @ [newline]
      else ''  '' @ colorCyan @ icon_circle @ colorReset @ '' '' @ n @ '' running...'' @ [CHR 0x0D])"

definition output_line :: "string \<Rightarrow> string" where
  "output_line line = ''    '' @ line @ [newline]"

section \<open>Execution time\<close>

definition formatExecutionTime :: "step_status \<Rightarrow> nat \<Rightarrow> string" where
  "formatExecutionTime status duration =
     (if status \<noteq> StepStatusOK then ''''
      else let totalSeconds = f64_trunc (duration_seconds duration);
               minutes = totalSeconds div 60; seconds = totalSeconds mod 60
           in if 0 < minutes
              then '' - in '' @ [CHR 0x27] @ show_int minutes @ ''m '' @ show_int seconds @ ''s''
                   @ [CHR 0x27]
              else if 0 < seconds
              then '' - in '' @ [CHR 0x27] @ show_int seconds @ ''s'' @ [CHR 0x27]
              else '' - in '' @ [CHR 0x27] @ format_3f (duration_seconds duration) @ ''s''
                   @ [CHR 0x27])"

section \<open>Commands in error messages\<close>

text \<open>
  \<open>extractCommand\<close> prints the action's script without the indentation its non-blank lines
  share (999 stands for no such line), each line behind six spaces.
\<close>

definition leading_spaces :: "string \<Rightarrow> nat" where
  "leading_spaces line = length (takeWhile (\<lambda>c. c = CHR '' '') line)"

definition min_leading :: "string list \<Rightarrow> nat" where
  "min_leading lines =
     foldl (\<lambda>m line. if trim_space line = [] then m
                      else if leading_spaces line < m then leading_spaces line else m) 999 lines"

definition align_line :: "nat \<Rightarrow> string \<Rightarrow> string" where
  "align_line k line = ''      '' @ (if k \<le> length line then drop k line else line)"

definition Ordered_extractCommand :: "config option \<Rightarrow> string \<Rightarrow> string \<Rightarrow> string" where
  "Ordered_extractCommand cfg stepName message =
     (case cfg of
        None \<Rightarrow> ''      '' @ stepName
      | Some c \<Rightarrow>
          (case GetAction c stepName of
             Some a \<Rightarrow>
               if act_Run a \<noteq> []
               then let lines = split_str [newline] (act_Run a);
                        m = min_leading lines; k = (if m = 999 then 0 else m)
                    in join_str [newline] (map (align_line k) lines)
               else ''      '' @ stepName
           | None \<Rightarrow> ''      '' @ stepName))"

text \<open>
  \<open>enhanceMessage\<close>; \<open>failedDep\<close> is the result of \<open>extractFailedDependency\<close>.
\<close>

definition Ordered_enhanceMessage ::
  "config option \<Rightarrow> string \<Rightarrow> string \<Rightarrow> step_status \<Rightarrow> string \<Rightarrow> string" where
  "Ordered_enhanceMessage cfg failedDep stepName status message =
     (let tcr = ''to check run:'';
          command = (\<lambda>m. tcr @ [newline] @ Ordered_extractCommand cfg stepName m)
      in case status of
           StepStatusError \<Rightarrow>
             let repro = dropWhile (\<lambda>l. \<not> contains l tcr) (split_str [newline] message);
                 parts = split_str '' failed: '' message
             in if contains message tcr \<and> repro \<noteq> []
                then command (join_str [newline] repro)
                else if contains message ''step '' \<and> contains message '' failed: '' \<and> 1 < length parts
                then (if contains (parts ! 1) tcr then parts ! 1 else command message)
                else if contains message ''command failed: exit status'' then command message
                else message
         | StepStatusSkipped \<Rightarrow>
             if contains message ''dependency failed'' \<and> failedDep \<noteq> []
             then ''skipped (dependency failed: '' @ failedDep @ '')''
             else message
         | _ \<Rightarrow> message)"

section \<open>The same in \<open>simple.go\<close>\<close>

definition Simple_extractCommand :: "config option \<Rightarrow> string \<Rightarrow> string \<Rightarrow> string" where
  "Simple_extractCommand cfg stepName message =
     (case cfg of
        None \<Rightarrow> ''      '' @ stepName
      | Some c \<Rightarrow>
          (case GetAction c stepName of
             Some a \<Rightarrow>
               if act_Run a \<noteq> []
               then let lines = split_str [newline] (act_Run a);
                        m = min_leading lines; k = (if m = 999 then 0 else m)
                    in join_str [newline] (map (align_line k) lines)
               else ''      '' @ stepName
           | None \<Rightarrow> ''      '' @ stepName))"

definition Simple_enhanceMessage ::
  "config option \<Rightarrow> string \<Rightarrow> string \<Rightarrow> step_status \<Rightarrow> string \<Rightarrow> string" where
  "Simple_enhanceMessage cfg failedDep stepName status message =
     (let tcr = ''to check run:'';
          command = (\<lambda>m. tcr @ [newline] @ Simple_extractCommand cfg stepName m)
      in case status of
           StepStatusOK \<Rightarrow> (if contains message ''would execute'' then message else message)
         | StepStatusError \<Rightarrow>
             let repro = dropWhile (\<lambda>l. \<not> contains l tcr) (split_str [newline] message);
                 parts = split_str '' failed: '' message
             in if contains message tcr \<and> repro \<noteq> []
                then command (join_str [newline] repro)
                else if contains message ''step '' \<and> contains message '' failed: '' \<and> 1 < length parts
                then (if contains (parts ! 1) tcr then parts ! 1 else command message)
                else if contains message ''command failed: exit status'' then command message
                else message
         | StepStatusSkipped \<Rightarrow>
             if contains message ''dependency failed'' \<and> failedDep \<noteq> []
             then ''skipped (dependency failed: '' @ failedDep @ '')''
             else message
         | _ \<Rightarrow> message)"

lemma extractCommand_agree: "Simple_extractCommand = Ordered_extractCommand"
  by (simp add: fun_eq_iff Simple_extractCommand_def Ordered_extractCommand_def)

lemma enhanceMessage_agree: "Simple_enhanceMessage = Ordered_enhanceMessage"
  by (simp add: fun_eq_iff Simple_enhanceMessage_def Ordered_enhanceMessage_def
      extractCommand_agree split: step_status.split)

text \<open>Lines of a script keep the indentation they have beyond the common one.\<close>

lemma min_leading_fold:
  "foldl (\<lambda>m line. if trim_space line = [] then m
        else if leading_spaces line < m then leading_spaces line else m) m0 lines \<le> m0
   \<and> (\<forall>l \<in> set lines. trim_space l \<noteq> [] \<longrightarrow>
        foldl (\<lambda>m line. if trim_space line = [] then m
          else if leading_spaces line < m then leading_spaces line else m) m0 lines
        \<le> leading_spaces l)"
proof (induction lines arbitrary: m0)
  case Nil
  then show ?case by simp
next
  case (Cons l ls)
  let ?m = "if trim_space l = [] then m0 else if leading_spaces l < m0 then leading_spaces l else m0"
  from Cons.IH [of ?m] show ?case by (auto split: if_splits)
qed

lemma min_leading_le: "l \<in> set lines \<Longrightarrow> trim_space l \<noteq> [] \<Longrightarrow> min_leading lines \<le> leading_spaces l"
  using min_leading_fold [of 999 lines] by (simp add: min_leading_def)

lemma leading_spaces_split: "l = replicate (leading_spaces l) (CHR '' '') @ drop (leading_spaces l) l"
proof -
  have "takeWhile (\<lambda>c. c = CHR '' '') l = replicate (leading_spaces l) (CHR '' '')"
    unfolding leading_spaces_def
    by (rule replicate_eqI [symmetric, THEN sym]) (auto dest: set_takeWhileD)
  then show ?thesis
    unfolding leading_spaces_def by (metis dropWhile_eq_drop takeWhile_dropWhile_id)
qed

end
