(* ===== verification/Step_Runner.thy ===== *)
theory Step_Runner
  imports Variables Actions Display
begin

text \<open>
  Running one action, from \<open>pkg/buildfab/buildfab.go\<close>: variants and conditions, the shell, a
  command or a built-in action, and what the step callback is told. A command is a process
  outside the program: \<open>w_proc\<close> says what it does, \<open>w_clock\<close> how long an action takes.
  What a command writes is a list of lines for the scanners; \<open>po_late\<close> are the lines a scanner
  delivers after \<open>cmd.Wait\<close> has returned, because nothing waits for the scanner goroutines.
\<close>

section \<open>Options, runner and world\<close>

record run_options =
  ro_ConfigPath :: string
  ro_MaxParallel :: int
  ro_Verbose :: bool
  ro_Debug :: bool
  ro_DryRun :: bool
  ro_Variables :: "(string \<Rightarrow> string option) option"
  ro_WorkingDir :: string
  ro_Only :: "string list"
  ro_WithRequires :: bool
  ro_StepCallback :: bool

text \<open>A registry as the runner sees it: the description of a runner and what running it returns.\<close>

type_synonym registry_view = "string \<Rightarrow> (string \<times> run_result) option"

record runner =
  rn_config :: config
  rn_opts :: run_options
  rn_registry :: "registry_view option"
  rn_env :: go_env
  rn_goos :: string
  rn_lookpath :: "string \<Rightarrow> bool"

record command =
  cmd_shell :: string
  cmd_args :: "string list"
  cmd_dir :: string
  cmd_vars :: "string \<Rightarrow> string option"

record proc_outcome =
  po_start :: "string option"
  po_lines :: "string list"
  po_late :: "string list"
  po_stdout :: string
  po_stderr :: string
  po_err :: "go_error option"

record world =
  w_proc :: "string \<Rightarrow> command \<Rightarrow> proc_outcome"
  w_clock :: "string \<Rightarrow> nat"

definition vars_of :: "run_options \<Rightarrow> string \<Rightarrow> string option" where
  "vars_of o1 = (case ro_Variables o1 of None \<Rightarrow> Map.empty | Some m \<Rightarrow> m)"

definition DefaultRunOptions :: "go_env \<Rightarrow> int \<Rightarrow> run_options" where
  "DefaultRunOptions env ncpu =
     \<lparr>ro_ConfigPath = ''.project.yml'', ro_MaxParallel = ncpu, ro_Verbose = True,
      ro_Debug = False, ro_DryRun = False,
      ro_Variables = Some (AddPlatformVariables env (Some Map.empty)),
      ro_WorkingDir = ''.'', ro_Only = [], ro_WithRequires = False, ro_StepCallback = False\<rparr>"

definition default_view :: "sys \<Rightarrow> registry_view" where
  "default_view s name =
     map_option (\<lambda>b. (Default_Description b, Default_runner_Run b s))
       (Default_GetRunner Default_New name)"

definition NewRunnerWithRegistry ::
  "go_env \<Rightarrow> string \<Rightarrow> (string \<Rightarrow> bool) \<Rightarrow> int \<Rightarrow> config \<Rightarrow> run_options option \<Rightarrow> registry_view option
     \<Rightarrow> runner" where
  "NewRunnerWithRegistry env goos lookpath ncpu config opts registry =
     \<lparr>rn_config = config,
      rn_opts = (case opts of None \<Rightarrow> DefaultRunOptions env ncpu | Some o1 \<Rightarrow> o1),
      rn_registry = registry, rn_env = env, rn_goos = goos, rn_lookpath = lookpath\<rparr>"

definition NewRunner ::
  "go_env \<Rightarrow> string \<Rightarrow> (string \<Rightarrow> bool) \<Rightarrow> int \<Rightarrow> config \<Rightarrow> run_options option \<Rightarrow> sys \<Rightarrow> runner" where
  "NewRunner env goos lookpath ncpu config opts s =
     NewRunnerWithRegistry env goos lookpath ncpu config opts (Some (default_view s))"

section \<open>Conditions and variants\<close>

definition evaluateCondition ::
  "go_env \<Rightarrow> string \<Rightarrow> (string \<Rightarrow> string option) \<Rightarrow> (go_error, bool) res" where
  "evaluateCondition env condition variables =
     EvaluateExpression env condition (NewExpressionContext env variables)"

text \<open>\<open>SelectVariant\<close> returns nil both for no variants and for no match.\<close>

fun select_variants ::
  "go_env \<Rightarrow> string \<Rightarrow> (string \<Rightarrow> string option) \<Rightarrow> action_variant list
     \<Rightarrow> (go_error, action_variant option) res" where
  "select_variants env name variables [] = Ok None"
| "select_variants env name variables (v # vs) =
     (case evaluateCondition env (var_When v) variables of
        Err e \<Rightarrow> Err (ConditionFailed (var_When v) name e)
      | Panic \<Rightarrow> Panic
      | Ok matches \<Rightarrow> if matches then Ok (Some v) else select_variants env name variables vs)"

definition SelectVariant ::
  "go_env \<Rightarrow> action \<Rightarrow> (string \<Rightarrow> string option) \<Rightarrow> (go_error, action_variant option) res" where
  "SelectVariant env a variables =
     (if length (act_Variants a) = 0 then Ok None
      else select_variants env (act_Name a) variables (act_Variants a))"

definition effective_action :: "action \<Rightarrow> action_variant option \<Rightarrow> action" where
  "effective_action a v =
     (case v of
        None \<Rightarrow> a
      | Some v \<Rightarrow> \<lparr>act_Name = act_Name a, act_Run = var_Run v, act_Uses = var_Uses v,
                    act_Shell = var_Shell v, act_Variants = []\<rparr>)"

definition shouldExecuteStepByCondition :: "runner \<Rightarrow> step \<Rightarrow> (go_error, bool) res" where
  "shouldExecuteStepByCondition r st =
     (if step_If st = [] then Ok True
      else (case evaluateCondition (rn_env r) (step_If st) (vars_of (rn_opts r)) of
              Ok b \<Rightarrow> Ok b
            | Err e \<Rightarrow> Err (IfConditionFailed (step_Action st) e)
            | Panic \<Rightarrow> Panic))"

text \<open>An error in the condition is printed in verbose mode and skips the step.\<close>

definition shouldExecuteStep :: "runner \<Rightarrow> step \<Rightarrow> (go_error, bool \<times> string list) res" where
  "shouldExecuteStep r st =
     (case shouldExecuteStepByCondition r st of
        Ok b \<Rightarrow> Ok (b, [])
      | Err e \<Rightarrow>
          Ok (False,
              if ro_Verbose (rn_opts r)
              then [''Warning: failed to evaluate if condition for step '' @ step_Action st @ '': ''
                    @ error_text e @ [newline]]
              else [])
      | Panic \<Rightarrow> Panic)"

section \<open>The shell\<close>

definition shell_args :: "string \<Rightarrow> string list" where
  "shell_args shell =
     (if contains shell ''bash'' then [''-euc'']
      else if contains shell ''powershell'' \<or> contains shell ''pwsh''
        then [''-NoProfile'', ''-Command'']
      else if contains shell ''cmd'' then [''/C'']
      else if contains shell ''sh'' \<or> contains shell ''zsh'' \<or> contains shell ''fish''
        then [''-euc'']
      else [''-euc''])"

definition getShellCommand :: "runner \<Rightarrow> string \<Rightarrow> go_error + (string \<times> string list)" where
  "getShellCommand r userShell =
     (if userShell \<noteq> [] then
        (let userShell = (if rn_goos r = ''windows'' \<and> \<not> hasSuffix userShell ''.exe''
                          then userShell @ ''.exe'' else userShell)
         in if \<not> rn_lookpath r userShell then Inl (ShellNotFound userShell)
            else Inr (userShell, shell_args userShell))
      else if rn_goos r = ''windows'' then
        (if rn_lookpath r ''bash.exe'' then Inr (''bash.exe'', [''-euc''])
         else Inr (''cmd.exe'', [''/C'']))
      else Inr (''sh'', [''-euc'']))"

section \<open>Commands\<close>

definition out_events :: "runner \<Rightarrow> string \<Rightarrow> string list \<Rightarrow> cb_event list" where
  "out_events r name ls = (if ro_StepCallback (rn_opts r) then map (OnStepOutput name) ls else [])"

text \<open>
  \<open>executeCommandWithStreaming\<close>: the events of the scanners up to the return, those after it,
  and the error.
\<close>

definition executeCommandWithStreaming ::
  "runner \<Rightarrow> world \<Rightarrow> command \<Rightarrow> string \<Rightarrow> cb_event list \<times> cb_event list \<times> go_error option" where
  "executeCommandWithStreaming r w cmd actionName =
     (let p = w_proc w actionName cmd
      in case po_start p of
           Some t \<Rightarrow> ([], [], Some (ExternalError t))
         | None \<Rightarrow> (out_events r actionName (po_lines p), out_events r actionName (po_late p), po_err p))"

text \<open>
  The buffered run outside verbose mode: \<open>cmd.Run\<close>, then the output to the callback, a guard
  the surrounding branch makes false.
\<close>

definition buffered_run ::
  "runner \<Rightarrow> world \<Rightarrow> command \<Rightarrow> string \<Rightarrow> cb_event list \<times> go_error option" where
  "buffered_run r w cmd actionName =
     (let p = w_proc w actionName cmd;
          err = (case po_start p of Some t \<Rightarrow> Some (ExternalError t) | None \<Rightarrow> po_err p)
      in (if ro_StepCallback (rn_opts r) \<and> ro_Verbose (rn_opts r)
          then (if po_stdout p \<noteq> [] then [OnStepOutput actionName (po_stdout p)] else [])
               @ (if po_stderr p \<noteq> [] then [OnStepOutput actionName (po_stderr p)] else [])
          else [], err))"

definition mk_command :: "runner \<Rightarrow> string \<Rightarrow> string list \<Rightarrow> string \<Rightarrow> command" where
  "mk_command r shell args run =
     \<lparr>cmd_shell = shell, cmd_args = args @ [run], cmd_dir = ro_WorkingDir (rn_opts r),
      cmd_vars = vars_of (rn_opts r)\<rparr>"

text \<open>What running an action does: events, late events, the result and the error.\<close>

record action_run =
  ar_events :: "cb_event list"
  ar_late :: "cb_event list"
  ar_result :: result
  ar_err :: "go_error option"

definition failed_run :: "string \<Rightarrow> go_error \<Rightarrow> action_run" where
  "failed_run msg e =
     \<lparr>ar_events = [], ar_late = [], ar_result = mk_result StatusError msg, ar_err = Some e\<rparr>"

definition runCustomActionForDAG :: "runner \<Rightarrow> world \<Rightarrow> action \<Rightarrow> action_run" where
  "runCustomActionForDAG r w a =
     (if act_Run a = [] then failed_run ''no run command specified'' (NoRunCommand (act_Name a))
      else let ia = InterpolateAction a (ro_Variables (rn_opts r))
           in case getShellCommand r (act_Shell a) of
                Inl e \<Rightarrow>
                  \<lparr>ar_events = [], ar_late = [],
                   ar_result = (mk_result StatusError (''shell configuration error: '' @ error_text e))
                                 \<lparr>res_Name := act_Name a\<rparr>,
                   ar_err = Some (ShellConfig e)\<rparr>
              | Inr (shell, args) \<Rightarrow>
                  let cmd = mk_command r shell args (act_Run ia);
                      (evs, late, err) =
                        (if ro_Verbose (rn_opts r) then executeCommandWithStreaming r w cmd (act_Name a)
                         else case buffered_run r w cmd (act_Name a) of (evs, err) \<Rightarrow> (evs, [], err))
                  in case err of
                       Some e \<Rightarrow>
                         \<lparr>ar_events = evs, ar_late = late,
                          ar_result = mk_result StatusError (error_text (CheckRun (act_Run a))),
                          ar_err = Some (CommandFailed e)\<rparr>
                     | None \<Rightarrow>
                         \<lparr>ar_events = evs, ar_late = late,
                          ar_result = mk_result StatusOK ''command executed successfully'',
                          ar_err = None\<rparr>)"

definition runBuiltInActionForDAG :: "runner \<Rightarrow> action \<Rightarrow> action_run" where
  "runBuiltInActionForDAG r a =
     (case rn_registry r of
        None \<Rightarrow> failed_run (error_text (NoRegistry (act_Uses a))) (NoRegistry (act_Uses a))
      | Some reg \<Rightarrow>
          (case reg (act_Uses a) of
             None \<Rightarrow> failed_run (error_text (UnknownBuiltIn (act_Uses a))) (UnknownBuiltIn (act_Uses a))
           | Some (_, res, err) \<Rightarrow>
               \<lparr>ar_events = (if ro_StepCallback (rn_opts r) \<and> ro_Verbose (rn_opts r)
                               \<and> res_Message res \<noteq> []
                            then [OnStepOutput (act_Name a) (res_Message res)] else []),
                ar_late = [], ar_result = res,
                ar_err = (if res_Status res = StatusError
                          then Some (BuiltInFailed (res_Message res)) else err)\<rparr>))"

section \<open>One node of the graph\<close>

text \<open>
  The status and message \<open>executeActionForDAGWithCallback\<close> reports, with the events: the
  result's status comes before the error.
\<close>

definition completion :: "string \<Rightarrow> result \<Rightarrow> go_error option \<Rightarrow> nat \<Rightarrow> cb_event list" where
  "completion name res err duration =
     (let error_event = (case err of Some e \<Rightarrow> [OnStepError name e] | None \<Rightarrow> [])
      in if res_Status res = StatusError
         then error_event @ [OnStepComplete name StepStatusError (res_Message res) duration]
         else if res_Status res = StatusWarn
         then [OnStepComplete name StepStatusWarn (res_Message res) duration]
         else if res_Status res = StatusSkipped
         then [OnStepComplete name StepStatusSkipped (res_Message res) duration]
         else (case err of
                 Some e \<Rightarrow> [OnStepError name e, OnStepComplete name StepStatusError (error_text e) duration]
               | None \<Rightarrow> [OnStepComplete name StepStatusOK ''executed successfully'' duration]))"

definition with_callback :: "runner \<Rightarrow> cb_event list \<Rightarrow> cb_event list" where
  "with_callback r evs = (if ro_StepCallback (rn_opts r) then evs else [])"

definition warns :: "step option \<Rightarrow> bool" where
  "warns stepConfig = (case stepConfig of None \<Rightarrow> False | Some st \<Rightarrow> step_OnError st = ''warn'')"

text \<open>A panic in a condition takes the program down: \<open>None\<close>.\<close>

definition executeActionForDAGWithCallback ::
  "runner \<Rightarrow> world \<Rightarrow> action \<Rightarrow> step option \<Rightarrow> action_run option" where
  "executeActionForDAGWithCallback r w a stepConfig =
     (let name = act_Name a; start = with_callback r [OnStepStart name]; duration = w_clock w name
      in case SelectVariant (rn_env r) a (vars_of (rn_opts r)) of
           Panic \<Rightarrow> None
         | Err e \<Rightarrow>
             Some \<lparr>ar_events = start @ with_callback r
                      [OnStepComplete name StepStatusError (error_text e) duration],
                   ar_late = [],
                   ar_result = (mk_result StatusError (error_text e))
                                 \<lparr>res_Error := Some e, res_Duration := duration\<rparr>,
                   ar_err = Some e\<rparr>
         | Ok variant \<Rightarrow>
             if variant = None \<and> 0 < length (act_Variants a)
             then Some \<lparr>ar_events = start @ with_callback r
                           [OnStepComplete name StepStatusSkipped ''no matching variant'' duration],
                        ar_late = [],
                        ar_result = (mk_result StatusSkipped ''no matching variant'')
                                      \<lparr>res_Duration := duration\<rparr>,
                        ar_err = None\<rparr>
             else let ea = effective_action a variant;
                      run = (if act_Uses ea \<noteq> [] then runBuiltInActionForDAG r ea
                             else runCustomActionForDAG r w ea);
                      res0 = (ar_result run)\<lparr>res_Duration := duration\<rparr>;
                      warn = (res_Status res0 = StatusError \<and> warns stepConfig);
                      res = (if warn then res0\<lparr>res_Status := StatusWarn\<rparr> else res0);
                      err = (if warn then None else ar_err run)
                  in Some \<lparr>ar_events = start @ ar_events run
                              @ with_callback r (completion name res err duration),
                           ar_late = ar_late run, ar_result = res, ar_err = err\<rparr>)"

end
