(* ===== verification/Dag_Exec.thy ===== *)
theory Dag_Exec
  imports Dag Step_Runner
begin

text \<open>
  \<open>executeDAGWithCallback\<close> of \<open>pkg/buildfab/buildfab.go\<close>: the scheduler, the collector and one
  goroutine per running node, as a step relation on their shared state. \<open>exec_inv\<close> is the
  invariant of the reachable states; from it: every node has at most one result, after those
  of its dependencies; a node is skipped exactly when a dependency failed or its condition is
  false; the program makes progress until every node has a result, and stops.
\<close>

section \<open>The queries on the graph\<close>

definition allDependenciesCompleted :: "dag_node \<Rightarrow> string set \<Rightarrow> bool" where
  "allDependenciesCompleted nd completed = (\<forall>d \<in> set (node_Dependencies nd). d \<in> completed)"

definition hasFailedDependency :: "dag_node \<Rightarrow> string set \<Rightarrow> bool" where
  "hasFailedDependency nd failed = (\<exists>d \<in> set (node_Dependencies nd). d \<in> failed)"

definition getFailedDependencyNames :: "dag_node \<Rightarrow> string set \<Rightarrow> string list" where
  "getFailedDependencyNames nd failed = filter (\<lambda>d. d \<in> failed) (node_Dependencies nd)"

definition getReadyStepsLocked :: "dag \<Rightarrow> string set \<Rightarrow> string set \<Rightarrow> string list" where
  "getReadyStepsLocked dag completed executing =
     map fst (filter (\<lambda>(n, nd). n \<notin> completed \<and> n \<notin> executing \<and> allDependenciesCompleted nd completed) dag)"

text \<open>The scan of \<open>executeDAGWithCallback\<close> also tests \<open>failed\<close>.\<close>

definition ready_steps :: "dag \<Rightarrow> string set \<Rightarrow> string set \<Rightarrow> string set \<Rightarrow> string list" where
  "ready_steps dag completed executing failed =
     map fst (filter (\<lambda>(n, nd). n \<notin> completed \<and> n \<notin> executing \<and> n \<notin> failed
                \<and> (\<forall>d \<in> set (node_Dependencies nd). d \<in> completed)) dag)"

section \<open>State\<close>

text \<open>
  \<open>exec_env\<close> is what a run is given: the graph, what the condition of a node evaluates to and
  what running it does (\<open>None\<close>: a panic), and whether there is a callback. \<open>xs_chan\<close> is the
  buffer of \<open>resultChan\<close>, \<open>xs_workers\<close> the goroutines that run a node, with the events they
  have still to send, \<open>xs_late\<close> the scanners that outlive their command. \<open>xs_events\<close> is the
  sequence of calls the callback has received.
\<close>

record exec_env =
  xe_dag :: dag
  xe_should :: "string \<Rightarrow> bool option"
  xe_run :: "string \<Rightarrow> action_run option"
  xe_callback :: bool

datatype sched_pc = Scanning | Starting "string list" | Draining | Stopped | Panicked

record exec_state =
  xs_results :: "result list"
  xs_completed :: "string set"
  xs_failed :: "string set"
  xs_executing :: "string set"
  xs_chan :: "result list"
  xs_closed :: bool
  xs_workers :: "(string \<times> cb_event list) list"
  xs_late :: "(string \<times> cb_event list) list"
  xs_pc :: sched_pc
  xs_cancelled :: bool
  xs_events :: "cb_event list"

definition exec_init :: exec_state where
  "exec_init =
     \<lparr>xs_results = [], xs_completed = {}, xs_failed = {}, xs_executing = {}, xs_chan = [],
      xs_closed = False, xs_workers = [], xs_late = [], xs_pc = Scanning, xs_cancelled = False,
      xs_events = []\<rparr>"

text \<open>\<open><-done\<close> returns: the channel is closed and the collector has taken everything.\<close>

definition exec_finished :: "exec_state \<Rightarrow> bool" where
  "exec_finished s = (xs_closed s \<and> xs_chan s = [])"

section \<open>Results\<close>

definition skip_dep_result :: "string \<Rightarrow> string list \<Rightarrow> result" where
  "skip_dep_result n failedDeps =
     (mk_result StatusSkipped (''skipped (dependency failed: '' @ join_str '', '' failedDeps @ '')''))
       \<lparr>res_Name := n\<rparr>"

definition skip_cond_result :: "string \<Rightarrow> result" where
  "skip_cond_result n = (mk_result StatusSkipped ''skipped (condition not met)'')\<lparr>res_Name := n\<rparr>"

definition worker_result :: "bool \<Rightarrow> string \<Rightarrow> action_run \<Rightarrow> result" where
  "worker_result cancelled n run =
     (let res = (ar_result run)\<lparr>res_Name := n\<rparr>
      in if cancelled
         then res\<lparr>res_Status := StatusError, res_Message := ''cancelled'',
                  res_Error := Some ContextCanceled\<rparr>
         else res)"

text \<open>The collector's critical section for one result.\<close>

definition collect_result :: "result \<Rightarrow> exec_state \<Rightarrow> exec_state" where
  "collect_result r s =
     s\<lparr>xs_results := xs_results s @ [r], xs_completed := insert (res_Name r) (xs_completed s),
        xs_executing := xs_executing s - {res_Name r},
        xs_failed := (if res_Status r = StatusError then insert (res_Name r) (xs_failed s)
                      else xs_failed s)\<rparr>"

text \<open>The scheduler sends the result of a node it does not run.\<close>

definition send_skipped :: "string \<Rightarrow> result \<Rightarrow> cb_event list \<Rightarrow> string list \<Rightarrow> exec_state \<Rightarrow> exec_state" where
  "send_skipped n r evs ns s =
     s\<lparr>xs_executing := insert n (xs_executing s), xs_chan := xs_chan s @ [r],
        xs_events := xs_events s @ evs, xs_pc := Starting ns\<rparr>"

definition spawn :: "string \<Rightarrow> action_run \<Rightarrow> string list \<Rightarrow> exec_state \<Rightarrow> exec_state" where
  "spawn n run ns s =
     s\<lparr>xs_executing := insert n (xs_executing s),
        xs_workers := xs_workers s @ [(n, ar_events run)], xs_pc := Starting ns\<rparr>"

section \<open>Steps\<close>

text \<open>
  One step of one goroutine. A range over the map of nodes may take any order, so a scan may
  list the ready nodes in any order. A scan that finds nothing to do and not everything done
  sleeps and tries again; that changes nothing and is not a step here.
\<close>

inductive exec_step :: "exec_env \<Rightarrow> exec_state \<Rightarrow> exec_state \<Rightarrow> bool" for E where
  cancel:
    "\<not> xs_cancelled s \<Longrightarrow> exec_step E s (s\<lparr>xs_cancelled := True\<rparr>)"
| scan_cancelled:
    "xs_pc s = Scanning \<Longrightarrow> xs_cancelled s \<Longrightarrow> exec_step E s (s\<lparr>xs_pc := Draining\<rparr>)"
| scan_ready:
    "xs_pc s = Scanning \<Longrightarrow> \<not> xs_cancelled s \<Longrightarrow> ns \<noteq> [] \<Longrightarrow> distinct ns \<Longrightarrow>
     set ns = set (ready_steps (xe_dag E) (xs_completed s) (xs_executing s) (xs_failed s)) \<Longrightarrow>
     exec_step E s (s\<lparr>xs_pc := Starting ns\<rparr>)"
| scan_done:
    "xs_pc s = Scanning \<Longrightarrow> \<not> xs_cancelled s \<Longrightarrow>
     ready_steps (xe_dag E) (xs_completed s) (xs_executing s) (xs_failed s) = [] \<Longrightarrow>
     \<forall>n \<in> dag_names (xe_dag E). n \<in> xs_completed s \<or> n \<in> xs_failed s \<Longrightarrow>
     exec_step E s (s\<lparr>xs_pc := Draining\<rparr>)"
| start_cancelled:
    "xs_pc s = Starting (n # ns) \<Longrightarrow> xs_cancelled s \<Longrightarrow> exec_step E s (s\<lparr>xs_pc := Draining\<rparr>)"
| start_skip_dep:
    "xs_pc s = Starting (n # ns) \<Longrightarrow> \<not> xs_cancelled s \<Longrightarrow> map_of (xe_dag E) n = Some nd \<Longrightarrow>
     hasFailedDependency nd (xs_failed s) \<Longrightarrow>
     exec_step E s
       (send_skipped n (skip_dep_result n (getFailedDependencyNames nd (xs_failed s))) [] ns s)"
| start_skip_cond:
    "xs_pc s = Starting (n # ns) \<Longrightarrow> \<not> xs_cancelled s \<Longrightarrow> map_of (xe_dag E) n = Some nd \<Longrightarrow>
     \<not> hasFailedDependency nd (xs_failed s) \<Longrightarrow> xe_should E n = Some False \<Longrightarrow>
     exec_step E s
       (send_skipped n (skip_cond_result n)
         (if xe_callback E
          then [OnStepComplete n StepStatusSkipped ''skipped (condition not met)'' 0] else []) ns s)"
| start_run:
    "xs_pc s = Starting (n # ns) \<Longrightarrow> \<not> xs_cancelled s \<Longrightarrow> map_of (xe_dag E) n = Some nd \<Longrightarrow>
     \<not> hasFailedDependency nd (xs_failed s) \<Longrightarrow> xe_should E n = Some True \<Longrightarrow>
     xe_run E n = Some run \<Longrightarrow> exec_step E s (spawn n run ns s)"
| start_panic:
    "xs_pc s = Starting (n # ns) \<Longrightarrow> \<not> xs_cancelled s \<Longrightarrow> map_of (xe_dag E) n = Some nd \<Longrightarrow>
     \<not> hasFailedDependency nd (xs_failed s) \<Longrightarrow>
     xe_should E n = None \<or> (xe_should E n = Some True \<and> xe_run E n = None) \<Longrightarrow>
     exec_step E s (s\<lparr>xs_pc := Panicked\<rparr>)"
| start_end:
    "xs_pc s = Starting [] \<Longrightarrow> exec_step E s (s\<lparr>xs_pc := Scanning\<rparr>)"
| work_event:
    "xs_pc s \<noteq> Panicked \<Longrightarrow> xs_workers s = ws @ (n, e # es) # ws' \<Longrightarrow>
     exec_step E s (s\<lparr>xs_workers := ws @ (n, es) # ws', xs_events := xs_events s @ [e]\<rparr>)"
| work_done:
    "xs_pc s \<noteq> Panicked \<Longrightarrow> xs_workers s = ws @ (n, []) # ws' \<Longrightarrow> xe_run E n = Some run \<Longrightarrow>
     exec_step E s
       (s\<lparr>xs_workers := ws @ ws', xs_chan := xs_chan s @ [worker_result (xs_cancelled s) n run],
          xs_late := xs_late s @ [(n, ar_late run)]\<rparr>)"
| late_event:
    "xs_pc s \<noteq> Panicked \<Longrightarrow> xs_late s = ls @ (n, e # es) # ls' \<Longrightarrow>
     exec_step E s (s\<lparr>xs_late := ls @ (n, es) # ls', xs_events := xs_events s @ [e]\<rparr>)"
| collect:
    "xs_pc s \<noteq> Panicked \<Longrightarrow> xs_chan s = r # rs \<Longrightarrow>
     exec_step E s ((collect_result r s)\<lparr>xs_chan := rs\<rparr>)"
| close_chan:
    "xs_pc s = Draining \<Longrightarrow> xs_executing s = {} \<Longrightarrow>
     exec_step E s (s\<lparr>xs_closed := True, xs_pc := Stopped\<rparr>)"

inductive exec_reach :: "exec_env \<Rightarrow> exec_state \<Rightarrow> bool" for E where
  init: "exec_reach E exec_init"
| step: "exec_reach E s \<Longrightarrow> exec_step E s t \<Longrightarrow> exec_reach E t"

inductive_simps exec_step_iff: "exec_step E s t"

section \<open>The invariant\<close>

definition names_of :: "result list \<Rightarrow> string list" where
  "names_of rs = map res_Name rs"

definition failed_of :: "result list \<Rightarrow> string set" where
  "failed_of rs = {res_Name r | r. r \<in> set rs \<and> res_Status r = StatusError}"

definition deps_first :: "dag \<Rightarrow> result list \<Rightarrow> bool" where
  "deps_first dag rs =
     (\<forall>xs r ys. rs = xs @ r # ys \<longrightarrow> set (dag_deps dag (res_Name r)) \<subseteq> set (names_of xs))"

text \<open>What a node's result can be, given the failures among the nodes before it.\<close>

definition legit :: "exec_env \<Rightarrow> bool \<Rightarrow> string set \<Rightarrow> result \<Rightarrow> bool" where
  "legit E cancelled failed r =
     (let n = res_Name r; deps = dag_deps (xe_dag E) n
      in (\<exists>d \<in> set deps. d \<in> failed) \<and> r = skip_dep_result n (filter (\<lambda>d. d \<in> failed) deps)
       \<or> (\<forall>d \<in> set deps. d \<notin> failed) \<and> xe_should E n = Some False \<and> r = skip_cond_result n
       \<or> (\<forall>d \<in> set deps. d \<notin> failed) \<and> xe_should E n = Some True
         \<and> (\<exists>run c. xe_run E n = Some run \<and> r = worker_result c n run \<and> (c \<longrightarrow> cancelled)))"

definition exec_inv :: "exec_env \<Rightarrow> exec_state \<Rightarrow> bool" where
  "exec_inv E s =
     (xs_executing s = set (names_of (xs_chan s)) \<union> fst ` set (xs_workers s)
      \<and> xs_completed s = set (names_of (xs_results s))
      \<and> xs_failed s = failed_of (xs_results s)
      \<and> distinct (names_of (xs_results s) @ names_of (xs_chan s) @ map fst (xs_workers s))
      \<and> xs_completed s \<union> xs_executing s \<subseteq> dag_names (xe_dag E)
      \<and> (\<forall>n \<in> xs_completed s \<union> xs_executing s. set (dag_deps (xe_dag E) n) \<subseteq> xs_completed s)
      \<and> deps_first (xe_dag E) (xs_results s)
      \<and> (\<forall>r \<in> set (xs_results s @ xs_chan s). legit E (xs_cancelled s) (xs_failed s) r)
      \<and> (\<forall>n \<in> fst ` set (xs_workers s). xe_should E n = Some True \<and> xe_run E n \<noteq> None
           \<and> (\<forall>d \<in> set (dag_deps (xe_dag E) n). d \<notin> xs_failed s))
      \<and> (\<forall>ns. xs_pc s = Starting ns \<longrightarrow> distinct ns
           \<and> set ns \<inter> (xs_completed s \<union> xs_executing s) = {} \<and> set ns \<subseteq> dag_names (xe_dag E)
           \<and> (\<forall>n \<in> set ns. set (dag_deps (xe_dag E) n) \<subseteq> xs_completed s))
      \<and> (xs_closed s \<longleftrightarrow> xs_pc s = Stopped) \<and> (xs_pc s = Stopped \<longrightarrow> xs_executing s = {})
      \<and> (xs_pc s = Draining \<or> xs_pc s = Stopped \<longrightarrow> xs_cancelled s
           \<or> dag_names (xe_dag E) \<subseteq> xs_completed s))"

lemma exec_inv_parts:
  assumes "exec_inv E s"
  shows "xs_executing s = set (names_of (xs_chan s)) \<union> fst ` set (xs_workers s)"
    and "xs_completed s = set (names_of (xs_results s))"
    and "xs_failed s = failed_of (xs_results s)"
    and "distinct (names_of (xs_results s) @ names_of (xs_chan s) @ map fst (xs_workers s))"
    and "xs_completed s \<union> xs_executing s \<subseteq> dag_names (xe_dag E)"
    and "\<forall>n \<in> xs_completed s \<union> xs_executing s. set (dag_deps (xe_dag E) n) \<subseteq> xs_completed s"
    and "deps_first (xe_dag E) (xs_results s)"
    and "\<forall>r \<in> set (xs_results s @ xs_chan s). legit E (xs_cancelled s) (xs_failed s) r"
    and "\<forall>n \<in> fst ` set (xs_workers s). xe_should E n = Some True \<and> xe_run E n \<noteq> None
           \<and> (\<forall>d \<in> set (dag_deps (xe_dag E) n). d \<notin> xs_failed s)"
    and "\<forall>ns. xs_pc s = Starting ns \<longrightarrow> distinct ns
           \<and> set ns \<inter> (xs_completed s \<union> xs_executing s) = {} \<and> set ns \<subseteq> dag_names (xe_dag E)
           \<and> (\<forall>n \<in> set ns. set (dag_deps (xe_dag E) n) \<subseteq> xs_completed s)"
    and "xs_closed s \<longleftrightarrow> xs_pc s = Stopped"
    and "xs_pc s = Stopped \<longrightarrow> xs_executing s = {}"
    and "xs_pc s = Draining \<or> xs_pc s = Stopped \<longrightarrow> xs_cancelled s
           \<or> dag_names (xe_dag E) \<subseteq> xs_completed s"
  using assms unfolding exec_inv_def by - (elim conjE, assumption)+

lemmas exec_invD = exec_inv_parts(1-5) exec_inv_parts(6) [rule_format] exec_inv_parts(7)
  exec_inv_parts(8,9) [THEN bspec] exec_inv_parts(10) [THEN spec, THEN mp]
  exec_inv_parts(11) exec_inv_parts(12,13) [THEN mp]

lemma exec_inv_init: "exec_inv E exec_init"
  by (auto simp: exec_inv_def exec_init_def names_of_def failed_of_def deps_first_def)


lemma ready_steps_set:
  assumes "distinct (map fst dag)"
  shows "set (ready_steps dag c e f) =
    {n \<in> dag_names dag. n \<notin> c \<and> n \<notin> e \<and> n \<notin> f \<and> set (dag_deps dag n) \<subseteq> c}"
proof (rule set_eqI)
  fix n
  have "n \<in> set (ready_steps dag c e f) \<longleftrightarrow> (\<exists>nd. (n, nd) \<in> set dag \<and> n \<notin> c \<and> n \<notin> e \<and> n \<notin> f
      \<and> (\<forall>d \<in> set (node_Dependencies nd). d \<in> c))"
    by (auto simp: ready_steps_def image_iff)
  also have "\<dots> \<longleftrightarrow> (\<exists>nd. map_of dag n = Some nd \<and> n \<notin> c \<and> n \<notin> e \<and> n \<notin> f
      \<and> (\<forall>d \<in> set (node_Dependencies nd). d \<in> c))"
    using assms by simp
  also have "\<dots> \<longleftrightarrow> n \<in> {n \<in> dag_names dag. n \<notin> c \<and> n \<notin> e \<and> n \<notin> f \<and> set (dag_deps dag n) \<subseteq> c}"
    by (cases "map_of dag n") (auto simp: dag_names_iff dag_deps_def)
  finally show "n \<in> set (ready_steps dag c e f) \<longleftrightarrow>
    n \<in> {n \<in> dag_names dag. n \<notin> c \<and> n \<notin> e \<and> n \<notin> f \<and> set (dag_deps dag n) \<subseteq> c}" .
qed

lemma dag_deps_node: "map_of dag n = Some nd \<Longrightarrow> dag_deps dag n = node_Dependencies nd"
  by (simp add: dag_deps_def)

lemma res_Name_mk [simp]:
  "res_Name (skip_dep_result n ds) = n" "res_Name (skip_cond_result n) = n"
  "res_Name (worker_result c n run) = n"
  by (simp_all add: skip_dep_result_def skip_cond_result_def worker_result_def Let_def)

lemma legit_cancel: "legit E c f r \<Longrightarrow> legit E True f r"
  unfolding legit_def Let_def by blast

lemma legit_insert:
  assumes "legit E c f r" "x \<notin> set (dag_deps (xe_dag E) (res_Name r))"
  shows "legit E c (insert x f) r"
proof -
  have "filter (\<lambda>d. d \<in> insert x f) (dag_deps (xe_dag E) (res_Name r))
      = filter (\<lambda>d. d \<in> f) (dag_deps (xe_dag E) (res_Name r))"
    using assms(2) by (intro filter_cong) auto
  then show ?thesis using assms unfolding legit_def Let_def by auto
qed

lemma deps_first_snoc:
  "deps_first dag rs \<Longrightarrow> set (dag_deps dag (res_Name r)) \<subseteq> set (names_of rs) \<Longrightarrow> deps_first dag (rs @ [r])"
  unfolding deps_first_def
proof (intro allI impI)
  fix xs q ys
  assume d: "\<forall>xs r ys. rs = xs @ r # ys \<longrightarrow> set (dag_deps dag (res_Name r)) \<subseteq> set (names_of xs)"
    and r: "set (dag_deps dag (res_Name r)) \<subseteq> set (names_of rs)" and eq: "rs @ [r] = xs @ q # ys"
  show "set (dag_deps dag (res_Name q)) \<subseteq> set (names_of xs)"
    using eq d r by (cases ys rule: rev_cases) auto
qed

lemma failed_of_snoc:
  "failed_of (rs @ [r]) = (if res_Status r = StatusError then insert (res_Name r) (failed_of rs) else failed_of rs)"
  by (auto simp: failed_of_def)

lemma names_of_simps [simp]:
  "names_of [] = []" "names_of (r # rs) = res_Name r # names_of rs"
  "names_of (xs @ ys) = names_of xs @ names_of ys"
  by (simp_all add: names_of_def)

lemma failed_subset: "failed_of rs \<subseteq> set (names_of rs)"
  by (auto simp: failed_of_def names_of_def)

lemma inv_collect:
  assumes I: "exec_inv E s" and c: "xs_chan s = r # rs"
  shows "exec_inv E ((collect_result r s)\<lparr>xs_chan := rs\<rparr>)"
proof -
  define t where "t = (collect_result r s)\<lparr>xs_chan := rs\<rparr>"
  let ?x = "res_Name r"
  note D = exec_invD [OF I]
  have f: "xs_results t = xs_results s @ [r]" "xs_completed t = insert ?x (xs_completed s)"
    "xs_executing t = xs_executing s - {?x}" "xs_chan t = rs" "xs_closed t = xs_closed s"
    "xs_workers t = xs_workers s" "xs_pc t = xs_pc s" "xs_cancelled t = xs_cancelled s"
    "xs_failed t = failed_of (xs_results s @ [r])"
    by (simp_all add: t_def collect_result_def failed_of_snoc D(3))
  have ex: "?x \<in> xs_executing s" "?x \<notin> xs_completed s"
    using D(1,2,4) c by auto
  have sub: "xs_failed t \<subseteq> insert ?x (xs_failed s)"
    by (auto simp: f(9) failed_of_snoc D(3))
  have fs: "xs_failed t = xs_failed s \<or> xs_failed t = insert ?x (xs_failed s)"
    by (auto simp: f(9) failed_of_snoc D(3))
  have deps: "set (dag_deps (xe_dag E) n) \<subseteq> xs_completed s \<and> ?x \<notin> set (dag_deps (xe_dag E) n)"
    if "n \<in> xs_completed s \<union> xs_executing s" for n
    using D(6) [OF that] ex by blast
  have lg: "legit E (xs_cancelled s) (xs_failed t) q" if q: "q \<in> set (xs_results s @ xs_chan s)" for q
  proof -
    have "res_Name q \<in> xs_completed s \<union> xs_executing s"
      using q unfolding D(1,2) names_of_def by auto
    then show ?thesis using deps D(8) [OF q] fs legit_insert by metis
  qed
  have wk: "xe_should E n = Some True \<and> xe_run E n \<noteq> None
      \<and> (\<forall>d \<in> set (dag_deps (xe_dag E) n). d \<notin> xs_failed t)" if n: "n \<in> fst ` set (xs_workers s)" for n
  proof -
    have "n \<in> xs_completed s \<union> xs_executing s" using n D(1) by blast
    note dn = deps [OF this]
    have "d \<notin> xs_failed t" if "d \<in> set (dag_deps (xe_dag E) n)" for d
      using that dn D(9) [OF n] subsetD [OF sub, of d] by blast
    then show ?thesis using D(9) [OF n] by blast
  qed
  have first: "deps_first (xe_dag E) (xs_results s @ [r])"
    using D(7) deps ex(1) by (intro deps_first_snoc) (auto simp: D(2))
  have all: "xs_completed t \<union> xs_executing t = xs_completed s \<union> xs_executing s"
    unfolding f(2,3) using ex by blast
  show ?thesis
    unfolding t_def [symmetric] exec_inv_def
  proof (intro conjI allI impI ballI)
    show "xs_executing t = set (names_of (xs_chan t)) \<union> fst ` set (xs_workers t)"
      using D(1,4) c unfolding f by auto
    show "xs_completed t = set (names_of (xs_results t))" using D(2) unfolding f by auto
    show "xs_failed t = failed_of (xs_results t)" unfolding f ..
    show "distinct (names_of (xs_results t) @ names_of (xs_chan t) @ map fst (xs_workers t))"
      using D(4) c unfolding f by auto
    show "xs_completed t \<union> xs_executing t \<subseteq> dag_names (xe_dag E)" unfolding all by (rule D(5))
    show "set (dag_deps (xe_dag E) n) \<subseteq> xs_completed t" if "n \<in> xs_completed t \<union> xs_executing t" for n
      using deps [OF that [unfolded all]] unfolding f(2) by blast
    show "deps_first (xe_dag E) (xs_results t)" using first unfolding f .
    show "legit E (xs_cancelled t) (xs_failed t) q" if "q \<in> set (xs_results t @ xs_chan t)" for q
      using that lg c unfolding f(1,4,8) by auto
    fix n assume "n \<in> fst ` set (xs_workers t)"
    then have "n \<in> fst ` set (xs_workers s)" by (simp add: f)
    note wk [OF this]
    then show "xe_should E n = Some True" "xe_run E n \<noteq> None"
      "\<And>d. d \<in> set (dag_deps (xe_dag E) n) \<Longrightarrow> d \<notin> xs_failed t" by blast+
  next
    fix ns assume "xs_pc t = Starting ns"
    then have "xs_pc s = Starting ns" by (simp add: f)
    note N = D(10) [OF this]
    show "distinct ns" "set ns \<subseteq> dag_names (xe_dag E)"
      "set ns \<inter> (xs_completed t \<union> xs_executing t) = {}" using N unfolding all by blast+
    show "set (dag_deps (xe_dag E) n) \<subseteq> xs_completed t" if "n \<in> set ns" for n
      using N that f(2) by blast
  next
    show "xs_closed t \<longleftrightarrow> xs_pc t = Stopped" using D(11) by (simp add: f)
    show "xs_executing t = {}" if "xs_pc t = Stopped" using that D(12) by (simp add: f)
    show "xs_cancelled t \<or> dag_names (xe_dag E) \<subseteq> xs_completed t"
      if "xs_pc t = Draining \<or> xs_pc t = Stopped"
      using that D(13) unfolding f(2,7,8) by blast
  qed
qed

definition starting_ok :: "exec_env \<Rightarrow> exec_state \<Rightarrow> string list \<Rightarrow> bool" where
  "starting_ok E s ns =
     (distinct ns \<and> set ns \<inter> (xs_completed s \<union> xs_executing s) = {} \<and> set ns \<subseteq> dag_names (xe_dag E)
      \<and> (\<forall>n \<in> set ns. set (dag_deps (xe_dag E) n) \<subseteq> xs_completed s))"

lemma legit_mono: "legit E c f r \<Longrightarrow> (c \<longrightarrow> c') \<Longrightarrow> legit E c' f r"
  unfolding legit_def Let_def by blast

text \<open>Steps that only move the scheduler, the clock of cancellation or the events.\<close>

lemma inv_frame:
  assumes I: "exec_inv E s"
    and f: "xs_results t = xs_results s" "xs_completed t = xs_completed s" "xs_failed t = xs_failed s"
      "xs_executing t = xs_executing s" "xs_chan t = xs_chan s"
      "map fst (xs_workers t) = map fst (xs_workers s)" "xs_cancelled s \<longrightarrow> xs_cancelled t"
    and pc: "xs_closed t \<longleftrightarrow> xs_pc t = Stopped" "\<And>ns. xs_pc t = Starting ns \<Longrightarrow> starting_ok E s ns"
      "xs_pc t = Stopped \<Longrightarrow> xs_executing s = {}"
      "xs_pc t = Draining \<or> xs_pc t = Stopped \<Longrightarrow> xs_cancelled t \<or> dag_names (xe_dag E) \<subseteq> xs_completed s"
  shows "exec_inv E t"
proof -
  note D = exec_inv_parts [OF I]
  have w: "fst ` set (xs_workers t) = fst ` set (xs_workers s)"
    using f(6) by (metis list.set_map)
  have lg: "\<forall>r \<in> set (xs_results s @ xs_chan s). legit E (xs_cancelled t) (xs_failed s) r"
    using D(8) f(7) legit_mono by blast
  show ?thesis
    unfolding exec_inv_def f(1-6) w
    by (intro conjI D(1-7,9) lg pc(1)) (use pc(2-4) in \<open>auto simp: starting_ok_def\<close>)
qed

lemma starting_okD: "exec_inv E s \<Longrightarrow> xs_pc s = Starting ns \<Longrightarrow> starting_ok E s ns"
  using exec_inv_parts(10) [of E s] by (simp add: starting_ok_def)

lemma inv_done:
  assumes I: "exec_inv E s" and w: "xs_workers s = ws @ (n, []) # ws'" and run: "xe_run E n = Some run"
    and f: "xs_results t = xs_results s" "xs_completed t = xs_completed s" "xs_failed t = xs_failed s"
      "xs_executing t = xs_executing s" "xs_chan t = xs_chan s @ [worker_result (xs_cancelled s) n run]"
      "xs_workers t = ws @ ws'" "xs_cancelled t = xs_cancelled s" "xs_closed t = xs_closed s" "xs_pc t = xs_pc s"
  shows "exec_inv E t"
proof -
  note D = exec_inv_parts [OF I]
  let ?r = "worker_result (xs_cancelled s) n run"
  have n: "xe_should E n = Some True" "\<forall>d \<in> set (dag_deps (xe_dag E) n). d \<notin> xs_failed s"
    using D(9) w by auto
  have l: "legit E (xs_cancelled s) (xs_failed s) ?r"
    unfolding legit_def Let_def res_Name_mk using n run by blast
  show ?thesis
    unfolding exec_inv_def f
  proof (intro conjI D(2,3,5-7,10-13))
    show "xs_executing s = set (names_of (xs_chan s @ [?r])) \<union> fst ` set (ws @ ws')"
      unfolding D(1) w by auto
    show "distinct (names_of (xs_results s) @ names_of (xs_chan s @ [?r]) @ map fst (ws @ ws'))"
      using D(4) unfolding w by auto
    show "\<forall>r \<in> set (xs_results s @ xs_chan s @ [?r]). legit E (xs_cancelled s) (xs_failed s) r"
      using D(8) l by auto
    show "\<forall>n \<in> fst ` set (ws @ ws'). xe_should E n = Some True \<and> xe_run E n \<noteq> None
        \<and> (\<forall>d \<in> set (dag_deps (xe_dag E) n). d \<notin> xs_failed s)"
      using D(9) unfolding w by auto
  qed
qed

text \<open>A node starts: skipped into the channel, or as a worker.\<close>

lemma distinct_add:
  "distinct (a @ b @ c) \<Longrightarrow> n \<notin> set a \<Longrightarrow> n \<notin> set b \<Longrightarrow> n \<notin> set c \<Longrightarrow>
     distinct (a @ (b @ [n]) @ c) \<and> distinct (a @ b @ c @ [n])"
  by auto

lemma inv_start:
  assumes I: "exec_inv E s" and pc: "xs_pc s = Starting (n # ns)"
    and f: "xs_results t = xs_results s" "xs_completed t = xs_completed s" "xs_failed t = xs_failed s"
      "xs_executing t = insert n (xs_executing s)" "xs_cancelled t = xs_cancelled s"
      "xs_closed t = xs_closed s" "xs_pc t = Starting ns"
    and how: "(xs_workers t = xs_workers s \<and> (\<exists>r. xs_chan t = xs_chan s @ [r] \<and> res_Name r = n
                  \<and> legit E (xs_cancelled s) (xs_failed s) r))
      \<or> (xs_chan t = xs_chan s \<and> (\<exists>es. xs_workers t = xs_workers s @ [(n, es)])
          \<and> xe_should E n = Some True \<and> xe_run E n \<noteq> None
          \<and> (\<forall>d \<in> set (dag_deps (xe_dag E) n). d \<notin> xs_failed s))"
  shows "exec_inv E t"
proof -
  note D = exec_inv_parts [OF I]
  have st: "starting_ok E s (n # ns)" using starting_okD [OF I pc] .
  have n: "n \<notin> xs_completed s" "n \<notin> xs_executing s" "n \<in> dag_names (xe_dag E)"
    "set (dag_deps (xe_dag E) n) \<subseteq> xs_completed s" "n \<notin> set ns"
    using st by (auto simp: starting_ok_def)
  have fresh: "n \<notin> set (names_of (xs_results s))" "n \<notin> set (names_of (xs_chan s))"
    "n \<notin> fst ` set (xs_workers s)" using n(1,2) D(1,2) by auto
  have ex: "insert n (xs_executing s) = set (names_of (xs_chan t)) \<union> fst ` set (xs_workers t)"
    using how unfolding D(1) by auto
  have di: "distinct (names_of (xs_results s) @ names_of (xs_chan t) @ map fst (xs_workers t))"
    using how distinct_add [OF D(4), of n] fresh by (elim disjE conjE exE) simp_all
  have lg: "\<forall>r \<in> set (xs_results s @ xs_chan t). legit E (xs_cancelled s) (xs_failed s) r"
    using how D(8) by auto
  have wk: "\<forall>n \<in> fst ` set (xs_workers t). xe_should E n = Some True \<and> xe_run E n \<noteq> None
        \<and> (\<forall>d \<in> set (dag_deps (xe_dag E) n). d \<notin> xs_failed s)"
    using how D(9) by auto
  show ?thesis
    unfolding exec_inv_def f
    by (intro conjI D(2,3,7) ex di lg wk)
      (use D(5,6,11) n st pc in \<open>auto simp: starting_ok_def\<close>)
qed

lemma exec_inv_step:
  assumes I: "exec_inv E s" and d: "distinct (map fst (xe_dag E))" and st: "exec_step E s t"
  shows "exec_inv E t"
  using st
proof cases
  case cancel
  show ?thesis unfolding cancel
    by (rule inv_frame [OF I])
      (use exec_inv_parts(11-13) [OF I] starting_okD [OF I] in auto)
next
  case scan_cancelled
  show ?thesis unfolding scan_cancelled(1)
    by (rule inv_frame [OF I]) (use scan_cancelled exec_inv_parts(11) [OF I] in auto)
next
  case (scan_ready ns)
  have "starting_ok E s ns"
    using scan_ready(5,6) unfolding starting_ok_def ready_steps_set [OF d] by auto
  then show ?thesis unfolding scan_ready(1)
    by (intro inv_frame [OF I]) (use scan_ready(2) exec_inv_parts(11) [OF I] in auto)
next
  case scan_done
  have "xs_failed s \<subseteq> xs_completed s"
    using exec_inv_parts(2,3) [OF I] failed_subset by simp
  then show ?thesis unfolding scan_done(1)
    by (intro inv_frame [OF I]) (use scan_done exec_inv_parts(11) [OF I] in auto)
next
  case (start_cancelled n ns)
  show ?thesis unfolding start_cancelled(1)
    by (rule inv_frame [OF I]) (use start_cancelled exec_inv_parts(11) [OF I] in auto)
next
  case (start_skip_dep n ns nd)
  have "legit E (xs_cancelled s) (xs_failed s)
      (skip_dep_result n (getFailedDependencyNames nd (xs_failed s)))"
    using start_skip_dep(5) unfolding legit_def Let_def res_Name_mk
    by (auto simp: dag_deps_node [OF start_skip_dep(4)] getFailedDependencyNames_def hasFailedDependency_def)
  then show ?thesis unfolding start_skip_dep(1)
    by (intro inv_start [OF I start_skip_dep(2)]) (auto simp: send_skipped_def)
next
  case (start_skip_cond n ns nd)
  have "legit E (xs_cancelled s) (xs_failed s) (skip_cond_result n)"
    using start_skip_cond(5,6) unfolding legit_def Let_def res_Name_mk
    by (auto simp: dag_deps_node [OF start_skip_cond(4)] hasFailedDependency_def)
  then show ?thesis unfolding start_skip_cond(1)
    by (intro inv_start [OF I start_skip_cond(2)]) (auto simp: send_skipped_def)
next
  case (start_run n ns nd run)
  then show ?thesis unfolding start_run(1)
    by (intro inv_start [OF I start_run(2)])
      (auto simp: spawn_def dag_deps_node [OF start_run(4)] hasFailedDependency_def)
next
  case (start_panic n ns nd)
  show ?thesis unfolding start_panic(1)
    by (rule inv_frame [OF I]) (use start_panic exec_inv_parts(11) [OF I] in auto)
next
  case start_end
  show ?thesis unfolding start_end(1)
    by (rule inv_frame [OF I]) (use start_end exec_inv_parts(11) [OF I] in auto)
next
  case (work_event ws n e es ws')
  show ?thesis unfolding work_event(1)
    by (rule inv_frame [OF I])
      (use work_event exec_inv_parts(11-13) [OF I] starting_okD [OF I] in auto)
next
  case (work_done ws n ws' run)
  show ?thesis unfolding work_done(1)
    by (rule inv_done [OF I work_done(3,4)]) simp_all
next
  case (late_event ls n e es ls')
  show ?thesis unfolding late_event(1)
    by (rule inv_frame [OF I])
      (use late_event exec_inv_parts(11-13) [OF I] starting_okD [OF I] in auto)
next
  case (collect r rs)
  show ?thesis unfolding collect(1) by (rule inv_collect [OF I collect(3)])
next
  case close_chan
  show ?thesis unfolding close_chan(1)
    by (rule inv_frame [OF I]) (use close_chan exec_inv_parts(13) [OF I] in auto)
qed

lemma exec_reach_inv:
  "exec_reach E s \<Longrightarrow> distinct (map fst (xe_dag E)) \<Longrightarrow> exec_inv E s"
  by (induction rule: exec_reach.induct) (auto intro: exec_inv_init exec_inv_step)

section \<open>Termination\<close>

definition late_len :: "exec_env \<Rightarrow> string \<Rightarrow> nat" where
  "late_len E n = (case xe_run E n of None \<Rightarrow> 0 | Some run \<Rightarrow> length (ar_late run))"

definition node_weight :: "exec_env \<Rightarrow> string \<Rightarrow> nat" where
  "node_weight E n =
     10 + (case xe_run E n of None \<Rightarrow> 0 | Some run \<Rightarrow> length (ar_events run) + length (ar_late run))"

fun pc_weight :: "sched_pc \<Rightarrow> nat" where
  "pc_weight Scanning = 3"
| "pc_weight (Starting ns) = (if ns = [] then 4 else 2)"
| "pc_weight Draining = 1"
| "pc_weight Stopped = 0"
| "pc_weight Panicked = 0"

definition started :: "exec_state \<Rightarrow> string set" where
  "started s = xs_completed s \<union> xs_executing s"

definition exec_measure :: "exec_env \<Rightarrow> exec_state \<Rightarrow> nat" where
  "exec_measure E s =
     (\<Sum>n \<in> dag_names (xe_dag E) - started s. node_weight E n)
     + sum_list (map (\<lambda>(n, es). length es + late_len E n + 4) (xs_workers s))
     + sum_list (map (\<lambda>(n, es). length es) (xs_late s))
     + 2 * length (xs_chan s) + pc_weight (xs_pc s) + (if xs_cancelled s then 0 else 1)"

lemma finite_dag_names [simp]: "finite (dag_names dag)"
  by (simp add: dag_names_def)

lemma weight_start:
  assumes "n \<in> dag_names (xe_dag E)" "n \<notin> started s"
  shows "(\<Sum>m \<in> dag_names (xe_dag E) - started s. node_weight E m)
      = node_weight E n + (\<Sum>m \<in> dag_names (xe_dag E) - insert n (started s). node_weight E m)"
proof -
  have "dag_names (xe_dag E) - insert n (started s) = dag_names (xe_dag E) - started s - {n}" by blast
  then show ?thesis using assms by (simp add: sum.remove [of _ n])
qed

lemma node_weight_run:
  "10 \<le> node_weight E n"
  "xe_run E n = Some run \<Longrightarrow> node_weight E n = 10 + (length (ar_events run) + length (ar_late run))"
  by (simp_all add: node_weight_def)

lemma measure_step:
  assumes I: "exec_inv E s" and st: "exec_step E s t"
  shows "exec_measure E t < exec_measure E s"
  using st
proof cases
  case (start_skip_dep n ns nd)
  have n: "n \<in> dag_names (xe_dag E)" "n \<notin> started s"
    using starting_okD [OF I start_skip_dep(2)] by (auto simp: starting_ok_def started_def)
  have st: "started t = insert n (started s)"
    by (simp add: start_skip_dep(1) send_skipped_def started_def)
  show ?thesis using start_skip_dep(2) node_weight_run(1) [of E n]
    unfolding exec_measure_def weight_start [OF n] st
    by (simp add: start_skip_dep(1) send_skipped_def)
next
  case (start_skip_cond n ns nd)
  have n: "n \<in> dag_names (xe_dag E)" "n \<notin> started s"
    using starting_okD [OF I start_skip_cond(2)] by (auto simp: starting_ok_def started_def)
  have st: "started t = insert n (started s)"
    by (simp add: start_skip_cond(1) send_skipped_def started_def)
  show ?thesis using start_skip_cond(2) node_weight_run(1) [of E n]
    unfolding exec_measure_def weight_start [OF n] st
    by (simp add: start_skip_cond(1) send_skipped_def)
next
  case (start_run n ns nd run)
  have n: "n \<in> dag_names (xe_dag E)" "n \<notin> started s"
    using starting_okD [OF I start_run(2)] by (auto simp: starting_ok_def started_def)
  have st: "started t = insert n (started s)"
    by (simp add: start_run(1) spawn_def started_def)
  show ?thesis using start_run(2,7) node_weight_run(2) [OF start_run(7)]
    unfolding exec_measure_def weight_start [OF n] st
    by (simp add: start_run(1) spawn_def late_len_def)
next
  case (collect r rs)
  have "res_Name r \<in> xs_executing s"
    using exec_inv_parts(1) [OF I] collect(3) by simp
  then have "started t = started s" by (auto simp: started_def collect(1) collect_result_def)
  then show ?thesis using collect(3) by (simp add: exec_measure_def collect(1) collect_result_def)
next
  case (work_done ws n ws' run)
  then have "started t = started s" by (simp add: started_def)
  then show ?thesis using work_done by (simp add: exec_measure_def late_len_def)
qed (simp_all add: exec_measure_def started_def)

section \<open>Progress\<close>

definition no_panics :: "exec_env \<Rightarrow> bool" where
  "no_panics E = (\<forall>n \<in> dag_names (xe_dag E). xe_should E n \<noteq> None \<and> xe_run E n \<noteq> None)"

lemma exists_ready:
  assumes "acyclic (dep_edge dag)" "dag_closed dag" "n0 \<in> dag_names dag" "n0 \<notin> fin"
  shows "\<exists>n \<in> dag_names dag. n \<notin> fin \<and> set (dag_deps dag n) \<subseteq> fin"
proof -
  have "dep_edge dag \<subseteq> dag_names dag \<times> dag_names dag"
    using assms(2) dep_edge_source by (fastforce simp: dag_closed_def dep_edge_iff)
  then have "finite (dep_edge dag)" by (rule finite_subset) simp
  then have wf: "wf ((dep_edge dag)\<inverse>)" using assms(1) by (rule finite_acyclic_wf_converse)
  have "n0 \<in> dag_names dag - fin" using assms(3,4) by blast
  from wfE_min [OF wf this] obtain z where z: "z \<in> dag_names dag - fin"
    "\<And>y. (y, z) \<in> (dep_edge dag)\<inverse> \<Longrightarrow> y \<notin> dag_names dag - fin" by blast
  have "set (dag_deps dag z) \<subseteq> fin"
  proof
    fix y assume y: "y \<in> set (dag_deps dag z)"
    then have "y \<notin> dag_names dag - fin" by (intro z(2)) (simp add: dep_edge_iff)
    moreover have "y \<in> dag_names dag" using y assms(2) by (auto simp: dag_closed_def)
    ultimately show "y \<in> fin" by blast
  qed
  with z(1) show ?thesis by blast
qed

definition graph_ok :: "dag \<Rightarrow> bool" where
  "graph_ok dag = (distinct (map fst dag) \<and> dag_closed dag \<and> acyclic (dep_edge dag))"

lemma progress_start:
  assumes I: "exec_inv E s" and pc: "xs_pc s = Starting (n # ns)"
  shows "\<exists>t. exec_step E s t \<and> xs_cancelled t = xs_cancelled s"
proof (cases "xs_cancelled s")
  case True
  from start_cancelled [OF pc True, of E] True show ?thesis by fastforce
next
  case False
  have "n \<in> dag_names (xe_dag E)"
    using starting_okD [OF I pc] by (simp add: starting_ok_def)
  then obtain nd where nd: "map_of (xe_dag E) n = Some nd" by (auto simp: dag_names_iff)
  show ?thesis
  proof (cases "hasFailedDependency nd (xs_failed s)")
    case True
    from start_skip_dep [OF pc False nd True] show ?thesis by (auto simp: send_skipped_def)
  next
    case no: False
    consider "xe_should E n = Some False" | run where "xe_should E n = Some True" "xe_run E n = Some run"
      | "xe_should E n = None \<or> (xe_should E n = Some True \<and> xe_run E n = None)"
      by (metis (full_types) not_None_eq)
    then show ?thesis
    proof cases
      case 1
      from start_skip_cond [OF pc False nd no 1] show ?thesis by (fastforce simp: send_skipped_def)
    next
      case 2
      from start_run [OF pc False nd no 2] show ?thesis by (fastforce simp: spawn_def)
    next
      case 3
      from start_panic [OF pc False nd no 3] show ?thesis by fastforce
    qed
  qed
qed

lemma exec_idle_progress:
  assumes I: "exec_inv E s" and g: "graph_ok (xe_dag E)"
    and nf: "\<not> exec_finished s" "xs_pc s \<noteq> Panicked" and idle: "xs_chan s = []" "xs_workers s = []"
  shows "\<exists>t. exec_step E s t \<and> xs_cancelled t = xs_cancelled s"
proof -
  note D = exec_inv_parts [OF I]
  have ex: "xs_executing s = {}" using D(1) idle by simp
  show ?thesis
  proof (cases "xs_pc s")
    case (Starting ns)
    show ?thesis
    proof (cases ns)
      case Nil
      from start_end [of s E] Starting Nil show ?thesis by fastforce
    next
      case (Cons n ns')
      from progress_start [OF I, of n ns'] Starting Cons show ?thesis by simp
    qed
  next
    case Draining
    from close_chan [OF Draining ex, of E] show ?thesis by fastforce
  next
    case Stopped
    then show ?thesis using nf(1) idle D(11) by (simp add: exec_finished_def)
  next
    case Panicked
    then show ?thesis using nf(2) by simp
  next
    case Scanning
    show ?thesis
    proof (cases "xs_cancelled s")
      case True
      from scan_cancelled [OF Scanning True, of E] True show ?thesis by fastforce
    next
      case False
      let ?ready = "ready_steps (xe_dag E) (xs_completed s) (xs_executing s) (xs_failed s)"
      have rs: "set ?ready = {n \<in> dag_names (xe_dag E). n \<notin> xs_completed s
          \<and> set (dag_deps (xe_dag E) n) \<subseteq> xs_completed s}"
        using g ex failed_subset [of "xs_results s"] D(2,3)
        by (subst ready_steps_set) (auto simp: graph_ok_def)
      show ?thesis
      proof (cases "?ready = []")
        case True
        have "n \<in> xs_completed s" if "n \<in> dag_names (xe_dag E)" for n
          using exists_ready [of "xe_dag E" n "xs_completed s"] that g rs True
          by (auto simp: graph_ok_def)
        then have "\<forall>n \<in> dag_names (xe_dag E). n \<in> xs_completed s \<or> n \<in> xs_failed s" by blast
        from scan_done [OF Scanning False True this] show ?thesis by fastforce
      next
        case ne: False
        from scan_ready [OF Scanning False, of "remdups ?ready" E] ne show ?thesis by fastforce
      qed
    qed
  qed
qed

lemma exec_progress:
  assumes I: "exec_inv E s" and g: "graph_ok (xe_dag E)"
    and nf: "\<not> exec_finished s" "xs_pc s \<noteq> Panicked"
  shows "\<exists>t. exec_step E s t \<and> xs_cancelled t = xs_cancelled s"
proof -
  note D = exec_inv_parts [OF I]
  consider r rs where "xs_chan s = r # rs"
    | n es ws' where "xs_workers s = (n, es) # ws'"
    | "xs_chan s = []" "xs_workers s = []"
    by (metis neq_Nil_conv surj_pair)
  then show ?thesis
  proof cases
    case 1
    from collect [OF nf(2) 1, of E] show ?thesis by (fastforce simp: collect_result_def)
  next
    case (2 n es ws')
    show ?thesis
    proof (cases es)
      case Nil
      obtain run where "xe_run E n = Some run" using D(9) 2 by auto
      from work_done [OF nf(2) _ this, of "[]" ws'] 2 Nil show ?thesis by fastforce
    next
      case (Cons e es')
      from work_event [OF nf(2), of "[]" n e es' ws'] 2 Cons show ?thesis by fastforce
    qed
  next
    case 3
    then show ?thesis by (rule exec_idle_progress [OF I g nf])
  qed
qed

section \<open>Runs to the end\<close>

lemma no_panic_step:
  "no_panics E \<Longrightarrow> xs_pc s \<noteq> Panicked \<Longrightarrow> exec_step E s t \<Longrightarrow> xs_pc t \<noteq> Panicked"
proof -
  assume np: "no_panics E" "xs_pc s \<noteq> Panicked" and st: "exec_step E s t"
  from st show ?thesis
  proof cases
    case (start_panic n ns nd)
    then have "n \<in> dag_names (xe_dag E)" by (auto simp: dag_names_iff)
    with start_panic np show ?thesis by (auto simp: no_panics_def)
  qed (use np in \<open>simp_all add: send_skipped_def spawn_def collect_result_def\<close>)
qed

lemma exec_run_to_end:
  assumes "exec_reach E s" "graph_ok (xe_dag E)" "no_panics E" "xs_pc s \<noteq> Panicked"
  shows "\<exists>t. exec_reach E t \<and> exec_finished t \<and> xs_cancelled t = xs_cancelled s"
  using assms
proof (induction "exec_measure E s" arbitrary: s rule: less_induct)
  case less
  have I: "exec_inv E s"
    using exec_reach_inv [OF less.prems(1)] less.prems(2) by (simp add: graph_ok_def)
  show ?case
  proof (cases "exec_finished s")
    case True
    with less.prems(1) show ?thesis by blast
  next
    case False
    from exec_progress [OF I less.prems(2) False less.prems(4)] obtain t where
      t: "exec_step E s t" "xs_cancelled t = xs_cancelled s" by blast
    from less.hyps [OF measure_step [OF I t(1)]] exec_reach.step [OF less.prems(1) t(1)]
      no_panic_step [OF less.prems(3,4) t(1)] less.prems(2,3) t(2)
    show ?thesis by metis
  qed
qed

lemma exec_init_pc [simp]: "xs_pc exec_init = Scanning" "\<not> xs_cancelled exec_init"
  by (simp_all add: exec_init_def)

lemma exec_can_finish:
  assumes "graph_ok (xe_dag E)" "no_panics E"
  obtains t where "exec_reach E t" "exec_finished t" "\<not> xs_cancelled t"
  using exec_run_to_end [OF exec_reach.init assms] by auto

lemma finished_all:
  assumes "exec_inv E s" "exec_finished s" "\<not> xs_cancelled s"
  shows "set (names_of (xs_results s)) = dag_names (xe_dag E)"
proof -
  note D = exec_inv_parts [OF assms(1)]
  have "xs_pc s = Stopped" using D(11) assms(2) by (simp add: exec_finished_def)
  then have "dag_names (xe_dag E) \<subseteq> xs_completed s" using D(13) assms(3) by blast
  then show ?thesis using D(2,5) by blast
qed

section \<open>The result of a node\<close>

definition final_result :: "exec_state \<Rightarrow> string \<Rightarrow> result option" where
  "final_result s n = find (\<lambda>r. res_Name r = n) (xs_results s)"

definition failed_deps :: "exec_env \<Rightarrow> exec_state \<Rightarrow> string \<Rightarrow> string list" where
  "failed_deps E s n =
     filter (\<lambda>d. \<exists>q. final_result s d = Some q \<and> res_Status q = StatusError) (dag_deps (xe_dag E) n)"

lemma find_unique:
  "distinct (names_of rs) \<Longrightarrow> r \<in> set rs \<Longrightarrow> find (\<lambda>q. res_Name q = res_Name r) rs = Some r"
  by (induction rs) (auto simp: names_of_def)

lemma final_result_iff:
  assumes "exec_inv E s"
  shows "final_result s n = Some r \<longleftrightarrow> r \<in> set (xs_results s) \<and> res_Name r = n"
proof
  assume "final_result s n = Some r"
  then show "r \<in> set (xs_results s) \<and> res_Name r = n"
    by (auto simp: final_result_def find_Some_iff)
next
  have "distinct (names_of (xs_results s))" using exec_inv_parts(4) [OF assms] by simp
  moreover assume "r \<in> set (xs_results s) \<and> res_Name r = n"
  ultimately show "final_result s n = Some r" using find_unique by (auto simp: final_result_def)
qed

lemma failed_iff:
  "exec_inv E s \<Longrightarrow> d \<in> xs_failed s \<longleftrightarrow> (\<exists>q. final_result s d = Some q \<and> res_Status q = StatusError)"
  using final_result_iff [of E s d] exec_inv_parts(3) [of E s] by (auto simp: failed_of_def)

lemma filter_ex_iff: "(\<exists>d \<in> set xs. P d) \<longleftrightarrow> filter P xs \<noteq> []"
  by (simp add: filter_empty_conv)

lemma result_cases:
  assumes I: "exec_inv E s" and r: "final_result s n = Some r"
  shows "(failed_deps E s n \<noteq> [] \<and> r = skip_dep_result n (failed_deps E s n))
     \<or> (failed_deps E s n = [] \<and> xe_should E n = Some False \<and> r = skip_cond_result n)
     \<or> (failed_deps E s n = [] \<and> xe_should E n = Some True
        \<and> (\<exists>run c. xe_run E n = Some run \<and> r = worker_result c n run \<and> (c \<longrightarrow> xs_cancelled s)))"
proof -
  have fd: "failed_deps E s n = filter (\<lambda>d. d \<in> xs_failed s) (dag_deps (xe_dag E) n)"
    unfolding failed_deps_def failed_iff [OF I] ..
  have "r \<in> set (xs_results s)" "res_Name r = n" using r final_result_iff [OF I] by auto
  then have "legit E (xs_cancelled s) (xs_failed s) r" using exec_inv_parts(8) [OF I] by simp
  then show ?thesis
    unfolding legit_def Let_def fd \<open>res_Name r = n\<close> filter_ex_iff
    by (auto simp: filter_empty_conv)
qed

lemma final_result_total:
  assumes "exec_inv E s" "exec_finished s" "\<not> xs_cancelled s" "n \<in> dag_names (xe_dag E)"
  shows "\<exists>r. final_result s n = Some r"
proof -
  have "n \<in> set (names_of (xs_results s))" using finished_all [OF assms(1-3)] assms(4) by simp
  then obtain r where "r \<in> set (xs_results s)" "res_Name r = n" by (auto simp: names_of_def)
  then show ?thesis using final_result_iff [OF assms(1)] by blast
qed

section \<open>Properties\<close>

text \<open>A stage of three steps in a chain; the first one fails.\<close>

definition chain_node :: "string \<Rightarrow> string list \<Rightarrow> dag_node" where
  "chain_node n req =
     \<lparr>node_Step = plain_step n req,
      node_Action = \<lparr>act_Name = n, act_Run = ''x'', act_Uses = [], act_Shell = [], act_Variants = []\<rparr>,
      node_Dependencies = req, node_Dependents = []\<rparr>"

definition chain_run :: "string \<Rightarrow> action_run" where
  "chain_run n =
     \<lparr>ar_events = [OnStepStart n, OnStepComplete n (if n = ''a'' then StepStatusError else StepStatusOK) [] 0],
      ar_late = [], ar_result = mk_result (if n = ''a'' then StatusError else StatusOK) [],
      ar_err = None\<rparr>"

definition chain_env :: exec_env where
  "chain_env =
     \<lparr>xe_dag = [(''a'', chain_node ''a'' []), (''b'', chain_node ''b'' [''a'']), (''c'', chain_node ''c'' [''b''])],
      xe_should = (\<lambda>_. Some True), xe_run = (\<lambda>n. Some (chain_run n)), xe_callback = True\<rparr>"

lemma chain_deps:
  "dag_deps (xe_dag chain_env) n = (if n = ''b'' then [''a''] else if n = ''c'' then [''b''] else [])"
  by (simp add: dag_deps_def chain_env_def chain_node_def)

lemma chain_names: "dag_names (xe_dag chain_env) = {''a'', ''b'', ''c''}"
  by (auto simp: dag_names_def chain_env_def)

lemma chain_graph: "graph_ok (xe_dag chain_env)"
proof -
  have "dep_edge (xe_dag chain_env) = {(''b'', ''a''), (''c'', ''b'')}"
    by (auto simp: dep_edge_def chain_deps split: if_splits)
  then have "dep_edge (xe_dag chain_env) \<subseteq> (measure (\<lambda>n. if n = ''a'' then 0 else if n = ''b'' then 1 else 2))\<inverse>"
    by auto
  moreover have "acyclic ((measure f)\<inverse>)" for f :: "string \<Rightarrow> nat"
    by (simp only: acyclic_converse wf_acyclic [OF wf_measure])
  ultimately have "acyclic (dep_edge (xe_dag chain_env))" by (rule acyclic_subset [rotated])
  then show ?thesis
    by (auto simp: graph_ok_def dag_closed_def chain_deps chain_names) (simp add: chain_env_def)
qed

lemma chain_no_panics: "no_panics chain_env"
  by (simp add: no_panics_def chain_env_def)

lemma chain_finishes:
  obtains s where "exec_reach chain_env s" "exec_finished s" "\<not> xs_cancelled s"
  using exec_can_finish [OF chain_graph chain_no_panics] by blast

text \<open>C1: At every moment of an execution each step has at most one result, and every result
  comes after the results of all steps it requires.\<close>

theorem results_once_after_dependencies:
  assumes "exec_reach E s" "distinct (map fst (xe_dag E))"
  shows "distinct (map res_Name (xs_results s))
    \<and> (\<forall>xs r ys. xs_results s = xs @ r # ys \<longrightarrow>
         set (dag_deps (xe_dag E) (res_Name r)) \<subseteq> set (map res_Name xs))"
  using exec_inv_parts(4,7) [OF exec_reach_inv [OF assms]] by (simp add: deps_first_def names_of_def)

theorem results_once_after_dependencies_witness:
  "\<exists>s. exec_reach chain_env s \<and> exec_finished s \<and> distinct (map res_Name (xs_results s))"
proof -
  obtain s where s: "exec_reach chain_env s" "exec_finished s" using chain_finishes .
  have "distinct (map fst (xe_dag chain_env))" using chain_graph by (simp add: graph_ok_def)
  from results_once_after_dependencies [OF s(1) this] s show ?thesis by blast
qed

text \<open>C2: In a run that was not cancelled every step ends with exactly the result the rules
  prescribe: skipped, naming the failed ones, if a direct dependency failed; skipped if its
  condition is false; otherwise what running its action returned.\<close>

theorem uncancelled_outcome:
  assumes "exec_reach E s" "graph_ok (xe_dag E)" "exec_finished s" "\<not> xs_cancelled s"
    and "n \<in> dag_names (xe_dag E)"
  shows "if failed_deps E s n \<noteq> [] then final_result s n = Some (skip_dep_result n (failed_deps E s n))
     else if xe_should E n = Some False then final_result s n = Some (skip_cond_result n)
     else \<exists>run. xe_run E n = Some run \<and> final_result s n = Some ((ar_result run)\<lparr>res_Name := n\<rparr>)"
proof -
  have I: "exec_inv E s" using exec_reach_inv assms(1,2) by (simp add: graph_ok_def)
  obtain r where "final_result s n = Some r" using final_result_total [OF I assms(3-5)] by blast
  with result_cases [OF I this] assms(4) show ?thesis
    by (auto simp: worker_result_def Let_def)
qed

theorem uncancelled_outcome_witness:
  "\<exists>s. exec_reach chain_env s \<and> exec_finished s
     \<and> final_result s ''a'' = Some ((mk_result StatusError [])\<lparr>res_Name := ''a''\<rparr>)"
proof -
  obtain s where s: "exec_reach chain_env s" "exec_finished s" "\<not> xs_cancelled s" using chain_finishes .
  have "failed_deps chain_env s ''a'' = []" by (simp add: failed_deps_def chain_deps)
  with uncancelled_outcome [OF s(1) chain_graph s(2,3), of "''a''"] chain_names s
  show ?thesis by (auto simp: chain_env_def chain_run_def)
qed

text \<open>Two graphs of the same stage, which may differ in the order of their nodes.\<close>

definition same_stage :: "exec_env \<Rightarrow> exec_env \<Rightarrow> bool" where
  "same_stage E F \<longleftrightarrow>
     dag_names (xe_dag E) = dag_names (xe_dag F) \<and> dag_deps (xe_dag E) = dag_deps (xe_dag F)
     \<and> xe_should E = xe_should F \<and> xe_run E = xe_run F"

lemma same_stage_refl [simp]: "same_stage E E"
  by (simp add: same_stage_def)

lemma no_final_result:
  assumes "exec_inv E s" "n \<notin> dag_names (xe_dag E)"
  shows "final_result s n = None"
proof (rule ccontr)
  assume "final_result s n \<noteq> None"
  then obtain r where "final_result s n = Some r" by blast
  then have "n \<in> set (names_of (xs_results s))"
    using final_result_iff [OF assms(1)] by (auto simp: names_of_def)
  then show False using exec_inv_parts(2,5) [OF assms(1)] assms(2) by blast
qed

lemma dep_edge_wf: "graph_ok dag \<Longrightarrow> wf ((dep_edge dag)\<inverse>)"
proof -
  assume g: "graph_ok dag"
  have "u \<in> dag_names dag \<and> v \<in> dag_names dag" if "(u, v) \<in> dep_edge dag" for u v
    using that g dep_edge_source [OF that] by (auto simp: graph_ok_def dag_closed_def dep_edge_iff)
  then have "dep_edge dag \<subseteq> dag_names dag \<times> dag_names dag" by auto
  then have "finite (dep_edge dag)" by (rule finite_subset) simp
  then show ?thesis by (rule finite_acyclic_wf_converse) (use g in \<open>simp add: graph_ok_def\<close>)
qed

lemma final_results_agree:
  assumes "graph_ok (xe_dag E)" "exec_reach E s" "exec_finished s" "\<not> xs_cancelled s"
    and "graph_ok (xe_dag F)" "exec_reach F t" "exec_finished t" "\<not> xs_cancelled t" "same_stage E F"
  shows "final_result s n = final_result t n"
proof -
  have I: "exec_inv E s" "exec_inv F t" using exec_reach_inv assms by (simp_all add: graph_ok_def)
  have same: "dag_names (xe_dag F) = dag_names (xe_dag E)" "dag_deps (xe_dag F) = dag_deps (xe_dag E)"
    "xe_should F = xe_should E" "xe_run F = xe_run E"
    using assms(9) by (simp_all add: same_stage_def)
  show ?thesis
  proof (induction n rule: wf_induct_rule [OF dep_edge_wf [OF assms(1)]])
    case (1 n)
    have "final_result s d = final_result t d" if "d \<in> set (dag_deps (xe_dag E) n)" for d
      using 1 that by (simp add: dep_edge_iff)
    then have fd: "failed_deps E s n = failed_deps F t n"
      unfolding failed_deps_def same by (intro filter_cong) auto
    show ?case
    proof (cases "n \<in> dag_names (xe_dag E)")
      case True
      obtain r where r: "final_result s n = Some r" using final_result_total [OF I(1) assms(3,4) True] by blast
      obtain q where q: "final_result t n = Some q"
        using final_result_total [OF I(2) assms(7,8)] True same(1) by blast
      from result_cases [OF I(1) r] result_cases [OF I(2) q] fd assms(4,8) r q show ?thesis
        unfolding same by auto
    next
      case False
      then show ?thesis using no_final_result I same(1) by metis
    qed
  qed
qed

text \<open>C3: The results do not depend on the schedule: any two uncancelled runs of a stage give
  every step the same result.\<close>

theorem outcome_schedule_independent:
  assumes "graph_ok (xe_dag E)" "exec_reach E s" "exec_finished s" "\<not> xs_cancelled s"
    and "exec_reach E t" "exec_finished t" "\<not> xs_cancelled t"
  shows "final_result s n = final_result t n"
  by (rule final_results_agree [OF assms(1-4,1,5-7) same_stage_refl])

theorem outcome_schedule_independent_witness:
  "\<exists>s t. exec_reach chain_env s \<and> exec_finished s \<and> exec_reach chain_env t \<and> exec_finished t
     \<and> final_result s ''b'' = final_result t ''b''"
proof -
  obtain s where s: "exec_reach chain_env s" "exec_finished s" "\<not> xs_cancelled s" using chain_finishes .
  from outcome_schedule_independent [OF chain_graph s s, of "''b''"] s show ?thesis by blast
qed

text \<open>A failure stops only the direct dependents: in a chain of three steps whose first one
  fails, the second is skipped and the third, which requires the second, is run.\<close>

theorem failure_skips_one_level:
  assumes "exec_reach chain_env s" "exec_finished s" "\<not> xs_cancelled s"
  shows "final_result s ''b'' = Some (skip_dep_result ''b'' [''a''])
     \<and> final_result s ''c'' = Some ((mk_result StatusOK [])\<lparr>res_Name := ''c''\<rparr>)"
proof -
  have I: "exec_inv chain_env s"
    using exec_reach_inv [OF assms(1)] chain_graph by (simp add: graph_ok_def)
  have rc: "\<exists>r. final_result s n = Some r" if "n \<in> {''a'', ''b'', ''c''}" for n
    using final_result_total [OF I assms(2,3), of n] that by (simp add: chain_names)
  have sh: "xe_should chain_env n = Some True" "xe_run chain_env n = Some (chain_run n)" for n
    by (simp_all add: chain_env_def)
  have fa: "failed_deps chain_env s ''a'' = []" by (simp add: failed_deps_def chain_deps)
  obtain a where a: "final_result s ''a'' = Some a" using rc by blast
  from result_cases [OF I a] fa sh assms(3) have a': "res_Status a = StatusError"
    by (auto simp: worker_result_def Let_def chain_run_def mk_result_def)
  have fb: "failed_deps chain_env s ''b'' = [''a'']" using a a' by (simp add: failed_deps_def chain_deps)
  obtain b where b: "final_result s ''b'' = Some b" using rc by blast
  from result_cases [OF I b] fb have b': "b = skip_dep_result ''b'' [''a'']" by auto
  have fc: "failed_deps chain_env s ''c'' = []"
    using b b' by (simp add: failed_deps_def chain_deps skip_dep_result_def mk_result_def)
  obtain c where c: "final_result s ''c'' = Some c" using rc by blast
  from result_cases [OF I c] fc sh assms(3) have "c = (mk_result StatusOK [])\<lparr>res_Name := ''c''\<rparr>"
    by (auto simp: worker_result_def Let_def chain_run_def)
  with b b' c show ?thesis by simp
qed

theorem failure_skips_one_level_witness:
  "\<exists>s. exec_reach chain_env s \<and> exec_finished s
     \<and> final_result s ''c'' = Some ((mk_result StatusOK [])\<lparr>res_Name := ''c''\<rparr>)"
proof -
  obtain s where s: "exec_reach chain_env s" "exec_finished s" "\<not> xs_cancelled s" using chain_finishes .
  from failure_skips_one_level [OF s] s show ?thesis by blast
qed

text \<open>C4: The executor never deadlocks: as long as a run is not finished (and no condition has
  panicked), some goroutine other than the canceller can take a step.\<close>

theorem executor_progress:
  assumes "exec_reach E s" "graph_ok (xe_dag E)" "\<not> exec_finished s" "xs_pc s \<noteq> Panicked"
  shows "\<exists>t. exec_step E s t \<and> xs_cancelled t = xs_cancelled s"
  using exec_reach_inv [OF assms(1)] assms(2) exec_progress [OF _ assms(2-4)] by (simp add: graph_ok_def)

theorem executor_progress_witness:
  "\<exists>t. exec_step chain_env exec_init t \<and> \<not> xs_cancelled t"
  using executor_progress [OF exec_reach.init chain_graph]
  by (simp add: exec_finished_def) (simp add: exec_init_def)

text \<open>C5: Every execution stops: there is no infinite sequence of steps.\<close>

theorem executor_terminates:
  assumes "distinct (map fst (xe_dag E))"
  shows "\<nexists>f. f 0 = exec_init \<and> (\<forall>i. exec_step E (f i) (f (Suc i)))"
proof
  assume "\<exists>f. f 0 = exec_init \<and> (\<forall>i. exec_step E (f i) (f (Suc i)))"
  then obtain f where f: "f 0 = exec_init" "\<And>i. exec_step E (f i) (f (Suc i))" by blast
  have reach: "exec_reach E (f i)" for i
    by (induction i) (use f in \<open>auto intro: exec_reach.intros\<close>)
  have "exec_measure E (f (Suc i)) < exec_measure E (f i)" for i
    using measure_step [OF exec_reach_inv [OF reach assms] f(2)] .
  then have "\<forall>i. (f (Suc i), f i) \<in> measure (exec_measure E)" by simp
  then show False using wf_measure [of "exec_measure E"] unfolding wf_iff_no_infinite_down_chain by blast
qed

theorem executor_terminates_witness:
  "\<nexists>f. f 0 = exec_init \<and> (\<forall>i. exec_step chain_env (f i) (f (Suc i)))"
  by (rule executor_terminates) (use chain_graph in \<open>simp add: graph_ok_def\<close>)

text \<open>What a run does after its context has been cancelled.\<close>

definition cancelled_result :: "result \<Rightarrow> bool" where
  "cancelled_result r \<longleftrightarrow>
     res_Status r = StatusError \<and> res_Message r = ''cancelled'' \<and> res_Error r = Some ContextCanceled"

lemma cancelled_step:
  assumes "exec_step E s t" "xs_cancelled s" "exec_inv E s"
  shows "xs_cancelled t" "xs_executing t \<union> xs_completed t \<subseteq> xs_executing s \<union> xs_completed s"
    "set (xs_results t) \<union> set (xs_chan t) \<subseteq> set (xs_results s) \<union> set (xs_chan s) \<union> Collect cancelled_result"
  using assms(1,2) exec_inv_parts(1) [OF assms(3)]
  by (cases; auto simp: collect_result_def worker_result_def Let_def cancelled_result_def)+

lemma cancelled_steps:
  assumes "(exec_step E)\<^sup>*\<^sup>* s t" "exec_reach E s" "xs_cancelled s" "distinct (map fst (xe_dag E))"
  shows "exec_reach E t \<and> xs_cancelled t \<and> xs_executing t \<union> xs_completed t \<subseteq> xs_executing s \<union> xs_completed s
    \<and> set (xs_results t) \<union> set (xs_chan t) \<subseteq> set (xs_results s) \<union> set (xs_chan s) \<union> Collect cancelled_result"
  using assms(1)
proof (induction rule: rtranclp_induct)
  case base
  then show ?case using assms(2,3) by blast
next
  case (step t u)
  then have "exec_inv E t" using exec_reach_inv assms(4) by blast
  from cancelled_step [OF step.hyps(2) _ this] step show ?case by (blast intro: exec_reach.step)
qed



end
