(* ===== verification/Ordered_Output.thy ===== *)
theory Ordered_Output
  imports Display
begin

text \<open>
  \<open>pkg/buildfab/ordered_output.go\<close>: the manager that receives step events from concurrent
  steps and writes them in declaration order. The state is the struct's fields; \<open>om_log\<close> is
  what was written to \<open>errorOutput\<close>, one entry per \<open>Fprintf\<close> (\<open>render\<close> gives the
  bytes). Every method runs under the manager's mutex, so a method is one atomic step.
\<close>

section \<open>State\<close>

record step_data =
  sd_Started :: bool
  sd_Completed :: bool
  sd_Shown :: bool
  sd_Status :: step_status
  sd_Message :: string
  sd_Duration :: nat
  sd_Output :: "string list"
  sd_Error :: "go_error option"

definition zero_step_data :: step_data where
  "zero_step_data =
     \<lparr>sd_Started = False, sd_Completed = False, sd_Shown = False, sd_Status = StepStatusPending,
      sd_Message = [], sd_Duration = 0, sd_Output = [], sd_Error = None\<rparr>"

datatype display =
    ShowStart string
  | ShowOutput string
  | ShowResult string step_status string
  | ShowDebug string

record out_mgr =
  om_steps :: "step list"
  om_stepData :: "(string \<times> step_data) list"
  om_currentStep :: string
  om_verbose :: bool
  om_debug :: bool
  om_config :: "config option"
  om_log :: "display list"

fun render :: "bool \<Rightarrow> display \<Rightarrow> string" where
  "render verbose (ShowStart n) = start_line verbose n"
| "render verbose (ShowOutput line) = output_line line"
| "render verbose (ShowResult n status msg) = result_line verbose n status msg"
| "render verbose (ShowDebug t) = t"

definition NewOrderedOutputManager :: "step list \<Rightarrow> bool \<Rightarrow> bool \<Rightarrow> config option \<Rightarrow> out_mgr" where
  "NewOrderedOutputManager steps verbose debug config =
     \<lparr>om_steps = steps, om_stepData = [], om_currentStep = [], om_verbose = verbose,
      om_debug = debug, om_config = config, om_log = []\<rparr>"

definition RegisterStep :: "string \<Rightarrow> out_mgr \<Rightarrow> out_mgr" where
  "RegisterStep n s = s\<lparr>om_stepData := AList.update n zero_step_data (om_stepData s)\<rparr>"

section \<open>Writing\<close>

definition emit :: "display \<Rightarrow> out_mgr \<Rightarrow> out_mgr" where
  "emit d s = s\<lparr>om_log := om_log s @ [d]\<rparr>"

definition debug_msg :: "string \<Rightarrow> out_mgr \<Rightarrow> out_mgr" where
  "debug_msg t s = (if om_debug s then emit (ShowDebug (''[DEBUG] '' @ t @ [newline])) s else s)"

definition show_bool :: "bool \<Rightarrow> string" where
  "show_bool b = (if b then ''true'' else ''false'')"

definition debugPrintState :: "out_mgr \<Rightarrow> out_mgr" where
  "debugPrintState s =
     emit (ShowDebug
       (''[DEBUG] Output Manager State:'' @ [newline]
        @ ''  Current Step: '' @ om_currentStep s @ [newline]
        @ ''  Steps in order: '' @ join_str '', '' (map step_Action (om_steps s)) @ [newline]
        @ ''  Step Data:'' @ [newline]
        @ concat (map (\<lambda>(n, d).
            ''    '' @ n @ '': started='' @ show_bool (sd_Started d)
            @ '', completed='' @ show_bool (sd_Completed d)
            @ '', status='' @ StepStatus_String (sd_Status d) @ [newline]) (om_stepData s)))) s"

text \<open>A write through the pointer \<open>o.stepData[n]\<close> where the entry exists.\<close>

definition mod_data :: "string \<Rightarrow> (step_data \<Rightarrow> step_data) \<Rightarrow> out_mgr \<Rightarrow> out_mgr" where
  "mod_data n f s =
     (case map_of (om_stepData s) n of
        None \<Rightarrow> s
      | Some d \<Rightarrow> s\<lparr>om_stepData := AList.update n (f d) (om_stepData s)\<rparr>)"

definition showStepStart :: "string \<Rightarrow> out_mgr \<Rightarrow> out_mgr" where
  "showStepStart n s = emit (ShowStart n) s"

definition showStepOutput :: "string \<Rightarrow> out_mgr \<Rightarrow> out_mgr" where
  "showStepOutput line s = (if om_verbose s then emit (ShowOutput line) s else s)"

text \<open>It returns the name it was asked about whenever some step has failed.\<close>

definition Ordered_extractFailedDependency :: "out_mgr \<Rightarrow> string \<Rightarrow> string" where
  "Ordered_extractFailedDependency s n =
     (if \<exists>d \<in> set (om_stepData s). sd_Status (snd d) = StepStatusError then n else [])"

definition showStepResult :: "string \<Rightarrow> step_status \<Rightarrow> string \<Rightarrow> nat \<Rightarrow> out_mgr \<Rightarrow> out_mgr" where
  "showStepResult n status message duration s =
     emit (ShowResult n status
       (Ordered_enhanceMessage (om_config s) (Ordered_extractFailedDependency s n) n status message
        @ formatExecutionTime status duration)) s"

definition showStepCompletion :: "string \<Rightarrow> out_mgr \<Rightarrow> out_mgr" where
  "showStepCompletion n s =
     (case map_of (om_stepData s) n of
        None \<Rightarrow> s
      | Some d \<Rightarrow> showStepResult n (sd_Status d) (sd_Message d) (sd_Duration d) s)"

definition flushBufferedOutput :: "string \<Rightarrow> out_mgr \<Rightarrow> out_mgr" where
  "flushBufferedOutput n s =
     (case map_of (om_stepData s) n of
        None \<Rightarrow> s
      | Some d \<Rightarrow> mod_data n (sd_Output_update (\<lambda>_. [])) (fold showStepOutput (sd_Output d) s))"

section \<open>Ordering\<close>

definition step_index :: "step list \<Rightarrow> string \<Rightarrow> nat option" where
  "step_index steps n =
     (if n \<in> step_Action ` set steps
      then Some (length (takeWhile (\<lambda>st. step_Action st \<noteq> n) steps)) else None)"

definition completed_in :: "out_mgr \<Rightarrow> string \<Rightarrow> bool" where
  "completed_in s n = (case map_of (om_stepData s) n of None \<Rightarrow> False | Some d \<Rightarrow> sd_Completed d)"

definition shown_in :: "out_mgr \<Rightarrow> string \<Rightarrow> bool" where
  "shown_in s n = (case map_of (om_stepData s) n of None \<Rightarrow> False | Some d \<Rightarrow> sd_Shown d)"

definition started_in :: "out_mgr \<Rightarrow> string \<Rightarrow> bool" where
  "started_in s n = (case map_of (om_stepData s) n of None \<Rightarrow> False | Some d \<Rightarrow> sd_Started d)"

definition canShowStepStart :: "string \<Rightarrow> out_mgr \<Rightarrow> bool \<times> out_mgr" where
  "canShowStepStart n s =
     (case step_index (om_steps s) n of
        None \<Rightarrow> (False, debug_msg (''canShowStepStart: step '' @ n @ '' not found in steps'') s)
      | Some i \<Rightarrow>
          if i = 0
          then (True, debug_msg (''canShowStepStart: '' @ n @ '' is first step, can show start'') s)
          else (case find (\<lambda>p. \<not> completed_in s p) (map step_Action (take i (om_steps s))) of
                  Some p \<Rightarrow>
                    (False, debug_msg (''canShowStepStart: '' @ n
                        @ '' cannot show start, previous step '' @ p @ '' not completed (exists: ''
                        @ show_bool (map_of (om_stepData s) p \<noteq> None) @ '', completed: ''
                        @ show_bool (completed_in s p) @ '')'') s)
                | None \<Rightarrow>
                    (True, debug_msg (''canShowStepStart: '' @ n
                        @ '' can show start, all previous steps completed'') s)))"

text \<open>The body of the loop of \<open>checkAndShowCompletedSteps\<close> for one step.\<close>

definition showCompletedStep :: "string \<Rightarrow> out_mgr \<Rightarrow> out_mgr" where
  "showCompletedStep n s =
     (if completed_in s n \<and> \<not> shown_in s n
         \<and> (\<forall>st \<in> set (takeWhile (\<lambda>st. step_Action st \<noteq> n) (om_steps s)).
              completed_in s (step_Action st) \<and> shown_in s (step_Action st))
      then (showStepCompletion n
             (flushBufferedOutput n
               ((mod_data n (sd_Shown_update (\<lambda>_. True))
                 (showStepStart n
                   (debug_msg (''checkAndShowCompletedSteps: showing completed step: '' @ n) s)))
                 \<lparr>om_currentStep := n\<rparr>)))
           \<lparr>om_currentStep := []\<rparr>
      else s)"

definition checkAndShowCompletedSteps :: "out_mgr \<Rightarrow> out_mgr" where
  "checkAndShowCompletedSteps s =
     fold (\<lambda>st. showCompletedStep (step_Action st)) (om_steps s)
       (debug_msg ''checkAndShowCompletedSteps: checking for completed steps to show'' s)"

text \<open>The loop of \<open>checkAndShowNextStep\<close>: it stops at the first step it shows.\<close>

fun showNextLoop :: "step list \<Rightarrow> out_mgr \<Rightarrow> out_mgr" where
  "showNextLoop [] s = s"
| "showNextLoop (st # sts) s =
     (let n = step_Action st
      in if started_in s n \<and> \<not> completed_in s n \<and> \<not> shown_in s n
         then (case canShowStepStart n s of
                 (True, s1) \<Rightarrow>
                   flushBufferedOutput n
                     ((mod_data n (sd_Shown_update (\<lambda>_. True))
                       (showStepStart n
                         (debug_msg (''checkAndShowNextStep: showing next step: '' @ n) s1)))
                       \<lparr>om_currentStep := n\<rparr>)
               | (False, s1) \<Rightarrow> showNextLoop sts s1)
         else showNextLoop sts s)"

definition checkAndShowNextStep :: "out_mgr \<Rightarrow> out_mgr" where
  "checkAndShowNextStep s =
     showNextLoop (om_steps s)
       (debug_msg ''checkAndShowNextStep: checking for next step to show'' s)"

section \<open>The callbacks\<close>

text \<open>
  \<open>OnStepStart\<close> reads \<open>o.stepData[stepName].Shown\<close> without the check the other methods
  make: for a step of the stage that was never registered that is a nil pointer, \<open>None\<close>
  here.
\<close>

definition Manager_OnStepStart :: "string \<Rightarrow> out_mgr \<Rightarrow> out_mgr option" where
  "Manager_OnStepStart n s =
     (let s1 = (if om_debug s then debugPrintState (debug_msg (''OnStepStart: '' @ n) s) else s);
          s2 = mod_data n (sd_Started_update (\<lambda>_. True)) s1
      in case canShowStepStart n s2 of
           (can, s3) \<Rightarrow>
             if can \<and> map_of (om_stepData s3) n = None then None
             else if can \<and> \<not> shown_in s3 n
             then Some ((mod_data n (sd_Shown_update (\<lambda>_. True))
                     (showStepStart n (debug_msg (''Showing step start for: '' @ n) s3)))
                   \<lparr>om_currentStep := n\<rparr>)
             else Some (debug_msg
                     (''Cannot show step start for: '' @ n @ '' (not ready or already shown)'') s3))"

definition Manager_OnStepComplete ::
  "string \<Rightarrow> step_status \<Rightarrow> string \<Rightarrow> nat \<Rightarrow> out_mgr \<Rightarrow> out_mgr" where
  "Manager_OnStepComplete n status message duration s =
     (let s1 = (if om_debug s
                then debugPrintState (debug_msg (''OnStepComplete: '' @ n @ '' (status: ''
                       @ StepStatus_String status @ '')'') s)
                else s);
          s2 = mod_data n
                 (\<lambda>d. d\<lparr>sd_Completed := True, sd_Status := status, sd_Message := message,
                          sd_Duration := duration\<rparr>) s1;
          s3 = (if om_currentStep s2 = n
                then (showStepCompletion n
                       (debug_msg (''Showing step completion for: '' @ n) s2))
                     \<lparr>om_currentStep := []\<rparr>
                else s2)
      in checkAndShowNextStep (checkAndShowCompletedSteps s3))"

definition Manager_OnStepOutput :: "string \<Rightarrow> string \<Rightarrow> out_mgr \<Rightarrow> out_mgr" where
  "Manager_OnStepOutput n line s =
     (let s1 = mod_data n (\<lambda>d. d\<lparr>sd_Output := sd_Output d @ [line]\<rparr>) s
      in if om_currentStep s1 = n then showStepOutput line s1 else s1)"

definition Manager_OnStepError :: "string \<Rightarrow> go_error \<Rightarrow> out_mgr \<Rightarrow> out_mgr" where
  "Manager_OnStepError n err s = mod_data n (sd_Error_update (\<lambda>_. Some err)) s"

fun Manager_event :: "cb_event \<Rightarrow> out_mgr \<Rightarrow> out_mgr option" where
  "Manager_event (OnStepStart n) s = Manager_OnStepStart n s"
| "Manager_event (OnStepComplete n status message duration) s =
     Some (Manager_OnStepComplete n status message duration s)"
| "Manager_event (OnStepOutput n line) s = Some (Manager_OnStepOutput n line s)"
| "Manager_event (OnStepError n err) s = Some (Manager_OnStepError n err s)"

fun Manager_run :: "cb_event list \<Rightarrow> out_mgr \<Rightarrow> out_mgr option" where
  "Manager_run [] s = Some s"
| "Manager_run (e # es) s =
     (case Manager_event e s of None \<Rightarrow> None | Some s' \<Rightarrow> Manager_run es s')"

section \<open>The callback object\<close>

record ordered_cb =
  oc_manager :: out_mgr
  oc_results :: "step_result list"

definition NewOrderedStepCallback :: "step list \<Rightarrow> bool \<Rightarrow> bool \<Rightarrow> config option \<Rightarrow> ordered_cb" where
  "NewOrderedStepCallback steps verbose debug config =
     \<lparr>oc_manager = fold (\<lambda>st. RegisterStep (step_Action st)) steps
                     (NewOrderedOutputManager steps verbose debug config),
      oc_results = []\<rparr>"

definition mk_step_result :: "string \<Rightarrow> step_status \<Rightarrow> nat \<Rightarrow> step_result" where
  "mk_step_result n status duration =
     \<lparr>sr_StepName = n, sr_ActionName = [], sr_Status = status, sr_Duration = duration,
      sr_Output = [], sr_Error = None\<rparr>"

fun Ordered_event :: "cb_event \<Rightarrow> ordered_cb \<Rightarrow> ordered_cb option" where
  "Ordered_event e c =
     (case Manager_event e (oc_manager c) of
        None \<Rightarrow> None
      | Some m \<Rightarrow>
          Some (case e of
                  OnStepComplete n status message duration \<Rightarrow>
                    c\<lparr>oc_manager := m,
                      oc_results := oc_results c @ [mk_step_result n status duration]\<rparr>
                | _ \<Rightarrow> c\<lparr>oc_manager := m\<rparr>))"

definition Ordered_GetResults :: "ordered_cb \<Rightarrow> step_result list" where
  "Ordered_GetResults c = oc_results c"

end
