(* ===== verification/Ordered_Correct.thy ===== *)
theory Ordered_Correct
  imports Ordered_Output
begin

text \<open>
  What the manager of \<open>ordered_output.go\<close> promises, and that it keeps it: whatever order
  the events of concurrent steps arrive in, the screen is one block per step in declaration
  order (\<open>spec_display\<close>). The proof is a simulation: \<open>ord_inv\<close> relates the manager's
  state to the specification's, and one lemma per callback keeps it.
\<close>

section \<open>The specification: one block per step, in declaration order\<close>

text \<open>
  \<open>wf_events\<close> is what a stage run sends: a step of the stage starts at most once and before
  it completes, completes at most once, and only a started step sends output. Output may
  arrive after the step completed: the scanner goroutines of a command are not waited for.
\<close>

fun wf_events :: "string set \<Rightarrow> string set \<Rightarrow> string set \<Rightarrow> cb_event list \<Rightarrow> bool" where
  "wf_events N S C [] = True"
| "wf_events N S C (OnStepStart n # es) =
     (n \<in> N \<and> n \<notin> S \<and> n \<notin> C \<and> wf_events N (insert n S) C es)"
| "wf_events N S C (OnStepComplete n status message duration # es) =
     (n \<in> N \<and> n \<notin> C \<and> wf_events N S (insert n C) es)"
| "wf_events N S C (OnStepOutput n line # es) = (n \<in> S \<and> wf_events N S C es)"
| "wf_events N S C (OnStepError n err # es) = wf_events N S C es"

record spec_state =
  sp_started :: "string set"
  sp_status :: "string \<Rightarrow> step_status option"
  sp_lines :: "string \<Rightarrow> string list"

definition spec_init :: spec_state where
  "spec_init = \<lparr>sp_started = {}, sp_status = (\<lambda>_. None), sp_lines = (\<lambda>_. [])\<rparr>"

text \<open>
  A step's block is closed once it and all steps before it have completed; a line that comes
  later is not shown.
\<close>

definition block_closed :: "string list \<Rightarrow> spec_state \<Rightarrow> string \<Rightarrow> bool" where
  "block_closed names a n =
     (sp_status a n \<noteq> None \<and> (\<forall>m \<in> set (takeWhile (\<lambda>m. m \<noteq> n) names). sp_status a m \<noteq> None))"

fun spec_event :: "string list \<Rightarrow> cb_event \<Rightarrow> spec_state \<Rightarrow> spec_state" where
  "spec_event names (OnStepStart n) a = a\<lparr>sp_started := insert n (sp_started a)\<rparr>"
| "spec_event names (OnStepComplete n status message duration) a =
     a\<lparr>sp_status := (sp_status a)(n := Some status)\<rparr>"
| "spec_event names (OnStepOutput n line) a =
     (if block_closed names a n then a
      else a\<lparr>sp_lines := (sp_lines a)(n := sp_lines a n @ [line])\<rparr>)"
| "spec_event names (OnStepError n err) a = a"

definition spec_run :: "string list \<Rightarrow> cb_event list \<Rightarrow> spec_state \<Rightarrow> spec_state" where
  "spec_run names es a = fold (spec_event names) es a"

definition shown_lines :: "bool \<Rightarrow> spec_state \<Rightarrow> string \<Rightarrow> display list" where
  "shown_lines v a n = (if v then map ShowOutput (sp_lines a n) else [])"

definition step_block :: "bool \<Rightarrow> spec_state \<Rightarrow> string \<Rightarrow> display list" where
  "step_block v a n =
     ShowStart n # shown_lines v a n @ [ShowResult n (the (sp_status a n)) []]"

text \<open>What is on the screen: the blocks of the completed steps up to the first step that is
  not completed, and the beginning of that step's block if it has started.\<close>

fun spec_display :: "bool \<Rightarrow> spec_state \<Rightarrow> string list \<Rightarrow> display list" where
  "spec_display v a [] = []"
| "spec_display v a (n # ns) =
     (if sp_status a n \<noteq> None then step_block v a n @ spec_display v a ns
      else if n \<in> sp_started a then ShowStart n # shown_lines v a n else [])"

text \<open>The manager's log without debug lines and without the text of the results.\<close>

fun shape :: "display \<Rightarrow> display list" where
  "shape (ShowStart n) = [ShowStart n]"
| "shape (ShowOutput line) = [ShowOutput line]"
| "shape (ShowResult n status msg) = [ShowResult n status []]"
| "shape (ShowDebug t) = []"

definition visible :: "out_mgr \<Rightarrow> display list" where
  "visible s = concat (map shape (om_log s))"

definition step_names :: "out_mgr \<Rightarrow> string list" where
  "step_names s = map step_Action (om_steps s)"

section \<open>Frame lemmas\<close>

abbreviation data_of :: "out_mgr \<Rightarrow> string \<Rightarrow> step_data option" where
  "data_of s n \<equiv> map_of (om_stepData s) n"

lemma emit_frame [simp]:
  "om_steps (emit d s) = om_steps s" "om_stepData (emit d s) = om_stepData s"
  "om_currentStep (emit d s) = om_currentStep s" "om_verbose (emit d s) = om_verbose s"
  "om_debug (emit d s) = om_debug s" "visible (emit d s) = visible s @ shape d"
  by (simp_all add: emit_def visible_def)

lemma debug_msg_frame [simp]:
  "om_steps (debug_msg t s) = om_steps s" "om_stepData (debug_msg t s) = om_stepData s"
  "om_currentStep (debug_msg t s) = om_currentStep s" "om_verbose (debug_msg t s) = om_verbose s"
  "visible (debug_msg t s) = visible s"
  by (simp_all add: debug_msg_def)

lemma debugPrintState_frame [simp]:
  "om_steps (debugPrintState s) = om_steps s" "om_stepData (debugPrintState s) = om_stepData s"
  "om_currentStep (debugPrintState s) = om_currentStep s"
  "om_verbose (debugPrintState s) = om_verbose s" "visible (debugPrintState s) = visible s"
  by (simp_all add: debugPrintState_def)

lemma mod_data_frame [simp]:
  "om_steps (mod_data n f s) = om_steps s" "om_currentStep (mod_data n f s) = om_currentStep s"
  "om_verbose (mod_data n f s) = om_verbose s" "visible (mod_data n f s) = visible s"
  "data_of (mod_data n f s) m = (if m = n then map_option f (data_of s n) else data_of s m)"
  by (auto simp: mod_data_def visible_def split: option.split)

lemma current_update_frame [simp]:
  "visible (s\<lparr>om_currentStep := x\<rparr>) = visible s"
  by (simp add: visible_def)

lemma showStepStart_frame [simp]:
  "om_steps (showStepStart n s) = om_steps s" "om_stepData (showStepStart n s) = om_stepData s"
  "om_currentStep (showStepStart n s) = om_currentStep s"
  "om_verbose (showStepStart n s) = om_verbose s"
  "visible (showStepStart n s) = visible s @ [ShowStart n]"
  by (simp_all add: showStepStart_def)

lemma showStepOutput_frame [simp]:
  "om_steps (showStepOutput l s) = om_steps s" "om_stepData (showStepOutput l s) = om_stepData s"
  "om_currentStep (showStepOutput l s) = om_currentStep s"
  "om_verbose (showStepOutput l s) = om_verbose s"
  "visible (showStepOutput l s) = visible s @ (if om_verbose s then [ShowOutput l] else [])"
  by (simp_all add: showStepOutput_def)

lemma fold_showStepOutput [simp]:
  "om_steps (fold showStepOutput ls s) = om_steps s"
  "om_stepData (fold showStepOutput ls s) = om_stepData s"
  "om_currentStep (fold showStepOutput ls s) = om_currentStep s"
  "om_verbose (fold showStepOutput ls s) = om_verbose s"
  "visible (fold showStepOutput ls s)
     = visible s @ (if om_verbose s then map ShowOutput ls else [])"
  by (induction ls arbitrary: s) auto

lemma flush_frame [simp]:
  "om_steps (flushBufferedOutput n s) = om_steps s"
  "om_currentStep (flushBufferedOutput n s) = om_currentStep s"
  "om_verbose (flushBufferedOutput n s) = om_verbose s"
  "data_of (flushBufferedOutput n s) m
     = (if m = n then map_option (sd_Output_update (\<lambda>_. [])) (data_of s n) else data_of s m)"
  "visible (flushBufferedOutput n s) = visible s @
     (case data_of s n of
        None \<Rightarrow> [] | Some d \<Rightarrow> if om_verbose s then map ShowOutput (sd_Output d) else [])"
  by (auto simp: flushBufferedOutput_def split: option.split)

lemma showStepCompletion_frame [simp]:
  "om_steps (showStepCompletion n s) = om_steps s"
  "om_stepData (showStepCompletion n s) = om_stepData s"
  "om_currentStep (showStepCompletion n s) = om_currentStep s"
  "om_verbose (showStepCompletion n s) = om_verbose s"
  "visible (showStepCompletion n s) = visible s @
     (case data_of s n of None \<Rightarrow> [] | Some d \<Rightarrow> [ShowResult n (sd_Status d) []])"
  by (auto simp: showStepCompletion_def showStepResult_def split: option.split)


lemmas flags = completed_in_def shown_in_def started_in_def

text \<open>The test of \<open>canShowStepStart\<close>.\<close>

lemma takeWhile_names:
  "map step_Action (takeWhile (\<lambda>st. step_Action st \<noteq> n) steps)
     = takeWhile (\<lambda>m. m \<noteq> n) (map step_Action steps)"
  by (simp add: takeWhile_map comp_def)

definition before :: "out_mgr \<Rightarrow> string \<Rightarrow> string list" where
  "before s n = takeWhile (\<lambda>m. m \<noteq> n) (step_names s)"

lemma before_take:
  "map step_Action (take (length (takeWhile (\<lambda>st. step_Action st \<noteq> n) (om_steps s))) (om_steps s))
     = before s n"
  by (simp add: before_def step_names_def takeWhile_names [symmetric] takeWhile_eq_take [symmetric])

lemma canShow_fst:
  "fst (canShowStepStart n s) =
     (n \<in> set (step_names s) \<and> (\<forall>m \<in> set (before s n). completed_in s m))"
proof (cases "n \<in> set (step_names s)")
  case False
  then show ?thesis by (auto simp: canShowStepStart_def step_index_def step_names_def)
next
  case True
  let ?i = "length (takeWhile (\<lambda>st. step_Action st \<noteq> n) (om_steps s))"
  from True have i: "step_index (om_steps s) n = Some ?i"
    by (auto simp: step_index_def step_names_def)
  have zero: "?i = 0 \<Longrightarrow> before s n = []"
    by (metis before_take list.map_disc_iff take_0)
  show ?thesis
  proof (cases "find (\<lambda>p. \<not> completed_in s p) (before s n)")
    case None
    then have "\<forall>m \<in> set (before s n). completed_in s m" by (auto simp: find_None_iff)
    with None show ?thesis using True i by (simp add: canShowStepStart_def before_take)
  next
    case (Some p)
    then have "p \<in> set (before s n)" "\<not> completed_in s p"
      by (auto simp: find_Some_iff)
    moreover from this have "?i \<noteq> 0" using zero by auto
    ultimately show ?thesis using True i Some
      by (auto simp only: canShowStepStart_def before_take option.case if_False fst_conv)
  qed
qed

lemma canShow_snd [simp]:
  "om_steps (snd (canShowStepStart n s)) = om_steps s"
  "om_stepData (snd (canShowStepStart n s)) = om_stepData s"
  "om_currentStep (snd (canShowStepStart n s)) = om_currentStep s"
  "om_verbose (snd (canShowStepStart n s)) = om_verbose s"
  "visible (snd (canShowStepStart n s)) = visible s"
  by (simp_all add: canShowStepStart_def split: option.split)


lemma takeWhile_split: "n \<notin> set pre \<Longrightarrow> takeWhile (\<lambda>m. m \<noteq> n) (pre @ n # post) = pre"
  by (induction pre) auto

lemma takeWhile_mid: "n \<notin> set pre \<Longrightarrow> h \<noteq> n \<Longrightarrow> h \<in> set (takeWhile (\<lambda>m. m \<noteq> n) (pre @ h # rest))"
  by (induction pre) auto

lemma before_append:
  "step_names s = pre @ n # post \<Longrightarrow> n \<notin> set pre \<Longrightarrow> before s n = pre"
  unfolding before_def by (simp only: takeWhile_split simp_thms)

lemma ball_before:
  "(\<forall>st \<in> set (takeWhile (\<lambda>st. step_Action st \<noteq> n) (om_steps s)). P (step_Action st))
     \<longleftrightarrow> (\<forall>m \<in> set (before s n). P m)"
proof -
  have "set (before s n) = step_Action ` set (takeWhile (\<lambda>st. step_Action st \<noteq> n) (om_steps s))"
    by (metis before_def step_names_def takeWhile_names list.set_map)
  then show ?thesis by simp
qed

lemma showCompletedStep_iff:
  "showCompletedStep n s =
     (if completed_in s n \<and> \<not> shown_in s n \<and> (\<forall>m \<in> set (before s n). completed_in s m \<and> shown_in s m)
      then (showStepCompletion n
             (flushBufferedOutput n
               ((mod_data n (sd_Shown_update (\<lambda>_. True))
                 (showStepStart n
                   (debug_msg (''checkAndShowCompletedSteps: showing completed step: '' @ n) s)))
                 \<lparr>om_currentStep := n\<rparr>)))
           \<lparr>om_currentStep := []\<rparr>
      else s)"
  unfolding showCompletedStep_def ball_before [of n s "\<lambda>m. completed_in s m \<and> shown_in s m"] ..

lemma showCompletedStep_noop:
  "shown_in s n \<or> \<not> completed_in s n \<or> (\<exists>m \<in> set (before s n). \<not> completed_in s m)
     \<Longrightarrow> showCompletedStep n s = s"
  unfolding showCompletedStep_iff by (rule if_not_P) blast

lemma showCompletedStep_shows:
  assumes "data_of s n = Some d" "sd_Completed d" "\<not> sd_Shown d"
    and "\<forall>m \<in> set (before s n). completed_in s m \<and> shown_in s m"
  shows "om_steps (showCompletedStep n s) = om_steps s"
    and "om_verbose (showCompletedStep n s) = om_verbose s"
    and "om_currentStep (showCompletedStep n s) = []"
    and "data_of (showCompletedStep n s) m =
           (if m = n then Some (d\<lparr>sd_Shown := True, sd_Output := []\<rparr>) else data_of s m)"
    and "visible (showCompletedStep n s) = visible s @ ShowStart n
           # (if om_verbose s then map ShowOutput (sd_Output d) else []) @ [ShowResult n (sd_Status d) []]"
proof -
  have "completed_in s n \<and> \<not> shown_in s n \<and> (\<forall>m \<in> set (before s n). completed_in s m \<and> shown_in s m)"
    using assms by (simp add: flags)
  then have eq: "showCompletedStep n s = (showStepCompletion n
             (flushBufferedOutput n
               ((mod_data n (sd_Shown_update (\<lambda>_. True))
                 (showStepStart n
                   (debug_msg (''checkAndShowCompletedSteps: showing completed step: '' @ n) s)))
                 \<lparr>om_currentStep := n\<rparr>)))
           \<lparr>om_currentStep := []\<rparr>"
    unfolding showCompletedStep_iff by (rule if_P)
  show "om_steps (showCompletedStep n s) = om_steps s"
    "om_verbose (showCompletedStep n s) = om_verbose s"
    "om_currentStep (showCompletedStep n s) = []"
    "data_of (showCompletedStep n s) m =
           (if m = n then Some (d\<lparr>sd_Shown := True, sd_Output := []\<rparr>) else data_of s m)"
    "visible (showCompletedStep n s) = visible s @ ShowStart n
           # (if om_verbose s then map ShowOutput (sd_Output d) else []) @ [ShowResult n (sd_Status d) []]"
    using assms(1) by (simp_all add: eq)
qed

section \<open>The simulation\<close>

definition data_ok :: "string list \<Rightarrow> out_mgr \<Rightarrow> spec_state \<Rightarrow> bool" where
  "data_ok names s a =
     (\<forall>n \<in> set names. \<exists>d. data_of s n = Some d
        \<and> sd_Started d = (n \<in> sp_started a)
        \<and> sd_Completed d = (sp_status a n \<noteq> None)
        \<and> (\<forall>st. sp_status a n = Some st \<longrightarrow> sd_Status d = st)
        \<and> (\<not> sd_Shown d \<longrightarrow> sd_Output d = sp_lines a n))"

lemma data_okD:
  "data_ok names s a \<Longrightarrow> n \<in> set names \<Longrightarrow> \<exists>d. data_of s n = Some d
        \<and> sd_Started d = (n \<in> sp_started a)
        \<and> sd_Completed d = (sp_status a n \<noteq> None)
        \<and> (\<forall>st. sp_status a n = Some st \<longrightarrow> sd_Status d = st)
        \<and> (\<not> sd_Shown d \<longrightarrow> sd_Output d = sp_lines a n)"
  by (simp add: data_ok_def)

lemma data_ok_flags:
  assumes "data_ok names s a" "n \<in> set names"
  shows "completed_in s n = (sp_status a n \<noteq> None)" "started_in s n = (n \<in> sp_started a)"
  using data_okD [OF assms] by (auto simp: flags)

lemma data_ok_shown:
  assumes "data_ok names s a" "data_of s n = Some d"
    and "\<And>m. data_of t m =
      (if m = n then Some (d\<lparr>sd_Shown := True, sd_Output := x\<rparr>) else data_of s m)"
  shows "data_ok names t a"
  unfolding data_ok_def
proof
  fix m assume "m \<in> set names"
  from data_okD [OF assms(1) this] assms(2,3)
  show "\<exists>d. data_of t m = Some d
        \<and> sd_Started d = (m \<in> sp_started a)
        \<and> sd_Completed d = (sp_status a m \<noteq> None)
        \<and> (\<forall>st. sp_status a m = Some st \<longrightarrow> sd_Status d = st)
        \<and> (\<not> sd_Shown d \<longrightarrow> sd_Output d = sp_lines a m)"
    by (cases "m = n") auto
qed

text \<open>
  \<open>done_upto s a pre post\<close>: the steps of \<open>pre\<close> are complete and on the screen, those of
  \<open>post\<close> are not on the screen.
\<close>

definition done_upto :: "out_mgr \<Rightarrow> spec_state \<Rightarrow> string list \<Rightarrow> string list \<Rightarrow> bool" where
  "done_upto s a pre post =
     (step_names s = pre @ post \<and> distinct (pre @ post) \<and> data_ok (pre @ post) s a
      \<and> (\<forall>n \<in> set pre. sp_status a n \<noteq> None \<and> shown_in s n)
      \<and> (\<forall>n \<in> set post. \<not> shown_in s n)
      \<and> om_currentStep s = [] \<and> visible s = concat (map (step_block (om_verbose s) a) pre))"

lemma showCompletedStep_done:
  assumes "done_upto s a pre (n # post)" "sp_status a n \<noteq> None"
  shows "done_upto (showCompletedStep n s) a (pre @ [n]) post
         \<and> om_verbose (showCompletedStep n s) = om_verbose s
         \<and> om_steps (showCompletedStep n s) = om_steps s"
proof -
  from assms have ok: "data_ok (pre @ n # post) s a" and names: "step_names s = pre @ n # post"
    and dist: "distinct (pre @ n # post)" by (auto simp: done_upto_def)
  obtain d where d: "data_of s n = Some d" "sd_Completed d" "sd_Status d = the (sp_status a n)"
      "\<not> sd_Shown d" "sd_Output d = sp_lines a n"
    using data_okD [OF ok, of n] assms by (auto simp: done_upto_def flags)
  have "\<forall>m \<in> set (before s n). completed_in s m \<and> shown_in s m"
    using assms ok before_append [OF names] dist
    by (auto simp: done_upto_def data_ok_flags [OF ok])
  note S = showCompletedStep_shows [OF d(1,2,4) this]
  have "data_ok (pre @ n # post) (showCompletedStep n s) a"
    using data_ok_shown [OF ok d(1) S(4)] .
  moreover have "shown_in (showCompletedStep n s) m = (m = n \<or> shown_in s m)" for m
    by (simp add: flags S(4))
  moreover have "step_names (showCompletedStep n s) = step_names s"
    by (simp add: step_names_def S(1))
  ultimately show ?thesis
    using assms dist S(2,3,5) d by (auto simp: done_upto_def step_block_def shown_lines_def S(1))
qed

fun head_open :: "spec_state \<Rightarrow> string list \<Rightarrow> bool" where
  "head_open a [] = True"
| "head_open a (n # ns) = (sp_status a n = None)"

lemma fold_noop: "(\<And>x. x \<in> set xs \<Longrightarrow> f x s = s) \<Longrightarrow> fold f xs s = s"
  by (induction xs) auto

lemma completed_loop_post:
  "done_upto s a pre post \<Longrightarrow>
   \<exists>pre' post'. done_upto (fold showCompletedStep post s) a pre' post' \<and> pre' @ post' = pre @ post
      \<and> head_open a post'
      \<and> om_verbose (fold showCompletedStep post s) = om_verbose s
      \<and> om_steps (fold showCompletedStep post s) = om_steps s"
proof (induction post arbitrary: s pre)
  case Nil
  then show ?case by (intro exI [of _ pre] exI [of _ "[]"]) simp
next
  case (Cons n post)
  show ?case
  proof (cases "sp_status a n = None")
    case True
    have names: "step_names s = pre @ n # post" and dist: "distinct (pre @ n # post)"
      and ok: "data_ok (pre @ n # post) s a" using Cons.prems by (auto simp: done_upto_def)
    have n: "\<not> completed_in s n" using True by (simp add: data_ok_flags [OF ok])
    have "showCompletedStep m s = s" if "m \<in> set (n # post)" for m
    proof (cases "m = n")
      case False
      then have "n \<in> set (before s m)" using that dist names
        by (auto simp: before_def takeWhile_append)
      with n show ?thesis by (auto intro: showCompletedStep_noop)
    qed (use n in \<open>auto intro: showCompletedStep_noop\<close>)
    then have "fold showCompletedStep (n # post) s = s" by (intro fold_noop) simp
    with Cons.prems True show ?thesis
      by (intro exI [of _ pre] exI [of _ "n # post"]) simp
  next
    case False
    note S = showCompletedStep_done [OF Cons.prems False]
    from Cons.IH [of "showCompletedStep n s" "pre @ [n]"] S show ?thesis by auto
  qed
qed

lemma completed_loop:
  assumes "done_upto s a pre post"
  shows "\<exists>pre' post'. done_upto (checkAndShowCompletedSteps s) a pre' post'
      \<and> pre' @ post' = pre @ post \<and> head_open a post'
      \<and> om_verbose (checkAndShowCompletedSteps s) = om_verbose s
      \<and> om_steps (checkAndShowCompletedSteps s) = om_steps s"
proof -
  let ?s = "debug_msg ''checkAndShowCompletedSteps: checking for completed steps to show'' s"
  have d: "done_upto ?s a pre post"
    using assms by (simp add: done_upto_def step_names_def data_ok_def flags)
  have "fold showCompletedStep pre ?s = ?s"
    using d by (intro fold_noop showCompletedStep_noop) (auto simp: done_upto_def)
  moreover have "checkAndShowCompletedSteps s = fold showCompletedStep (step_names ?s) ?s"
    by (simp add: checkAndShowCompletedSteps_def step_names_def fold_map comp_def)
  moreover have "step_names ?s = pre @ post" using d by (simp add: done_upto_def)
  ultimately have "checkAndShowCompletedSteps s = fold showCompletedStep post ?s" by simp
  with completed_loop_post [OF d] show ?thesis by simp
qed


text \<open>The invariant between two events.\<close>

definition cur_step :: "spec_state \<Rightarrow> string list \<Rightarrow> string option" where
  "cur_step a post = (case post of [] \<Rightarrow> None | n # _ \<Rightarrow> if n \<in> sp_started a then Some n else None)"

definition ord_inv :: "out_mgr \<Rightarrow> spec_state \<Rightarrow> string list \<Rightarrow> string list \<Rightarrow> bool" where
  "ord_inv s a pre post =
     (step_names s = pre @ post \<and> distinct (pre @ post) \<and> [] \<notin> set (pre @ post)
      \<and> data_ok (pre @ post) s a
      \<and> (\<forall>n \<in> set pre. sp_status a n \<noteq> None \<and> shown_in s n) \<and> head_open a post
      \<and> (\<forall>n \<in> set post. shown_in s n = (cur_step a post = Some n))
      \<and> (\<forall>n \<in> set (pre @ post). n \<notin> sp_started a \<longrightarrow> sp_lines a n = [])
      \<and> om_currentStep s = (case cur_step a post of None \<Rightarrow> [] | Some n \<Rightarrow> n)
      \<and> visible s = concat (map (step_block (om_verbose s) a) pre) @
          (case cur_step a post of None \<Rightarrow> []
           | Some n \<Rightarrow> ShowStart n # shown_lines (om_verbose s) a n))"

lemma showNext_skip:
  "\<forall>st \<in> set sts. completed_in s (step_Action st) \<Longrightarrow> showNextLoop (sts @ sts') s = showNextLoop sts' s"
  by (induction sts) (auto simp: Let_def)

lemma showNext_blocked:
  assumes "\<not> completed_in s n"
  shows "\<forall>st \<in> set sts. n \<in> set (before s (step_Action st)) \<Longrightarrow>
     step_names s = ns \<Longrightarrow>
     om_steps (showNextLoop sts s) = om_steps s \<and> om_stepData (showNextLoop sts s) = om_stepData s
      \<and> om_currentStep (showNextLoop sts s) = om_currentStep s
      \<and> om_verbose (showNextLoop sts s) = om_verbose s
      \<and> visible (showNextLoop sts s) = visible s"
  using assms
proof (induction sts arbitrary: s)
  case (Cons st sts)
  let ?m = "step_Action st"
  have no: "\<not> fst (canShowStepStart ?m s)" using Cons.prems by (auto simp: canShow_fst)
  obtain s1 where s1: "canShowStepStart ?m s = (False, s1)"
    using no by (metis (full_types) prod.collapse)
  have f: "om_steps s1 = om_steps s" "om_stepData s1 = om_stepData s"
    "om_currentStep s1 = om_currentStep s" "om_verbose s1 = om_verbose s" "visible s1 = visible s"
    using canShow_snd [of ?m s] s1 by simp_all
  have p: "\<not> completed_in s1 n" "\<forall>st \<in> set sts. n \<in> set (before s1 (step_Action st))"
    "step_names s1 = ns"
    using Cons.prems f by (simp_all add: flags before_def step_names_def)
  from Cons.IH [OF p(2,3,1)] f Cons.IH [of s] Cons.prems s1 show ?case
    by (auto simp: Let_def)
qed simp


lemma showNext_head:
  assumes s: "step_names s = pre @ n # post" "n \<notin> set pre" "\<forall>m \<in> set pre. completed_in s m"
    and st: "step_Action st = n"
    and d: "data_of s n = Some d" "sd_Started d" "\<not> sd_Completed d" "\<not> sd_Shown d"
  shows "om_steps (showNextLoop (st # sts) s) = om_steps s"
    "om_verbose (showNextLoop (st # sts) s) = om_verbose s"
    "om_currentStep (showNextLoop (st # sts) s) = n"
    "data_of (showNextLoop (st # sts) s) m =
       (if m = n then Some (d\<lparr>sd_Shown := True, sd_Output := []\<rparr>) else data_of s m)"
    "visible (showNextLoop (st # sts) s) = visible s @ ShowStart n
       # (if om_verbose s then map ShowOutput (sd_Output d) else [])"
proof -
  have "fst (canShowStepStart n s)"
    using s by (simp add: canShow_fst before_append [OF s(1,2)])
  then obtain s1 where s1: "canShowStepStart n s = (True, s1)"
    by (metis (full_types) prod.collapse)
  have f: "om_steps s1 = om_steps s" "om_stepData s1 = om_stepData s"
    "om_currentStep s1 = om_currentStep s" "om_verbose s1 = om_verbose s" "visible s1 = visible s"
    using canShow_snd [of n s] s1 by simp_all
  have "started_in s n \<and> \<not> completed_in s n \<and> \<not> shown_in s n" using d by (simp add: flags)
  then have eq: "showNextLoop (st # sts) s =
       flushBufferedOutput n
         ((mod_data n (sd_Shown_update (\<lambda>_. True))
           (showStepStart n
             (debug_msg (''checkAndShowNextStep: showing next step: '' @ n) s1)))
           \<lparr>om_currentStep := n\<rparr>)"
    using st s1 by (simp add: Let_def)
  show "om_steps (showNextLoop (st # sts) s) = om_steps s"
    "om_verbose (showNextLoop (st # sts) s) = om_verbose s"
    "om_currentStep (showNextLoop (st # sts) s) = n"
    "data_of (showNextLoop (st # sts) s) m =
       (if m = n then Some (d\<lparr>sd_Shown := True, sd_Output := []\<rparr>) else data_of s m)"
    "visible (showNextLoop (st # sts) s) = visible s @ ShowStart n
       # (if om_verbose s then map ShowOutput (sd_Output d) else [])"
    using d(1) f unfolding eq by simp_all
qed

lemma next_step:
  assumes dn: "done_upto s a pre post" and hdo: "head_open a post" and "[] \<notin> set (pre @ post)"
    and lines: "\<forall>n \<in> set (pre @ post). n \<notin> sp_started a \<longrightarrow> sp_lines a n = []"
  shows "ord_inv (checkAndShowNextStep s) a pre post
         \<and> om_verbose (checkAndShowNextStep s) = om_verbose s"
proof -
  define t where "t = debug_msg ''checkAndShowNextStep: checking for next step to show'' s"
  have d: "done_upto t a pre post"
    using dn by (simp add: t_def done_upto_def step_names_def data_ok_def flags)
  have v: "om_verbose t = om_verbose s" by (simp add: t_def)
  from d have names: "step_names t = pre @ post" and ok: "data_ok (pre @ post) t a"
    and dist: "distinct (pre @ post)" by (auto simp: done_upto_def)
  obtain ps qs where steps: "om_steps t = ps @ qs" "map step_Action ps = pre" "map step_Action qs = post"
    using names by (auto simp: step_names_def map_eq_append_conv)
  have comp: "\<forall>m \<in> set pre. completed_in t m"
    using d ok by (auto simp: done_upto_def data_ok_flags [OF ok])
  then have "showNextLoop (om_steps t) t = showNextLoop qs t"
    unfolding steps(1) using steps(2) by (intro showNext_skip) auto
  moreover have "checkAndShowNextStep s = showNextLoop (om_steps t) t"
    by (simp add: checkAndShowNextStep_def t_def)
  ultimately have eq: "checkAndShowNextStep s = showNextLoop qs t" by simp
  show ?thesis
  proof (cases qs)
    case Nil
    then have p: "post = []" and e: "checkAndShowNextStep s = t" using steps(3) eq by simp_all
    show ?thesis using d v assms(3) lines unfolding e p
      by (simp add: ord_inv_def done_upto_def cur_step_def)
  next
    case (Cons q qs')
    let ?n = "step_Action q"
    let ?post = "map step_Action qs'"
    have post: "post = ?n # ?post" using steps(3) Cons by simp
    have open_n: "sp_status a ?n = None" using hdo post by simp
    show ?thesis
    proof (cases "?n \<in> sp_started a")
      case True
      obtain e where e: "data_of t ?n = Some e" "sd_Started e" "\<not> sd_Completed e" "\<not> sd_Shown e"
          "sd_Output e = sp_lines a ?n"
        using data_okD [OF ok, of ?n] True open_n d post by (auto simp: done_upto_def flags)
      have "step_names t = pre @ ?n # ?post" "?n \<notin> set pre" using names post dist by auto
      note N = showNext_head [OF this comp refl e(1-4), of qs', folded Cons, folded eq]
      have "data_ok (pre @ post) (checkAndShowNextStep s) a"
        using data_ok_shown [OF ok e(1) N(4)] .
      moreover have "shown_in (checkAndShowNextStep s) m = (m = ?n \<or> shown_in t m)" for m
        by (simp add: flags N(4))
      moreover have "step_names (checkAndShowNextStep s) = step_names t"
        by (simp add: step_names_def N(1))
      moreover have "cur_step a post = Some ?n" using True post by (simp add: cur_step_def)
      ultimately show ?thesis
        using d N(2,3,5) e(5) v assms(2-4) dist
        by (auto simp: ord_inv_def done_upto_def shown_lines_def)
    next
      case False
      have c: "cur_step a post = None" using False post by (simp add: cur_step_def)
      have nc: "\<not> completed_in t ?n" using open_n post by (simp add: data_ok_flags [OF ok])
      have "\<not> started_in t ?n" using False post by (simp add: data_ok_flags [OF ok])
      then have "showNextLoop qs t = showNextLoop qs' t" using Cons by (simp add: Let_def)
      moreover have "\<forall>st \<in> set qs'. ?n \<in> set (before t (step_Action st))"
        using names post dist by (auto simp: before_def takeWhile_append)
      ultimately have N: "om_steps (checkAndShowNextStep s) = om_steps t"
        "om_stepData (checkAndShowNextStep s) = om_stepData t"
        "om_currentStep (checkAndShowNextStep s) = om_currentStep t"
        "om_verbose (checkAndShowNextStep s) = om_verbose t"
        "visible (checkAndShowNextStep s) = visible t"
        using showNext_blocked [OF nc _ refl, of qs'] eq by simp_all
      then show ?thesis
        using d c v assms(2-4) by (simp add: ord_inv_def done_upto_def step_names_def data_ok_def flags)
    qed
  qed
qed


subsection \<open>One event\<close>

fun event_ok :: "string list \<Rightarrow> spec_state \<Rightarrow> cb_event \<Rightarrow> bool" where
  "event_ok names a (OnStepStart n) =
     (n \<in> set names \<and> n \<notin> sp_started a \<and> sp_status a n = None)"
| "event_ok names a (OnStepComplete n status message duration) =
     (n \<in> set names \<and> sp_status a n = None)"
| "event_ok names a (OnStepOutput n line) = (n \<in> set names \<and> n \<in> sp_started a)"
| "event_ok names a (OnStepError n err) = True"

lemma data_ok_change:
  assumes "data_ok names s a"
    and "\<And>m. data_of t m = (if m = n then map_option f (data_of s n) else data_of s m)"
    and "\<And>m. m \<noteq> n \<Longrightarrow> (m \<in> sp_started b) = (m \<in> sp_started a) \<and> sp_status b m = sp_status a m
           \<and> sp_lines b m = sp_lines a m"
    and "\<And>d. n \<in> set names \<Longrightarrow> data_of s n = Some d \<Longrightarrow> sd_Started d = (n \<in> sp_started a) \<Longrightarrow>
           sd_Completed d = (sp_status a n \<noteq> None) \<Longrightarrow>
           (\<forall>st. sp_status a n = Some st \<longrightarrow> sd_Status d = st) \<Longrightarrow>
           (\<not> sd_Shown d \<longrightarrow> sd_Output d = sp_lines a n) \<Longrightarrow>
           sd_Started (f d) = (n \<in> sp_started b) \<and> sd_Completed (f d) = (sp_status b n \<noteq> None)
           \<and> (\<forall>st. sp_status b n = Some st \<longrightarrow> sd_Status (f d) = st)
           \<and> (\<not> sd_Shown (f d) \<longrightarrow> sd_Output (f d) = sp_lines b n)"
  shows "data_ok names t b"
  unfolding data_ok_def
proof
  fix m assume m: "m \<in> set names"
  from data_okD [OF assms(1) this] obtain d where d: "data_of s m = Some d"
    "sd_Started d = (m \<in> sp_started a)" "sd_Completed d = (sp_status a m \<noteq> None)"
    "\<forall>st. sp_status a m = Some st \<longrightarrow> sd_Status d = st"
    "\<not> sd_Shown d \<longrightarrow> sd_Output d = sp_lines a m" by blast
  show "\<exists>d. data_of t m = Some d
        \<and> sd_Started d = (m \<in> sp_started b)
        \<and> sd_Completed d = (sp_status b m \<noteq> None)
        \<and> (\<forall>st. sp_status b m = Some st \<longrightarrow> sd_Status d = st)
        \<and> (\<not> sd_Shown d \<longrightarrow> sd_Output d = sp_lines b m)"
  proof (cases "m = n")
    case True
    with assms(4) [of d] d m show ?thesis by (simp add: assms(2))
  next
    case False
    with assms(3) [OF False] d show ?thesis by (simp add: assms(2))
  qed
qed

lemma blocks_cong:
  assumes "\<forall>m \<in> set pre. sp_status b m = sp_status a m \<and> sp_lines b m = sp_lines a m"
  shows "concat (map (step_block v b) pre) = concat (map (step_block v a) pre)"
  using assms by (intro arg_cong [of _ _ concat] map_cong) (auto simp: step_block_def shown_lines_def)

lemma ord_inv_post:
  assumes "ord_inv s a pre post" "n \<in> set (pre @ post)" "sp_status a n = None"
  shows "n \<in> set post"
  using assms by (auto simp: ord_inv_def)

lemma sim_start:
  assumes I: "ord_inv s a pre post" and e: "event_ok (pre @ post) a (OnStepStart n)"
  shows "\<exists>s'. Manager_OnStepStart n s = Some s' \<and> om_verbose s' = om_verbose s
           \<and> ord_inv s' (spec_event (pre @ post) (OnStepStart n) a) pre post"
proof -
  let ?b = "a\<lparr>sp_started := insert n (sp_started a)\<rparr>"
  define s1 where "s1 = (if om_debug s then debugPrintState (debug_msg (''OnStepStart: '' @ n) s) else s)"
  define s2 where "s2 = mod_data n (sd_Started_update (\<lambda>_. True)) s1"
  obtain can s3 where can: "canShowStepStart n s2 = (can, s3)" by fastforce
  have names: "step_names s = pre @ post" and dist: "distinct (pre @ post)"
    and ok: "data_ok (pre @ post) s a" using I by (auto simp: ord_inv_def)
  have n: "n \<in> set post" using ord_inv_post [OF I] e by auto
  have f: "om_steps s3 = om_steps s" "om_currentStep s3 = om_currentStep s"
    "om_verbose s3 = om_verbose s" "visible s3 = visible s"
    "data_of s3 m = (if m = n then map_option (sd_Started_update (\<lambda>_. True)) (data_of s n)
                     else data_of s m)" for m
    using canShow_snd [of n s2] unfolding can snd_conv by (simp_all add: s2_def s1_def)
  have f2: "data_of s2 m = (if m = n then map_option (sd_Started_update (\<lambda>_. True)) (data_of s n)
                     else data_of s m)" "step_names s2 = pre @ post" for m
    using names by (simp_all add: s2_def s1_def step_names_def)
  have ok3: "data_ok (pre @ post) s3 ?b" by (rule data_ok_change [OF ok f(5)]) auto
  have ok2: "data_ok (pre @ post) s2 ?b" by (rule data_ok_change [OF ok f2(1)]) auto
  obtain d where d: "data_of s n = Some d" using data_okD [OF ok] n by fastforce
  have nsh: "\<not> shown_in s n" using I n e by (auto simp: ord_inv_def cur_step_def split: list.splits if_splits)
  show ?thesis
  proof (cases "hd post = n")
    case True
    then obtain rest where post: "post = n # rest" using n by (cases post) auto
    have "can" using canShow_fst [of n s2] can post f2(2) dist I
      by (simp add: before_append data_ok_flags [OF ok2]) (auto simp: ord_inv_def)
    define s4 where "s4 = (mod_data n (sd_Shown_update (\<lambda>_. True))
                     (showStepStart n (debug_msg (''Showing step start for: '' @ n) s3)))
                   \<lparr>om_currentStep := n\<rparr>"
    have run: "Manager_OnStepStart n s = Some s4"
      using \<open>can\<close> can nsh d unfolding Manager_OnStepStart_def s1_def [symmetric] Let_def s2_def [symmetric]
      by (simp add: f flags s4_def)
    have g: "om_steps s4 = om_steps s" "om_currentStep s4 = n" "om_verbose s4 = om_verbose s"
      "visible s4 = visible s @ [ShowStart n]"
      "data_of s4 m = (if m = n then map_option (sd_Shown_update (\<lambda>_. True)) (data_of s3 n)
                       else data_of s3 m)" for m
      by (simp_all add: s4_def f)
    have "data_ok (pre @ post) s4 ?b"
      by (rule data_ok_change [OF ok3 g(5)]) auto
    moreover have "shown_in s4 m = (m = n \<or> shown_in s m)" for m
      using d by (simp add: flags g f)
    moreover have "cur_step ?b post = Some n" "cur_step a post = None"
      using post e by (simp_all add: cur_step_def)
    moreover have "step_names s4 = step_names s" by (simp add: step_names_def g)
    ultimately have "ord_inv s4 ?b pre post"
      using I g(2-4) post e blocks_cong [of pre ?b a]
      by (auto simp: ord_inv_def shown_lines_def)
    with run g show ?thesis by auto
  next
    case False
    obtain h rest where post: "post = h # rest" using n by (cases post) auto
    have "h \<in> set (before s2 n)" using False n post f2 dist
      by (auto simp: before_def takeWhile_append)
    moreover have "\<not> completed_in s2 h"
      using I post by (simp add: data_ok_flags [OF ok2]) (auto simp: ord_inv_def)
    ultimately have nc: "\<not> can" using canShow_fst [of n s2] can by auto
    define s4 where "s4 = debug_msg
                     (''Cannot show step start for: '' @ n @ '' (not ready or already shown)'') s3"
    have run: "Manager_OnStepStart n s = Some s4"
      using nc can unfolding Manager_OnStepStart_def s1_def [symmetric] Let_def s2_def [symmetric]
      by (simp add: s4_def)
    have "data_ok (pre @ post) s4 ?b" using ok3 by (simp add: s4_def data_ok_def)
    moreover have "shown_in s4 m = shown_in s m" for m
      using d by (simp add: flags s4_def f)
    moreover have "cur_step ?b post = cur_step a post"
      using post False by (simp add: cur_step_def)
    moreover have "step_names s4 = step_names s" by (simp add: step_names_def s4_def f)
    moreover have "head_open ?b post = head_open a post" by (simp add: post)
    ultimately have "ord_inv s4 ?b pre post"
      using I blocks_cong [of pre ?b a]
      by (auto simp: ord_inv_def shown_lines_def s4_def f split: option.split)
    with run show ?thesis by (auto simp: s4_def f)
  qed
qed


lemma sim_error:
  assumes I: "ord_inv s a pre post"
  shows "ord_inv (Manager_OnStepError n err s) a pre post"
proof -
  let ?s = "Manager_OnStepError n err s" and ?f = "sd_Error_update (\<lambda>_. Some err)"
  have g: "data_of ?s m = (if m = n then map_option ?f (data_of s n) else data_of s m)" for m
    by (simp add: Manager_OnStepError_def)
  have "data_ok (pre @ post) s a" using I by (simp add: ord_inv_def)
  then have "data_ok (pre @ post) ?s a" by (rule data_ok_change [OF _ g]) simp_all
  moreover have "shown_in ?s m = shown_in s m" for m
    by (simp add: flags g split: option.split)
  moreover have "step_names ?s = step_names s"
    by (simp add: Manager_OnStepError_def step_names_def)
  moreover have "om_verbose ?s = om_verbose s" "om_currentStep ?s = om_currentStep s"
    "visible ?s = visible s" by (simp_all add: Manager_OnStepError_def)
  ultimately show ?thesis using I by (simp add: ord_inv_def split: option.split)
qed

lemma block_closed_pre:
  assumes I: "ord_inv s a pre post" and n: "n \<in> set (pre @ post)"
  shows "block_closed (pre @ post) a n \<longleftrightarrow> n \<in> set pre"
proof (cases "n \<in> set pre")
  case True
  then obtain xs ys where pre: "pre = xs @ n # ys" "n \<notin> set xs" by (meson split_list_first)
  then have "takeWhile (\<lambda>m. m \<noteq> n) (pre @ post) = xs" using takeWhile_split by simp
  with True I pre show ?thesis by (auto simp: block_closed_def ord_inv_def)
next
  case False
  then have "n \<in> set post" using n by simp
  then obtain h rest where post: "post = h # rest" by (cases post) auto
  have open_h: "sp_status a h = None" using I post by (simp add: ord_inv_def)
  have "h \<noteq> n \<Longrightarrow> h \<in> set (takeWhile (\<lambda>m. m \<noteq> n) (pre @ post))"
    unfolding post using False by (rule takeWhile_mid)
  then have "\<not> block_closed (pre @ post) a n"
    using open_h unfolding block_closed_def by metis
  with False show ?thesis by blast
qed

lemma sim_output:
  assumes I: "ord_inv s a pre post" and e: "event_ok (pre @ post) a (OnStepOutput n line)"
  shows "ord_inv (Manager_OnStepOutput n line s) (spec_event (pre @ post) (OnStepOutput n line) a) pre post"
proof -
  define f where "f = (\<lambda>d :: step_data. d\<lparr>sd_Output := sd_Output d @ [line]\<rparr>)"
  let ?s = "Manager_OnStepOutput n line s"
  define b where "b = spec_event (pre @ post) (OnStepOutput n line) a"
  have n: "n \<in> set (pre @ post)" and st: "n \<in> sp_started a" using e by auto
  have ok: "data_ok (pre @ post) s a" and dist: "distinct (pre @ post)" and ne: "[] \<notin> set (pre @ post)"
    using I by (auto simp: ord_inv_def)
  have g: "om_steps ?s = om_steps s" "om_currentStep ?s = om_currentStep s"
    "om_verbose ?s = om_verbose s"
    "data_of ?s m = (if m = n then map_option f (data_of s n) else data_of s m)"
    "visible ?s = visible s @ (if om_currentStep s = n \<and> om_verbose s then [ShowOutput line] else [])"
    for m by (simp_all add: Manager_OnStepOutput_def Let_def f_def)
  have names: "step_names ?s = step_names s" by (simp add: step_names_def g)
  have sh: "shown_in ?s m = shown_in s m" for m
    by (auto simp: flags g f_def split: option.split)
  have b: "sp_started b = sp_started a" "sp_status b = sp_status a"
    "sp_lines b = (if n \<in> set pre then sp_lines a else (sp_lines a)(n := sp_lines a n @ [line]))"
    using block_closed_pre [OF I n] by (auto simp: b_def)
  have cur: "cur_step b post = cur_step a post" unfolding cur_step_def b ..
  have hdo: "head_open b post = head_open a post" by (cases post) (simp_all add: b)
  have ok': "data_ok (pre @ post) ?s b"
  proof (rule data_ok_change [OF ok g(4)])
    fix d assume "data_of s n = Some d" and "\<not> sd_Shown d \<longrightarrow> sd_Output d = sp_lines a n"
      "sd_Started d = (n \<in> sp_started a)" "sd_Completed d = (sp_status a n \<noteq> None)"
      "\<forall>st. sp_status a n = Some st \<longrightarrow> sd_Status d = st"
    moreover have "n \<in> set pre \<Longrightarrow> shown_in s n" using I by (simp add: ord_inv_def)
    ultimately show "sd_Started (f d) = (n \<in> sp_started b) \<and> sd_Completed (f d) = (sp_status b n \<noteq> None)
           \<and> (\<forall>st. sp_status b n = Some st \<longrightarrow> sd_Status (f d) = st)
           \<and> (\<not> sd_Shown (f d) \<longrightarrow> sd_Output (f d) = sp_lines b n)"
      unfolding b by (auto simp: f_def flags)
  qed (simp_all add: b)
  have pre: "concat (map (step_block v b) pre) = concat (map (step_block v a) pre)" for v
    by (rule blocks_cong) (auto simp: b)
  have "om_currentStep s = n \<longleftrightarrow> cur_step a post = Some n"
    using I n ne by (auto simp: ord_inv_def split: option.splits)
  moreover have "cur_step a post = Some n \<Longrightarrow> n \<notin> set pre"
    using dist by (auto simp: cur_step_def split: list.splits if_splits)
  ultimately have vis: "visible ?s = concat (map (step_block (om_verbose s) b) pre) @
          (case cur_step a post of None \<Rightarrow> []
           | Some n \<Rightarrow> ShowStart n # shown_lines (om_verbose s) b n)"
    using I unfolding pre g(5) by (auto simp: ord_inv_def shown_lines_def b split: option.splits)
  show ?thesis
    using I ok' vis st unfolding b_def [symmetric] unfolding ord_inv_def cur names sh g(2,3) hdo
    by (auto simp: b)
qed


lemma completed_loop_noop:
  assumes names: "step_names s = pre @ m # post" and m: "m \<notin> set pre" "\<not> completed_in s m"
    and dist: "distinct (pre @ m # post)" and pre: "\<forall>n \<in> set pre. shown_in s n"
  shows "checkAndShowCompletedSteps s
     = debug_msg ''checkAndShowCompletedSteps: checking for completed steps to show'' s"
proof -
  let ?t = "debug_msg ''checkAndShowCompletedSteps: checking for completed steps to show'' s"
  have names': "step_names ?t = pre @ m # post" using names by (simp add: step_names_def)
  have "showCompletedStep n ?t = ?t" if n: "n \<in> set (pre @ m # post)" for n
  proof (rule showCompletedStep_noop)
    have nc: "\<not> completed_in ?t m" using m by (simp add: flags)
    consider "n \<in> set pre" | "n = m" | "n \<notin> set pre" "m \<noteq> n" using n by auto
    then show "shown_in ?t n \<or> \<not> completed_in ?t n \<or> (\<exists>m \<in> set (before ?t n). \<not> completed_in ?t m)"
    proof cases
      case 1
      then show ?thesis using pre by (simp add: flags)
    next
      case 2
      then show ?thesis using nc by simp
    next
      case 3
      then have "m \<in> set (before ?t n)"
        unfolding before_def names' by (rule takeWhile_mid)
      with nc show ?thesis by blast
    qed
  qed
  then have "fold showCompletedStep (step_names ?t) ?t = ?t"
    unfolding names' by (intro fold_noop)
  then show ?thesis
    by (simp add: checkAndShowCompletedSteps_def step_names_def fold_map comp_def)
qed

lemma next_loop_noop:
  assumes names: "step_names s = pre @ m # post" and dist: "distinct (pre @ m # post)"
    and pre: "\<forall>n \<in> set pre. completed_in s n" and m: "\<not> completed_in s m" "shown_in s m"
  shows "om_steps (checkAndShowNextStep s) = om_steps s
     \<and> om_stepData (checkAndShowNextStep s) = om_stepData s
     \<and> om_currentStep (checkAndShowNextStep s) = om_currentStep s
     \<and> om_verbose (checkAndShowNextStep s) = om_verbose s
     \<and> visible (checkAndShowNextStep s) = visible s"
proof -
  define t where "t = debug_msg ''checkAndShowNextStep: checking for next step to show'' s"
  have names': "step_names t = pre @ m # post" using names by (simp add: step_names_def t_def)
  obtain ps q qs where steps: "om_steps t = ps @ q # qs" "map step_Action ps = pre"
      "step_Action q = m" "map step_Action qs = post"
    using names' by (auto simp: step_names_def map_eq_append_conv map_eq_Cons_conv)
  have "showNextLoop (om_steps t) t = showNextLoop (q # qs) t"
    unfolding steps(1) using steps(2) pre by (intro showNext_skip) (auto simp: t_def flags)
  also have "\<dots> = showNextLoop qs t" using m steps(3) by (simp add: Let_def t_def flags)
  finally have eq: "checkAndShowNextStep s = showNextLoop qs t"
    by (simp add: checkAndShowNextStep_def t_def)
  have nc: "\<not> completed_in t m" using m by (simp add: t_def flags)
  have "\<forall>st \<in> set qs. m \<in> set (before t (step_Action st))"
  proof
    fix st assume "st \<in> set qs"
    then have "step_Action st \<in> set post" using steps(4) by auto
    then have "step_Action st \<notin> set pre" "m \<noteq> step_Action st" using dist by auto
    then show "m \<in> set (before t (step_Action st))"
      unfolding before_def names' by (rule takeWhile_mid)
  qed
  from showNext_blocked [OF nc this refl] show ?thesis unfolding eq by (simp add: t_def)
qed


text \<open>A completion: the fields of the step, and then the line of its result if it is the current one.\<close>

definition complete_data :: "step_status \<Rightarrow> string \<Rightarrow> nat \<Rightarrow> step_data \<Rightarrow> step_data" where
  "complete_data status message duration d =
     d\<lparr>sd_Completed := True, sd_Status := status, sd_Message := message, sd_Duration := duration\<rparr>"

definition completes :: "out_mgr \<Rightarrow> string \<Rightarrow> step_status \<Rightarrow> string \<Rightarrow> nat \<Rightarrow> out_mgr \<Rightarrow> bool" where
  "completes s n status message duration t \<longleftrightarrow>
     om_steps t = om_steps s \<and> om_verbose t = om_verbose s
     \<and> (\<forall>m. data_of t m = (if m = n then map_option (complete_data status message duration) (data_of s n)
                             else data_of s m))"

lemma spec_complete:
  "sp_started (spec_event N (OnStepComplete n status message duration) a) = sp_started a"
  "sp_lines (spec_event N (OnStepComplete n status message duration) a) = sp_lines a"
  "sp_status (spec_event N (OnStepComplete n status message duration) a) m = (if m = n then Some status else sp_status a m)"
  by auto

lemma after_complete:
  assumes I: "ord_inv s a pre post" and n: "n \<in> set post" and c: "completes s n status message duration t"
    and b: "b = spec_event (pre @ post) (OnStepComplete n status message duration) a"
  shows "step_names t = pre @ post" "data_ok (pre @ post) t b" "shown_in t m = shown_in s m"
    "concat (map (step_block v b) pre) = concat (map (step_block v a) pre)"
    "\<forall>m \<in> set (pre @ post). m \<notin> sp_started b \<longrightarrow> sp_lines b m = []"
proof -
  have names: "step_names s = pre @ post" "distinct (pre @ post)" and ok: "data_ok (pre @ post) s a"
    using I by (auto simp: ord_inv_def)
  have h: "data_of t m = (if m = n then map_option (complete_data status message duration) (data_of s n)
      else data_of s m)" "om_steps t = om_steps s" for m
    using c by (simp_all add: completes_def)
  show "step_names t = pre @ post" using names by (simp add: step_names_def h(2))
  show "data_ok (pre @ post) t b"
    by (rule data_ok_change [OF ok h(1)]) (auto simp: b spec_complete complete_data_def)
  show "shown_in t m = shown_in s m" by (auto simp: flags h(1) complete_data_def split: option.split)
  show "concat (map (step_block v b) pre) = concat (map (step_block v a) pre)"
    using names n by (intro blocks_cong) (auto simp: b spec_complete)
  show "\<forall>m \<in> set (pre @ post). m \<notin> sp_started b \<longrightarrow> sp_lines b m = []"
    using I by (simp add: ord_inv_def b spec_complete)
qed

lemma complete_without_current:
  assumes I: "ord_inv s a pre post" and n: "n \<in> set post" and c: "completes s n status message duration t"
    and b: "b = spec_event (pre @ post) (OnStepComplete n status message duration) a"
    and "cur_step a post = None" "om_currentStep t = []" "visible t = visible s"
  shows "done_upto t b pre post"
proof -
  note A = after_complete [OF I n c b]
  have "\<forall>m \<in> set pre. sp_status b m \<noteq> None \<and> shown_in t m" "\<forall>m \<in> set post. \<not> shown_in t m"
    "visible s = concat (map (step_block (om_verbose s) a) pre)" "distinct (pre @ post)"
    using I assms(5) by (auto simp: ord_inv_def b spec_complete A(3))
  with A assms(6,7) show ?thesis using c by (simp add: done_upto_def completes_def)
qed

lemma complete_current:
  assumes I: "ord_inv s a pre post" and n: "n \<in> set post" and c: "completes s n status message duration t"
    and b: "b = spec_event (pre @ post) (OnStepComplete n status message duration) a"
    and cur: "cur_step a post = Some n" "om_currentStep t = []" "visible t = visible s @ [ShowResult n status []]"
  obtains rest where "post = n # rest" "done_upto t b (pre @ [n]) rest"
proof -
  note A = after_complete [OF I n c b]
  have B: "sp_started b = sp_started a" "sp_lines b = sp_lines a" "sp_status b m = (if m = n then Some status else sp_status a m)"
    for m unfolding b by (rule spec_complete)+
  obtain rest where post: "post = n # rest" and ms: "n \<in> sp_started a"
    using cur(1) by (auto simp: cur_step_def split: list.splits if_splits)
  have "visible t = concat (map (step_block (om_verbose t) b) (pre @ [n]))"
    using I cur c by (simp add: ord_inv_def completes_def A(4) step_block_def B shown_lines_def)
  moreover have "\<forall>k \<in> set rest. \<not> shown_in t k" "distinct (pre @ n # rest)"
    using I post cur(1) by (auto simp: ord_inv_def A(3))
  moreover have "shown_in t n" using I cur(1) n by (auto simp: ord_inv_def A(3))
  ultimately have "done_upto t b (pre @ [n]) rest"
    using I post A(1,2) cur(2) by (auto simp: done_upto_def ord_inv_def A(3) B)
  with post show thesis by (rule that)
qed

lemma complete_other:
  assumes I: "ord_inv s a pre post" and n: "n \<in> set post" and c: "completes s n status message duration t"
    and b: "b = spec_event (pre @ post) (OnStepComplete n status message duration) a"
    and cur: "cur_step a post = Some m" "m \<noteq> n" "om_currentStep t = m" "visible t = visible s"
  shows "ord_inv (checkAndShowNextStep (checkAndShowCompletedSteps t)) b pre post
    \<and> om_verbose (checkAndShowNextStep (checkAndShowCompletedSteps t)) = om_verbose s"
proof -
  let ?r = "checkAndShowNextStep (checkAndShowCompletedSteps t)"
  note A = after_complete [OF I n c b]
  have B: "sp_started b = sp_started a" "sp_lines b = sp_lines a" "sp_status b k = (if k = n then Some status else sp_status a k)"
    for k unfolding b by (rule spec_complete)+
  obtain rest where post: "post = m # rest" and ms: "m \<in> sp_started a"
    using cur(1) by (auto simp: cur_step_def split: list.splits if_splits)
  have dist: "distinct (pre @ post)" and names: "step_names t = pre @ m # rest"
    using I A(1) post by (simp_all add: ord_inv_def)
  have t: "\<not> completed_in t m" "shown_in t m" "\<forall>n \<in> set pre. shown_in t n" "\<forall>n \<in> set pre. completed_in t n"
    using I cur(1,2) post by (auto simp: data_ok_flags [OF A(2)] A(3) B ord_inv_def)
  have "checkAndShowCompletedSteps t = debug_msg ''checkAndShowCompletedSteps: checking for completed steps to show'' t"
    using dist post by (intro completed_loop_noop [OF names _ t(1) _ t(3)]) auto
  then have "om_steps ?r = om_steps t \<and> om_stepData ?r = om_stepData t \<and> om_currentStep ?r = om_currentStep t
      \<and> om_verbose ?r = om_verbose t \<and> visible ?r = visible t"
    using next_loop_noop [of "checkAndShowCompletedSteps t" pre m rest] names dist post t
    by (simp add: step_names_def flags)
  then have R: "step_names ?r = step_names t" "om_stepData ?r = om_stepData t" "om_currentStep ?r = m"
    "om_verbose ?r = om_verbose s" "visible ?r = visible s"
    using cur c by (simp_all add: step_names_def completes_def)
  have "data_ok (pre @ post) ?r b" using A(2) R(2) by (simp add: data_ok_def)
  moreover have "shown_in ?r k = shown_in s k" for k using A(3) by (simp add: flags R(2))
  moreover have "cur_step b post = cur_step a post" by (simp only: cur_step_def B)
  moreover have "head_open b post" using I post cur(2) by (simp add: ord_inv_def B)
  ultimately show ?thesis
    using I R A(1,4,5) cur(1) by (simp add: ord_inv_def B shown_lines_def)
qed

lemma sim_complete:
  assumes I: "ord_inv s a pre post"
    and e: "event_ok (pre @ post) a (OnStepComplete n status message duration)"
  shows "\<exists>pre' post'. pre' @ post' = pre @ post
      \<and> om_verbose (Manager_OnStepComplete n status message duration s) = om_verbose s
      \<and> ord_inv (Manager_OnStepComplete n status message duration s)
          (spec_event (pre @ post) (OnStepComplete n status message duration) a) pre' post'"
proof -
  define b where "b = spec_event (pre @ post) (OnStepComplete n status message duration) a"
  define s2 where "s2 = mod_data n (complete_data status message duration) (if om_debug s
                then debugPrintState (debug_msg (''OnStepComplete: '' @ n @ '' (status: ''
                       @ StepStatus_String status @ '')'') s)
                else s)"
  define t where "t = (if om_currentStep s2 = n
                then (showStepCompletion n (debug_msg (''Showing step completion for: '' @ n) s2))\<lparr>om_currentStep := []\<rparr>
                else s2)"
  let ?r = "Manager_OnStepComplete n status message duration s"
  have r: "?r = checkAndShowNextStep (checkAndShowCompletedSteps t)"
    by (simp add: Manager_OnStepComplete_def Let_def t_def s2_def complete_data_def [abs_def])
  have n: "n \<in> set post" using ord_inv_post [OF I] e by auto
  have ne: "[] \<notin> set (pre @ post)" using I by (simp add: ord_inv_def)
  have g: "om_steps s2 = om_steps s" "om_currentStep s2 = om_currentStep s" "om_verbose s2 = om_verbose s"
    "visible s2 = visible s"
    "data_of s2 m = (if m = n then map_option (complete_data status message duration) (data_of s n) else data_of s m)" for m
    by (simp_all add: s2_def)
  have c: "completes s n status message duration t" by (simp add: completes_def t_def g)
  note A = after_complete [OF I n c b_def]
  have finish: ?thesis if D: "done_upto t b pre0 post0" "pre0 @ post0 = pre @ post" for pre0 post0
  proof -
    from completed_loop [OF D(1)] obtain pre' post' where
      C: "done_upto (checkAndShowCompletedSteps t) b pre' post'" "pre' @ post' = pre0 @ post0"
        "head_open b post'" "om_verbose (checkAndShowCompletedSteps t) = om_verbose t" by blast
    have "pre' @ post' = pre @ post" using C(2) D(2) by simp
    with next_step [OF C(1,3)] ne C(2,4) D(2) A(5) c
    show ?thesis unfolding r b_def [symmetric] completes_def by metis
  qed
  show ?thesis
  proof (cases "cur_step a post")
    case None
    then have "t = s2" "om_currentStep t = []" using I n ne by (auto simp: t_def g ord_inv_def)
    then show ?thesis
      using finish [OF complete_without_current [OF I n c b_def None]] g(4) by simp
  next
    case (Some m)
    have cm: "om_currentStep s2 = m" using I Some by (simp add: ord_inv_def g)
    show ?thesis
    proof (cases "m = n")
      case True
      obtain d where "data_of s2 n = Some d" "sd_Status d = status"
        using I data_okD [of "pre @ post" s a n] n by (fastforce simp: g complete_data_def ord_inv_def)
      then have "visible t = visible s @ [ShowResult n status []]" "om_currentStep t = []"
        using cm True by (auto simp: t_def g)
      from complete_current [OF I n c b_def Some [unfolded True] this(2,1)] obtain rest where
        "post = n # rest" "done_upto t b (pre @ [n]) rest" .
      then show ?thesis using finish by simp
    next
      case False
      then have "t = s2" using cm by (simp add: t_def)
      then show ?thesis
        using complete_other [OF I n c b_def Some False] cm g(4) unfolding r b_def [symmetric] by auto
    qed
  qed
qed

lemma sim_event:
  assumes "ord_inv s a pre post" "event_ok (pre @ post) a e"
  shows "\<exists>s' pre' post'. Manager_event e s = Some s' \<and> pre' @ post' = pre @ post
     \<and> om_verbose s' = om_verbose s \<and> ord_inv s' (spec_event (pre @ post) e a) pre' post'"
proof (cases e)
  case (OnStepStart n)
  with sim_start [of s a pre post n] assms show ?thesis by auto
next
  case (OnStepComplete n st msg d)
  with sim_complete [of s a pre post n st msg d] assms show ?thesis by auto
next
  case (OnStepOutput n line)
  with sim_output [of s a pre post n line] assms
  have "ord_inv (Manager_OnStepOutput n line s) (spec_event (pre @ post) e a) pre post" by simp
  moreover have "om_verbose (Manager_OnStepOutput n line s) = om_verbose s"
    by (simp add: Manager_OnStepOutput_def Let_def)
  ultimately show ?thesis unfolding OnStepOutput by (metis Manager_event.simps(3))
next
  case (OnStepError n err)
  with sim_error [of s a pre post n err] assms
  have "ord_inv (Manager_OnStepError n err s) (spec_event (pre @ post) e a) pre post" by simp
  moreover have "om_verbose (Manager_OnStepError n err s) = om_verbose s"
    by (simp add: Manager_OnStepError_def)
  ultimately show ?thesis unfolding OnStepError by (metis Manager_event.simps(4))
qed

lemma spec_display_split:
  assumes "\<forall>n \<in> set pre. sp_status a n \<noteq> None" "head_open a post"
  shows "spec_display v a (pre @ post) = concat (map (step_block v a) pre) @
          (case cur_step a post of None \<Rightarrow> [] | Some n \<Rightarrow> ShowStart n # shown_lines v a n)"
  using assms
proof (induction pre)
  case Nil
  then show ?case by (cases post) (simp_all add: cur_step_def)
qed simp

lemma ord_inv_display:
  "ord_inv s a pre post \<Longrightarrow> visible s = spec_display (om_verbose s) a (pre @ post)"
  by (simp add: ord_inv_def spec_display_split)

lemma sim_run:
  assumes "ord_inv s a pre post"
    and "wf_events (set (pre @ post)) (sp_started a) {n. sp_status a n \<noteq> None} es"
    and "sp_started a \<subseteq> set (pre @ post)"
  shows "\<exists>s'. Manager_run es s = Some s' \<and> om_verbose s' = om_verbose s
     \<and> visible s' = spec_display (om_verbose s) (spec_run (pre @ post) es a) (pre @ post)"
  using assms
proof (induction es arbitrary: s a pre post)
  case Nil
  then show ?case by (simp add: spec_run_def ord_inv_display)
next
  case (Cons e es)
  let ?b = "spec_event (pre @ post) e a"
  have "event_ok (pre @ post) a e" using Cons.prems(2,3) by (cases e) auto
  from sim_event [OF Cons.prems(1) this] obtain s' pre' post' where
    s': "Manager_event e s = Some s'" "pre' @ post' = pre @ post"
      "om_verbose s' = om_verbose s" "ord_inv s' ?b pre' post'" by blast
  have "sp_started ?b \<subseteq> set (pre' @ post')"
    using Cons.prems(2,3) unfolding s'(2) by (cases e) auto
  moreover have "wf_events (set (pre' @ post')) (sp_started ?b) {n. sp_status ?b n \<noteq> None} es"
  proof (cases e)
    case (OnStepComplete n st msg d)
    then have "{m. sp_status ?b m \<noteq> None} = insert n {m. sp_status a m \<noteq> None}" by auto
    with OnStepComplete Cons.prems(2) show ?thesis unfolding s'(2) by simp
  qed (use Cons.prems(2) in \<open>auto simp: s'(2)\<close>)
  ultimately show ?case using Cons.IH [OF s'(4)] s' by (simp add: spec_run_def)
qed

lemma fold_RegisterStep:
  "om_steps (fold (\<lambda>st. RegisterStep (step_Action st)) sts s) = om_steps s
   \<and> om_currentStep (fold (\<lambda>st. RegisterStep (step_Action st)) sts s) = om_currentStep s
   \<and> om_verbose (fold (\<lambda>st. RegisterStep (step_Action st)) sts s) = om_verbose s
   \<and> om_log (fold (\<lambda>st. RegisterStep (step_Action st)) sts s) = om_log s
   \<and> data_of (fold (\<lambda>st. RegisterStep (step_Action st)) sts s) n =
       (if n \<in> step_Action ` set sts then Some zero_step_data else data_of s n)"
  by (induction sts arbitrary: s) (auto simp: RegisterStep_def update_conv')

lemma ord_inv_init:
  assumes "distinct (map step_Action steps)" "[] \<notin> step_Action ` set steps"
  shows "ord_inv (oc_manager (NewOrderedStepCallback steps v dbg c)) spec_init [] (map step_Action steps)"
proof -
  let ?s = "oc_manager (NewOrderedStepCallback steps v dbg c)"
  have f: "om_steps ?s = steps" "om_currentStep ?s = []" "om_verbose ?s = v" "visible ?s = []"
    "data_of ?s n = (if n \<in> step_Action ` set steps then Some zero_step_data else None)" for n
    using fold_RegisterStep [of steps "NewOrderedOutputManager steps v dbg c" n]
    by (simp_all add: NewOrderedStepCallback_def NewOrderedOutputManager_def visible_def)
  have "head_open spec_init (map step_Action steps)" "cur_step spec_init (map step_Action steps) = None"
    by (cases steps; simp add: spec_init_def cur_step_def)+
  with f assms show ?thesis
    by (auto simp: ord_inv_def data_ok_def step_names_def spec_init_def zero_step_data_def flags)
qed


lemma sim_run_steps:
  assumes "distinct (map step_Action steps)" "[] \<notin> step_Action ` set steps"
    and "wf_events (step_Action ` set steps) {} {} es"
  shows "\<exists>s. Manager_run es (oc_manager (NewOrderedStepCallback steps v dbg c)) = Some s
     \<and> visible s = spec_display v (spec_run (map step_Action steps) es spec_init)
                      (map step_Action steps)"
proof -
  let ?s = "oc_manager (NewOrderedStepCallback steps v dbg c)"
  have "om_verbose ?s = v"
    using fold_RegisterStep [of steps "NewOrderedOutputManager steps v dbg c"]
    by (simp add: NewOrderedStepCallback_def NewOrderedOutputManager_def)
  with sim_run [OF ord_inv_init [OF assms(1,2), of v dbg c], of es] assms(3) show ?thesis
    by (auto simp: spec_init_def)
qed

text \<open>C10: For a stage with distinct step names and any well-formed sequence of callbacks, the
  manager never dereferences a missing entry, and what it has written is exactly the
  specification's screen: complete blocks in declaration order up to the first step that has
  not completed, and the beginning of that step's block.\<close>

theorem ordered_display_refines:
  assumes "distinct (map step_Action steps)" "[] \<notin> step_Action ` set steps"
    and "wf_events (step_Action ` set steps) {} {} es"
  shows "\<exists>s. Manager_run es (oc_manager (NewOrderedStepCallback steps v dbg c)) = Some s
     \<and> visible s = spec_display v (spec_run (map step_Action steps) es spec_init)
                      (map step_Action steps)"
  using assms by (rule sim_run_steps)

definition two_steps :: "step list" where
  "two_steps =
     [\<lparr>step_Action = ''a'', step_Require = [], step_OnError = [], step_If = [], step_Only = []\<rparr>,
      \<lparr>step_Action = ''b'', step_Require = [], step_OnError = [], step_If = [], step_Only = []\<rparr>]"

definition two_events :: "cb_event list" where
  "two_events =
     [OnStepStart ''b'', OnStepStart ''a'', OnStepOutput ''b'' ''y'', OnStepOutput ''a'' ''x'',
      OnStepComplete ''b'' StepStatusOK ''done'' 5, OnStepComplete ''a'' StepStatusWarn ''w'' 7]"

theorem ordered_display_refines_witness:
  "\<exists>s. Manager_run two_events (oc_manager (NewOrderedStepCallback two_steps True False None)) = Some s
     \<and> visible s = [ShowStart ''a'', ShowOutput ''x'', ShowResult ''a'' StepStatusWarn [],
                    ShowStart ''b'', ShowOutput ''y'', ShowResult ''b'' StepStatusOK []]"
proof -
  have "spec_display True (spec_run (map step_Action two_steps) two_events spec_init)
          (map step_Action two_steps)
      = [ShowStart ''a'', ShowOutput ''x'', ShowResult ''a'' StepStatusWarn [],
         ShowStart ''b'', ShowOutput ''y'', ShowResult ''b'' StepStatusOK []]"
    by (simp add: two_steps_def two_events_def spec_run_def spec_init_def block_closed_def
        step_block_def shown_lines_def)
  with ordered_display_refines [of two_steps two_events True False None] show ?thesis
    by (simp add: two_steps_def two_events_def)
qed


subsection \<open>A finished stage\<close>

text \<open>
  The screen of a finished stage, read off the events: every line a step sent, in the order it
  sent them, between its start and its result. The outputs have to arrive before the step
  completes (\<open>prompt\<close>); without that a line may be lost, see \<open>late_line_lost\<close>.
\<close>

fun outputs_of :: "string \<Rightarrow> cb_event list \<Rightarrow> string list" where
  "outputs_of n [] = []"
| "outputs_of n (OnStepOutput m line # es) =
     (if m = n then line # outputs_of n es else outputs_of n es)"
| "outputs_of n (e # es) = outputs_of n es"

fun status_of :: "string \<Rightarrow> cb_event list \<Rightarrow> step_status option" where
  "status_of n [] = None"
| "status_of n (OnStepComplete m status message duration # es) =
     (if m = n then Some status else status_of n es)"
| "status_of n (e # es) = status_of n es"

fun prompt :: "string set \<Rightarrow> cb_event list \<Rightarrow> bool" where
  "prompt C [] = True"
| "prompt C (OnStepComplete n status message duration # es) = prompt (insert n C) es"
| "prompt C (OnStepOutput n line # es) = (n \<notin> C \<and> prompt C es)"
| "prompt C (e # es) = prompt C es"

definition full_block :: "bool \<Rightarrow> cb_event list \<Rightarrow> string \<Rightarrow> display list" where
  "full_block v es n =
     ShowStart n # (if v then map ShowOutput (outputs_of n es) else [])
       @ [ShowResult n (the (status_of n es)) []]"

lemma spec_run_lines:
  "prompt C es \<Longrightarrow> {n. sp_status a n \<noteq> None} \<subseteq> C \<Longrightarrow>
     sp_lines (spec_run names es a) n = sp_lines a n @ outputs_of n es"
proof (induction es arbitrary: a C)
  case (Cons e es)
  show ?case
  proof (cases e)
    case (OnStepStart m)
    with Cons.IH [of C "spec_event names e a"] Cons.prems show ?thesis by (simp add: spec_run_def)
  next
    case (OnStepComplete m st msg d)
    have "{n. sp_status (spec_event names e a) n \<noteq> None} \<subseteq> insert m C"
      using Cons.prems(2) OnStepComplete by auto
    with Cons.IH [of "insert m C" "spec_event names e a"] Cons.prems OnStepComplete
    show ?thesis by (simp add: spec_run_def)
  next
    case (OnStepOutput m l)
    then have "\<not> block_closed names a m" using Cons.prems by (auto simp: block_closed_def)
    with OnStepOutput Cons.IH [of C "spec_event names e a"] Cons.prems
    show ?thesis by (simp add: spec_run_def)
  next
    case (OnStepError m x)
    with Cons.IH [of C "spec_event names e a"] Cons.prems show ?thesis by (simp add: spec_run_def)
  qed
qed (simp add: spec_run_def)

lemma spec_run_status:
  "wf_events N S C es \<Longrightarrow> {n. sp_status a n \<noteq> None} = C \<Longrightarrow>
     sp_status (spec_run names es a) n
       = (case sp_status a n of None \<Rightarrow> status_of n es | Some st \<Rightarrow> Some st)"
proof (induction es arbitrary: a S C)
  case (Cons e es)
  show ?case
  proof (cases e)
    case (OnStepStart m)
    with Cons.IH [of "insert m S" C "spec_event names e a"] Cons.prems
    show ?thesis by (simp add: spec_run_def split: option.split)
  next
    case (OnStepComplete m st msg d)
    have "{n. sp_status (spec_event names e a) n \<noteq> None} = insert m C"
      using Cons.prems(2) OnStepComplete by auto
    moreover have "sp_status a m = None" using Cons.prems OnStepComplete by auto
    ultimately show ?thesis
      using Cons.IH [of S "insert m C" "spec_event names e a"] Cons.prems OnStepComplete
      by (auto simp: spec_run_def split: option.splits)
  next
    case (OnStepOutput m l)
    with Cons.IH [of S C "spec_event names e a"] Cons.prems
    show ?thesis by (auto simp: spec_run_def split: option.splits)
  next
    case (OnStepError m x)
    with Cons.IH [of S C "spec_event names e a"] Cons.prems show ?thesis by (simp add: spec_run_def split: option.split)
  qed
qed (simp add: spec_run_def split: option.split)

lemma spec_display_full:
  "\<forall>n \<in> set names. sp_status a n \<noteq> None \<Longrightarrow> spec_display v a names = concat (map (step_block v a) names)"
  by (induction names) auto

lemma complete_display:
  assumes "distinct (map step_Action steps)" "[] \<notin> step_Action ` set steps"
    and "wf_events (step_Action ` set steps) {} {} es" "prompt {} es"
    and "\<forall>st \<in> set steps. status_of (step_Action st) es \<noteq> None"
  shows "\<exists>s. Manager_run es (oc_manager (NewOrderedStepCallback steps v dbg c)) = Some s
     \<and> visible s = concat (map (full_block v es) (map step_Action steps))"
proof -
  let ?names = "map step_Action steps"
  let ?a = "spec_run ?names es spec_init"
  have st: "sp_status ?a n = status_of n es" for n
    using spec_run_status [OF assms(3), of spec_init] by (simp add: spec_init_def)
  have ls: "sp_lines ?a n = outputs_of n es" for n
    using spec_run_lines [OF assms(4), of spec_init] by (simp add: spec_init_def)
  have "step_block v ?a = full_block v es"
    by (simp add: step_block_def full_block_def shown_lines_def st ls fun_eq_iff)
  moreover have "spec_display v ?a ?names = concat (map (step_block v ?a) ?names)"
    using assms(5) by (intro spec_display_full) (simp add: st)
  ultimately show ?thesis using sim_run_steps [OF assms(1-3), of v dbg c] by simp
qed



text \<open>The line of a scanner that is late: written to the buffer, never to the screen.\<close>

lemma late_line_lost:
  "map_option visible (Manager_run
     [OnStepStart ''a'', OnStepComplete ''a'' StepStatusOK [] 0, OnStepOutput ''a'' ''x'']
     (oc_manager (NewOrderedStepCallback [hd two_steps] True False None)))
   = Some [ShowStart ''a'', ShowResult ''a'' StepStatusOK []]"
proof -
  have "\<exists>s. Manager_run
     [OnStepStart ''a'', OnStepComplete ''a'' StepStatusOK [] 0, OnStepOutput ''a'' ''x'']
     (oc_manager (NewOrderedStepCallback [hd two_steps] True False None)) = Some s
     \<and> visible s = [ShowStart ''a'', ShowResult ''a'' StepStatusOK []]"
    using sim_run_steps [of "[hd two_steps]"
      "[OnStepStart ''a'', OnStepComplete ''a'' StepStatusOK [] 0, OnStepOutput ''a'' ''x'']"
      True False None]
    by (simp add: two_steps_def spec_run_def spec_init_def block_closed_def step_block_def
        shown_lines_def)
  then show ?thesis by auto
qed

end
