(* ===== verification/Dag_Trace.thy ===== *)
theory Dag_Trace
  imports Dag_Exec Ordered_Correct
begin

text \<open>
  The calls the step callback receives while \<open>executeDAGWithCallback\<close> runs. \<open>proj n\<close> are the
  calls about one step; \<open>trace_inv\<close> says for every step how they relate to its state, and
  \<open>trace_wf\<close> that the whole sequence is one the ordered output manager expects.
\<close>

section \<open>One step's events\<close>

definition proj :: "string \<Rightarrow> cb_event list \<Rightarrow> cb_event list" where
  "proj n es = filter (\<lambda>e. event_step e = n) es"

lemma proj_simps [simp]:
  "proj n [] = []" "proj n (e # es) = (if event_step e = n then e # proj n es else proj n es)"
  "proj n (es @ fs) = proj n es @ proj n fs"
  by (simp_all add: proj_def)

lemma wf_events_cong:
  "\<forall>e \<in> set es. event_step e = n \<Longrightarrow> (n \<in> S) = (n \<in> S') \<Longrightarrow> (n \<in> C) = (n \<in> C') \<Longrightarrow>
     wf_events N S C es = wf_events N S' C' es"
proof (induction es arbitrary: S S' C C')
  case (Cons e es)
  show ?case
  proof (cases e)
    case (OnStepStart m)
    have "wf_events N (insert m S) C es = wf_events N (insert m S') C' es"
      using Cons by (intro Cons.IH) auto
    with OnStepStart Cons.prems show ?thesis by auto
  next
    case (OnStepComplete m st msg d)
    have "wf_events N S (insert m C) es = wf_events N S' (insert m C') es"
      using Cons by (intro Cons.IH) auto
    with OnStepComplete Cons.prems show ?thesis by auto
  next
    case (OnStepOutput m l)
    have "wf_events N S C es = wf_events N S' C' es" using Cons by (intro Cons.IH) auto
    with OnStepOutput Cons.prems show ?thesis by auto
  next
    case (OnStepError m x)
    have "wf_events N S C es = wf_events N S' C' es" using Cons by (intro Cons.IH) auto
    with OnStepError Cons.prems show ?thesis by auto
  qed
qed simp

fun after_S :: "cb_event \<Rightarrow> string set \<Rightarrow> string set" where
  "after_S (OnStepStart n) S = insert n S"
| "after_S e S = S"

fun after_C :: "cb_event \<Rightarrow> string set \<Rightarrow> string set" where
  "after_C (OnStepComplete n _ _ _) C = insert n C"
| "after_C e C = C"

lemma wf_events_step:
  "wf_events N S C (e # es) = (wf_events N S C [e] \<and> wf_events N (after_S e S) (after_C e C) es)"
  by (cases e) auto

lemma after_other: "m \<noteq> event_step e \<Longrightarrow> (m \<in> after_S e S) = (m \<in> S) \<and> (m \<in> after_C e C) = (m \<in> C)"
  by (cases e) auto

lemma wf_events_proj:
  "(\<And>n. wf_events N S C (proj n es)) \<Longrightarrow> wf_events N S C es"
proof (induction es arbitrary: S C)
  case (Cons e es)
  have e: "wf_events N S C [e]" "wf_events N (after_S e S) (after_C e C) (proj (event_step e) es)"
    using Cons.prems [of "event_step e"] wf_events_step [of N S C e "proj (event_step e) es"] by auto
  have "wf_events N (after_S e S) (after_C e C) (proj n es)" for n
  proof (cases "n = event_step e")
    case False
    have "wf_events N S C (proj n es)" using Cons.prems [of n] False by auto
    moreover have "wf_events N (after_S e S) (after_C e C) (proj n es) = wf_events N S C (proj n es)"
      using after_other [OF False, of S C] by (intro wf_events_cong [of _ n]) (auto simp: proj_def)
    ultimately show ?thesis by simp
  qed (use e in simp)
  from Cons.IH [OF this] e(1) show ?case by (subst wf_events_step) simp
qed simp

lemma wf_events_prefix: "wf_events N S C (es @ fs) \<Longrightarrow> wf_events N S C es"
proof (induction es arbitrary: S C)
  case (Cons e es)
  then show ?case by (metis append_Cons wf_events_step)
qed simp

lemma status_of_proj: "status_of n es = status_of n (proj n es)"
proof (induction es)
  case (Cons e es)
  then show ?case by (cases e) auto
qed simp

lemma outputs_of_proj: "outputs_of n es = outputs_of n (proj n es)"
proof (induction es)
  case (Cons e es)
  then show ?case by (cases e) auto
qed simp

lemma status_of_append:
  "status_of n (es @ fs) = (case status_of n es of None \<Rightarrow> status_of n fs | Some st \<Rightarrow> Some st)"
proof (induction es)
  case (Cons e es)
  then show ?case by (cases e) auto
qed simp

text \<open>What a worker sends: start, outputs, errors, one completion.\<close>

definition run_shape :: "string \<Rightarrow> action_run \<Rightarrow> bool" where
  "run_shape n run =
     (\<exists>outs errs st msg d. ar_events run = OnStepStart n # map (OnStepOutput n) outs
          @ map (OnStepError n) errs @ [OnStepComplete n st msg d]
        \<and> (\<exists>ls. ar_late run = map (OnStepOutput n) ls))"

lemma wf_outputs: "n \<in> S \<Longrightarrow> wf_events N S C (map (OnStepOutput n) ls @ es) = wf_events N S C es"
  by (induction ls) auto

lemma wf_errors: "wf_events N S C (map (OnStepError n) ls @ es) = wf_events N S C es"
  by (induction ls) auto

lemma run_shape_wf:
  assumes "run_shape n run" "n \<in> N"
  shows "wf_events N {} {} (ar_events run @ ar_late run)"
proof -
  obtain outs errs st msg d ls where r: "ar_events run = OnStepStart n # map (OnStepOutput n) outs
          @ map (OnStepError n) errs @ [OnStepComplete n st msg d]" "ar_late run = map (OnStepOutput n) ls"
    using assms(1) by (auto simp: run_shape_def)
  show ?thesis
    using assms(2) wf_outputs [of n "{n}" N "{n}" ls "[]"] by (simp add: r wf_outputs wf_errors)
qed

lemma run_shape_step:
  "run_shape n run \<Longrightarrow> \<forall>e \<in> set (ar_events run @ ar_late run). event_step e = n"
  by (auto simp: run_shape_def)

lemma proj_all: "\<forall>e \<in> set es. event_step e = n \<Longrightarrow> proj m es = (if m = n then es else [])"
  by (auto simp: proj_def filter_empty_conv intro: filter_True)

section \<open>The trace of a run\<close>

definition cond_events :: "exec_env \<Rightarrow> string \<Rightarrow> cb_event list" where
  "cond_events E n =
     (if xe_callback E
      then [OnStepComplete n StepStatusSkipped ''skipped (condition not met)'' 0] else [])"

definition done_trace :: "exec_env \<Rightarrow> exec_state \<Rightarrow> result \<Rightarrow> bool" where
  "done_trace E s r =
     (let n = res_Name r; p = proj n (xs_events s)
      in (\<exists>run c es. xe_run E n = Some run \<and> r = worker_result c n run \<and> (n, es) \<in> set (xs_late s)
            \<and> p @ es = ar_events run @ ar_late run \<and> length es \<le> length (ar_late run))
       \<or> (r = skip_cond_result n \<and> p = cond_events E n \<and> n \<notin> fst ` set (xs_late s))
       \<or> ((\<exists>ds. r = skip_dep_result n ds) \<and> p = [] \<and> n \<notin> fst ` set (xs_late s)))"

definition work_trace :: "exec_env \<Rightarrow> exec_state \<Rightarrow> string \<Rightarrow> cb_event list \<Rightarrow> bool" where
  "work_trace E s n es =
     (\<exists>run. xe_run E n = Some run \<and> proj n (xs_events s) @ es = ar_events run
        \<and> n \<notin> fst ` set (xs_late s))"

definition trace_inv :: "exec_env \<Rightarrow> exec_state \<Rightarrow> bool" where
  "trace_inv E s =
     ((\<forall>n. n \<notin> started s \<longrightarrow> proj n (xs_events s) = [] \<and> n \<notin> fst ` set (xs_late s))
      \<and> (\<forall>(n, es) \<in> set (xs_workers s). work_trace E s n es)
      \<and> (\<forall>r \<in> set (xs_results s @ xs_chan s). done_trace E s r)
      \<and> distinct (map fst (xs_late s)))"

lemma trace_frame:
  assumes "trace_inv E s" "xs_events t = xs_events s" "xs_late t = xs_late s" "started t = started s"
    "set (xs_workers t) \<subseteq> set (xs_workers s)"
    "set (xs_results t @ xs_chan t) \<subseteq> set (xs_results s @ xs_chan s)"
  shows "trace_inv E t"
  using assms unfolding trace_inv_def work_trace_def done_trace_def by (simp add: subset_iff) blast

text \<open>Another step's events and scanners do not matter.\<close>

lemma done_other:
  assumes "done_trace E s r" "proj (res_Name r) (xs_events t) = proj (res_Name r) (xs_events s)"
    "\<And>es. (res_Name r, es) \<in> set (xs_late t) \<longleftrightarrow> (res_Name r, es) \<in> set (xs_late s)"
  shows "done_trace E t r"
  using assms unfolding done_trace_def Let_def by (force simp: image_iff)

lemma work_other:
  assumes "work_trace E s n es" "proj n (xs_events t) = proj n (xs_events s)"
    "\<And>es. (n, es) \<in> set (xs_late t) \<longleftrightarrow> (n, es) \<in> set (xs_late s)"
  shows "work_trace E t n es"
  using assms unfolding work_trace_def by (force simp: image_iff)


definition runs_ok :: "exec_env \<Rightarrow> bool" where
  "runs_ok E = (\<forall>n run. xe_run E n = Some run \<longrightarrow> run_shape n run)"

lemma run_event_step:
  assumes "runs_ok E" "xe_run E n = Some run" "p @ e # es = ar_events run \<or> p @ e # es = ar_events run @ ar_late run"
  shows "event_step e = n"
proof -
  have "e \<in> set (ar_events run @ ar_late run)"
    using assms(3) by (metis Un_iff in_set_conv_decomp set_append)
  then show ?thesis using run_shape_step [of n run] assms(1,2) by (simp add: runs_ok_def)
qed

lemma trace_skip:
  assumes T: "trace_inv E s" and I: "exec_inv E s" and pc: "xs_pc s = Starting (n # ns)"
    and r: "res_Name r = n" "(r = skip_cond_result n \<and> evs = cond_events E n)
        \<or> ((\<exists>ds. r = skip_dep_result n ds) \<and> evs = [])"
  shows "trace_inv E (send_skipped n r evs ns s)"
proof -
  let ?t = "send_skipped n r evs ns s"
  have f: "xs_events ?t = xs_events s @ evs" "xs_late ?t = xs_late s" "started ?t = insert n (started s)"
    "xs_workers ?t = xs_workers s" "xs_results ?t = xs_results s" "xs_chan ?t = xs_chan s @ [r]"
    by (auto simp: send_skipped_def started_def)
  have new: "n \<notin> started s"
    using starting_okD [OF I pc] by (auto simp: starting_ok_def started_def)
  have pe: "proj m evs = (if m = n then evs else [])" for m
    using r(2) by (auto simp: cond_events_def)
  have other: "proj m (xs_events ?t) = proj m (xs_events s)" if "m \<noteq> n" for m
    using that by (simp add: f pe)
  have n: "proj n (xs_events ?t) = evs" "n \<notin> fst ` set (xs_late s)"
    using T new by (simp_all add: trace_inv_def f pe)
  have in_started: "m \<in> started s" if "m \<in> fst ` set (xs_workers s) \<union> res_Name ` set (xs_results s @ xs_chan s)" for m
    using that unfolding started_def exec_inv_parts(1,2) [OF I] names_of_def by auto
  show ?thesis
    unfolding trace_inv_def f
  proof (intro conjI allI impI ballI)
    show "proj m (xs_events s @ evs) = []" "m \<notin> fst ` set (xs_late s)"
      if "m \<notin> insert n (started s)" for m
      using that T pe by (auto simp: trace_inv_def)
    show "case w of (m, es) \<Rightarrow> work_trace E ?t m es" if "w \<in> set (xs_workers s)" for w
    proof (cases w)
      case (Pair m es)
      then have "m \<noteq> n" using that in_started [of m] new by force
      moreover have "work_trace E s m es" using T that Pair by (auto simp: trace_inv_def)
      ultimately show ?thesis unfolding Pair prod.case
        using work_other [of E s m es ?t] other f(2) by simp
    qed
    show "done_trace E ?t q" if "q \<in> set (xs_results s @ xs_chan s @ [r])" for q
    proof (cases "q = r")
      case True
      then show ?thesis using r n unfolding done_trace_def Let_def by (auto simp: f)
    next
      case False
      then have q: "q \<in> set (xs_results s @ xs_chan s)" using that by auto
      then have "res_Name q \<noteq> n" using in_started [of "res_Name q"] new by force
      moreover have "done_trace E s q" using T q by (simp add: trace_inv_def)
      ultimately show ?thesis using done_other [of E s q ?t] other f(2) by simp
    qed
    show "distinct (map fst (xs_late s))" using T by (simp add: trace_inv_def)
  qed
qed

lemma trace_spawn:
  assumes T: "trace_inv E s" and I: "exec_inv E s" and pc: "xs_pc s = Starting (n # ns)"
    and run: "xe_run E n = Some run"
  shows "trace_inv E (spawn n run ns s)"
proof -
  let ?t = "spawn n run ns s"
  have f: "xs_events ?t = xs_events s" "xs_late ?t = xs_late s" "started ?t = insert n (started s)"
    "xs_workers ?t = xs_workers s @ [(n, ar_events run)]" "xs_results ?t = xs_results s"
    "xs_chan ?t = xs_chan s"
    by (auto simp: spawn_def started_def)
  have new: "n \<notin> started s"
    using starting_okD [OF I pc] by (auto simp: starting_ok_def started_def)
  have "work_trace E ?t n (ar_events run)"
    using T new run by (simp add: work_trace_def trace_inv_def f)
  moreover have "work_trace E ?t m es" if "(m, es) \<in> set (xs_workers s)" for m es
    using T that work_other [of E s m es ?t] f by (auto simp: trace_inv_def)
  moreover have "done_trace E ?t r" if "r \<in> set (xs_results s @ xs_chan s)" for r
    using T that done_other [of E s r ?t] f unfolding trace_inv_def by metis
  ultimately show ?thesis
    using T unfolding trace_inv_def f by auto
qed

text \<open>An event of step \<open>n\<close>, by its worker or by a scanner.\<close>

lemma trace_emit:
  assumes T: "trace_inv E s" and I: "exec_inv E s" and e: "event_step e = n"
    and f: "xs_events t = xs_events s @ [e]" "started t = started s"
      "xs_results t = xs_results s" "xs_chan t = xs_chan s" "map fst (xs_late t) = map fst (xs_late s)"
    and n: "n \<in> started s"
    and others: "\<And>m es. m \<noteq> n \<Longrightarrow> (m, es) \<in> set (xs_workers t) \<longleftrightarrow> (m, es) \<in> set (xs_workers s)"
      "\<And>m es. m \<noteq> n \<Longrightarrow> (m, es) \<in> set (xs_late t) \<longleftrightarrow> (m, es) \<in> set (xs_late s)"
    and own: "\<And>es. (n, es) \<in> set (xs_workers t) \<Longrightarrow> work_trace E t n es"
      "\<And>r. r \<in> set (xs_results s @ xs_chan s) \<Longrightarrow> res_Name r = n \<Longrightarrow> done_trace E t r"
  shows "trace_inv E t"
proof -
  have other: "proj m (xs_events t) = proj m (xs_events s)" if "m \<noteq> n" for m
    using that e by (simp add: f)
  have late: "fst ` set (xs_late t) = fst ` set (xs_late s)" using f(5) by (metis list.set_map)
  show ?thesis
    unfolding trace_inv_def f(2-5) late
  proof (intro conjI allI impI ballI)
    show "proj m (xs_events t) = []" "m \<notin> fst ` set (xs_late s)" if "m \<notin> started s" for m
      using T that other [of m] n by (auto simp: trace_inv_def)
    show "case w of (m, es) \<Rightarrow> work_trace E t m es" if "w \<in> set (xs_workers t)" for w
    proof (cases w)
      case (Pair m es)
      show ?thesis
      proof (cases "m = n")
        case True
        with own(1) that Pair show ?thesis by simp
      next
        case False
        then have "work_trace E s m es" using T that Pair others(1) by (auto simp: trace_inv_def)
        then show ?thesis using work_other [of E s m es t] other [OF False] others(2) [OF False] Pair by simp
      qed
    qed
    show "done_trace E t q" if "q \<in> set (xs_results s @ xs_chan s)" for q
    proof (cases "res_Name q = n")
      case True
      with own(2) that show ?thesis by blast
    next
      case False
      have "done_trace E s q" using T that by (simp add: trace_inv_def)
      then show ?thesis using done_other [of E s q t] other [OF False] others(2) [OF False] by blast
    qed
    show "distinct (map fst (xs_late s))" using T by (simp add: trace_inv_def)
  qed
qed

lemma distinct_fst_mid:
  "distinct (map fst (xs @ (n, a) # ys)) \<Longrightarrow> (n, b) \<in> set (xs @ (n, a) # ys) \<Longrightarrow> b = a"
  by (metis eq_key_imp_eq_value in_set_conv_decomp)

lemma distinct_fst_mid_iff:
  "distinct (map fst (xs @ (n, a) # ys)) \<Longrightarrow> m \<noteq> n \<or> c = b \<Longrightarrow>
     (m, c) \<in> set (xs @ (n, b) # ys) \<longleftrightarrow> (m = n \<and> c = b) \<or> (m \<noteq> n \<and> (m, c) \<in> set (xs @ (n, a) # ys))"
  by (auto simp: rev_image_eqI)

lemma trace_work_event:
  assumes T: "trace_inv E s" and I: "exec_inv E s" and ro: "runs_ok E"
    and w: "xs_workers s = ws @ (n, e # es) # ws'"
  shows "trace_inv E (s\<lparr>xs_workers := ws @ (n, es) # ws', xs_events := xs_events s @ [e]\<rparr>)"
proof (rule trace_emit [OF T I])
  have wt: "work_trace E s n (e # es)" using T w by (auto simp: trace_inv_def)
  then obtain run where run: "xe_run E n = Some run" "proj n (xs_events s) @ e # es = ar_events run"
    "n \<notin> fst ` set (xs_late s)" by (auto simp: work_trace_def)
  show e: "event_step e = n" using run_event_step [OF ro run(1)] run(2) by blast
  show "n \<in> started s" unfolding started_def exec_inv_parts(1) [OF I] w by simp
  have dist: "distinct (map fst (xs_workers s))" using exec_inv_parts(4) [OF I] by simp
  fix m es' assume "m \<noteq> n"
  then show "(m, es') \<in> set (xs_workers (s\<lparr>xs_workers := ws @ (n, es) # ws', xs_events := xs_events s @ [e]\<rparr>))
      \<longleftrightarrow> (m, es') \<in> set (xs_workers s)" using w by auto
next
  have wt: "work_trace E s n (e # es)" using T w by (auto simp: trace_inv_def)
  then obtain run where run: "xe_run E n = Some run" "proj n (xs_events s) @ e # es = ar_events run"
    "n \<notin> fst ` set (xs_late s)" by (auto simp: work_trace_def)
  have e: "event_step e = n" using run_event_step [OF ro run(1)] run(2) by blast
  fix es' assume m: "(n, es') \<in> set (xs_workers (s\<lparr>xs_workers := ws @ (n, es) # ws', xs_events := xs_events s @ [e]\<rparr>))"
  have "distinct (map fst (ws @ (n, es) # ws'))" using exec_inv_parts(4) [OF I] w by simp
  then have "es' = es" using m distinct_fst_mid [of ws n es ws' es'] by simp
  then show "work_trace E (s\<lparr>xs_workers := ws @ (n, es) # ws', xs_events := xs_events s @ [e]\<rparr>) n es'"
    using run e by (simp add: work_trace_def)
next
  fix r assume r: "r \<in> set (xs_results s @ xs_chan s)" "res_Name r = n"
  have "n \<in> fst ` set (xs_workers s)" using w by simp
  moreover have "n \<in> set (names_of (xs_results s @ xs_chan s))" using r by (auto simp: names_of_def)
  ultimately show "done_trace E (s\<lparr>xs_workers := ws @ (n, es) # ws', xs_events := xs_events s @ [e]\<rparr>) r"
    using exec_inv_parts(4) [OF I] by auto
qed (simp_all add: started_def)

lemma trace_late_event:
  assumes T: "trace_inv E s" and I: "exec_inv E s" and ro: "runs_ok E"
    and l: "xs_late s = ls @ (n, e # es) # ls'"
  shows "trace_inv E (s\<lparr>xs_late := ls @ (n, es) # ls', xs_events := xs_events s @ [e]\<rparr>)"
proof -
  let ?t = "s\<lparr>xs_late := ls @ (n, es) # ls', xs_events := xs_events s @ [e]\<rparr>"
  have inl: "n \<in> fst ` set (xs_late s)" using l by simp
  have n: "n \<in> started s" using T inl unfolding trace_inv_def by blast
  have nw: "n \<notin> fst ` set (xs_workers s)"
  proof
    assume "n \<in> fst ` set (xs_workers s)"
    then obtain es' where "(n, es') \<in> set (xs_workers s)" by auto
    then have "work_trace E s n es'" using T by (auto simp: trace_inv_def)
    then show False using inl by (simp add: work_trace_def)
  qed
  have dist: "distinct (map fst (ls @ (n, e # es) # ls'))" using T l by (simp add: trace_inv_def)
  have own: "\<exists>run c. xe_run E n = Some run \<and> r = worker_result c n run
      \<and> proj n (xs_events s) @ e # es = ar_events run @ ar_late run \<and> Suc (length es) \<le> length (ar_late run)"
    if r: "r \<in> set (xs_results s @ xs_chan s)" "res_Name r = n" for r
  proof -
    have "done_trace E s r" using T r by (simp add: trace_inv_def)
    then obtain run c es' where "xe_run E n = Some run" "r = worker_result c n run"
      "(n, es') \<in> set (xs_late s)" "proj n (xs_events s) @ es' = ar_events run @ ar_late run"
      "length es' \<le> length (ar_late run)"
      using inl r(2) unfolding done_trace_def Let_def by auto
    moreover have "es' = e # es" using distinct_fst_mid [OF dist] calculation(3) l by simp
    ultimately show ?thesis by auto
  qed
  have "n \<in> set (names_of (xs_results s @ xs_chan s))"
    using n nw unfolding started_def exec_inv_parts(1,2) [OF I] by auto
  then obtain r where r: "r \<in> set (xs_results s @ xs_chan s)" "res_Name r = n"
    by (auto simp: names_of_def)
  from own [OF r] ro have e: "event_step e = n" using run_event_step [OF ro] by metis
  show ?thesis
  proof (rule trace_emit [OF T I e])
    show "n \<in> started s" by (rule n)
    show "map fst (xs_late ?t) = map fst (xs_late s)" using l by simp
    show "(m, es') \<in> set (xs_late ?t) \<longleftrightarrow> (m, es') \<in> set (xs_late s)" if "m \<noteq> n" for m es'
      using that l by auto
    show "work_trace E ?t n es'" if "(n, es') \<in> set (xs_workers ?t)" for es'
    proof -
      have "n \<in> fst ` set (xs_workers s)" using that by (simp add: rev_image_eqI)
      with nw show ?thesis by blast
    qed
    show "done_trace E ?t q" if q: "q \<in> set (xs_results s @ xs_chan s)" "res_Name q = n" for q
    proof -
      obtain run c where "xe_run E n = Some run" "q = worker_result c n run"
        "proj n (xs_events s) @ e # es = ar_events run @ ar_late run"
        "Suc (length es) \<le> length (ar_late run)" using own [OF q] by blast
      then have "xe_run E n = Some run \<and> q = worker_result c n run \<and> (n, es) \<in> set (xs_late ?t)
          \<and> proj n (xs_events ?t) @ es = ar_events run @ ar_late run \<and> length es \<le> length (ar_late run)"
        using e by simp
      then show ?thesis unfolding done_trace_def Let_def q(2) by blast
    qed
  qed (simp_all add: started_def)
qed

lemma trace_work_done:
  assumes T: "trace_inv E s" and I: "exec_inv E s"
    and w: "xs_workers s = ws @ (n, []) # ws'" and run: "xe_run E n = Some run"
  shows "trace_inv E (s\<lparr>xs_workers := ws @ ws', xs_chan := xs_chan s @ [worker_result (xs_cancelled s) n run],
          xs_late := xs_late s @ [(n, ar_late run)]\<rparr>)"
proof -
  let ?r = "worker_result (xs_cancelled s) n run"
  let ?t = "s\<lparr>xs_workers := ws @ ws', xs_chan := xs_chan s @ [?r], xs_late := xs_late s @ [(n, ar_late run)]\<rparr>"
  have wt: "work_trace E s n []" using T w by (auto simp: trace_inv_def)
  then have pn: "proj n (xs_events s) = ar_events run" "n \<notin> fst ` set (xs_late s)"
    using run by (auto simp: work_trace_def)
  have n: "n \<in> started s" unfolding started_def exec_inv_parts(1) [OF I] w by simp
  have st: "started ?t = started s" by (simp add: started_def)
  have dist: "distinct (names_of (xs_results s) @ names_of (xs_chan s) @ map fst (xs_workers s))"
    by (rule exec_inv_parts(4) [OF I])
  show ?thesis
    unfolding trace_inv_def st
  proof (intro conjI allI impI ballI)
    show "proj m (xs_events ?t) = []" "m \<notin> fst ` set (xs_late ?t)" if "m \<notin> started s" for m
      using T that n by (auto simp: trace_inv_def)
    show "case v of (m, es) \<Rightarrow> work_trace E ?t m es" if v: "v \<in> set (xs_workers ?t)" for v
    proof (cases v)
      case (Pair m es)
      have "m \<noteq> n" using v Pair dist w by (auto simp: rev_image_eqI)
      moreover have "work_trace E s m es" using T v Pair w by (auto simp: trace_inv_def)
      ultimately show ?thesis unfolding Pair prod.case
        by (elim work_other) auto
    qed
    show "done_trace E ?t q" if q: "q \<in> set (xs_results ?t @ xs_chan ?t)" for q
    proof (cases "q = ?r")
      case True
      have "xe_run E n = Some run \<and> (n, ar_late run) \<in> set (xs_late ?t)
          \<and> proj n (xs_events ?t) @ ar_late run = ar_events run @ ar_late run
          \<and> length (ar_late run) \<le> length (ar_late run)" using pn run by simp
      then show ?thesis unfolding done_trace_def Let_def True res_Name_mk by blast
    next
      case False
      then have q': "q \<in> set (xs_results s @ xs_chan s)" using q by auto
      then have "res_Name q \<in> set (names_of (xs_results s @ xs_chan s))" by (auto simp: names_of_def)
      then have "res_Name q \<noteq> n" using dist w by auto
      moreover have "done_trace E s q" using T q' by (simp add: trace_inv_def)
      ultimately show ?thesis by (elim done_other) auto
    qed
    show "distinct (map fst (xs_late ?t))" using T pn(2) by (simp add: trace_inv_def)
  qed
qed

lemma trace_inv_init: "trace_inv E exec_init"
  by (simp add: trace_inv_def exec_init_def started_def)

lemma trace_inv_step:
  assumes T: "trace_inv E s" and I: "exec_inv E s" and ro: "runs_ok E" and st: "exec_step E s t"
  shows "trace_inv E t"
  using st
proof cases
  case (start_skip_dep n ns nd)
  show ?thesis unfolding start_skip_dep(1)
    by (rule trace_skip [OF T I start_skip_dep(2)]) auto
next
  case (start_skip_cond n ns nd)
  show ?thesis unfolding start_skip_cond(1)
    by (rule trace_skip [OF T I start_skip_cond(2)]) (auto simp: cond_events_def)
next
  case (start_run n ns nd run)
  show ?thesis unfolding start_run(1) by (rule trace_spawn [OF T I start_run(2,7)])
next
  case (work_event ws n e es ws')
  show ?thesis unfolding work_event(1) by (rule trace_work_event [OF T I ro work_event(3)])
next
  case (work_done ws n ws' run)
  show ?thesis unfolding work_done(1) by (rule trace_work_done [OF T I work_done(3,4)])
next
  case (late_event ls n e es ls')
  show ?thesis unfolding late_event(1) by (rule trace_late_event [OF T I ro late_event(3)])
next
  case (collect r rs)
  have "res_Name r \<in> xs_executing s" using exec_inv_parts(1) [OF I] collect(3) by simp
  then have "started t = started s" by (auto simp: started_def collect(1) collect_result_def)
  then show ?thesis
    by (intro trace_frame [OF T]) (auto simp: collect(1,3) collect_result_def)
qed (rule trace_frame [OF T]; simp add: started_def)+

lemma trace_inv_reach:
  assumes "exec_reach E s" "distinct (map fst (xe_dag E))" "runs_ok E"
  shows "trace_inv E s"
  using assms
proof (induction rule: exec_reach.induct)
  case (step s t)
  then show ?case using trace_inv_step exec_reach_inv by blast
qed (rule trace_inv_init)

text \<open>Every trace is what the manager expects.\<close>

lemma trace_wf_proj:
  assumes "exec_reach E s" "distinct (map fst (xe_dag E))" "runs_ok E"
  shows "wf_events (dag_names (xe_dag E)) {} {} (proj n (xs_events s))"
proof -
  let ?N = "dag_names (xe_dag E)"
  have I: "exec_inv E s" using exec_reach_inv [OF assms(1,2)] .
  have T: "trace_inv E s" using trace_inv_reach [OF assms] .
  have pre: "wf_events ?N {} {} p" if "n \<in> ?N" "xe_run E n = Some run" "p @ es = ar_events run @ ar_late run"
    for p es run
    using run_shape_wf [of n run ?N] assms(3) that wf_events_prefix by (metis runs_ok_def)
  show "wf_events ?N {} {} (proj n (xs_events s))"
  proof (cases "n \<in> started s")
    case False
    then have "proj n (xs_events s) = []" using T by (simp add: trace_inv_def)
    then show ?thesis by simp
  next
    case True
    then have nN: "n \<in> ?N" using exec_inv_parts(5) [OF I] by (auto simp: started_def)
    consider es where "(n, es) \<in> set (xs_workers s)"
      | r where "r \<in> set (xs_results s @ xs_chan s)" "res_Name r = n"
      using True unfolding started_def exec_inv_parts(1,2) [OF I] names_of_def by auto
    then show ?thesis
    proof cases
      case 1
      then have "work_trace E s n es" using T by (auto simp: trace_inv_def)
      then obtain run where "xe_run E n = Some run" "proj n (xs_events s) @ es = ar_events run"
        by (auto simp: work_trace_def)
      then show ?thesis using pre [OF nN, of run _ "es @ ar_late run"] by simp
    next
      case 2
      then have "done_trace E s r" using T by (simp add: trace_inv_def)
      then show ?thesis using pre [OF nN] 2(2) nN
        unfolding done_trace_def Let_def cond_events_def by auto
    qed
  qed
qed

lemma trace_wf:
  assumes "exec_reach E s" "distinct (map fst (xe_dag E))" "runs_ok E"
  shows "wf_events (dag_names (xe_dag E)) {} {} (xs_events s)"
  using trace_wf_proj [OF assms] by (rule wf_events_proj)


section \<open>What the trace says about a result\<close>

lemma run_shape_status:
  assumes "run_shape n run"
  shows "\<exists>st. status_of n (ar_events run) = Some st"
proof -
  obtain outs errs st msg d where r: "ar_events run = OnStepStart n # map (OnStepOutput n) outs
          @ map (OnStepError n) errs @ [OnStepComplete n st msg d]"
    using assms by (auto simp: run_shape_def)
  have "status_of n (map (OnStepOutput n) outs @ es) = status_of n es"
    "status_of n (map (OnStepError n) errs @ es) = status_of n es" for es
    by (induction outs; induction errs; simp)+
  then show ?thesis by (simp add: r)
qed

lemma append_eq_prefix: "p @ es = xs @ ys \<Longrightarrow> length es \<le> length ys \<Longrightarrow> \<exists>zs. p = xs @ zs"
  by (metis add_le_imp_le_left append_eq_append_conv_if append_take_drop_id length_append
      linorder_not_le add.commute add_less_le_mono order_less_irrefl)

lemma result_trace:
  assumes "exec_reach E s" "distinct (map fst (xe_dag E))" "runs_ok E"
    and "r \<in> set (xs_results s @ xs_chan s)" "res_Name r = n"
  obtains (run) run c zs where "xe_run E n = Some run" "r = worker_result c n run"
      "proj n (xs_events s) = ar_events run @ zs" "ar_late run = [] \<Longrightarrow> zs = []"
    | (cond) "r = skip_cond_result n" "proj n (xs_events s) = cond_events E n"
    | (dep) ds where "r = skip_dep_result n ds" "proj n (xs_events s) = []"
proof -
  have "done_trace E s r" using trace_inv_reach [OF assms(1-3)] assms(4) by (simp add: trace_inv_def)
  then consider (a) run c es where "xe_run E n = Some run" "r = worker_result c n run"
      "proj n (xs_events s) @ es = ar_events run @ ar_late run" "length es \<le> length (ar_late run)"
    | (b) "r = skip_cond_result n" "proj n (xs_events s) = cond_events E n"
    | (c) ds where "r = skip_dep_result n ds" "proj n (xs_events s) = []"
    unfolding done_trace_def Let_def assms(5) by auto
  then show thesis
  proof cases
    case a
    obtain zs where zs: "proj n (xs_events s) = ar_events run @ zs"
      using append_eq_prefix [OF a(3,4)] by blast
    then have "zs = []" if "ar_late run = []" using a(3,4) that by simp
    with a(1,2) zs show ?thesis by (rule run)
  qed (use cond dep in blast)+
qed

text \<open>Without scanners that outlive their command no line comes after a completion.\<close>

definition no_late :: "exec_env \<Rightarrow> bool" where
  "no_late E = (\<forall>n run. xe_run E n = Some run \<longrightarrow> ar_late run = [])"

lemma prompt_proj: "(\<And>n. prompt (C \<inter> {n}) (proj n es)) \<Longrightarrow> prompt C es"
proof (induction es arbitrary: C)
  case (Cons e es)
  have other: "prompt (C \<inter> {n}) (proj n es)" if "n \<noteq> event_step e" for n
    using Cons.prems [of n] that by simp
  show ?case
  proof (cases e)
    case (OnStepComplete m st msg d)
    have "prompt (insert m (C \<inter> {m})) (proj m es)" using Cons.prems [of m] OnStepComplete by simp
    moreover have "insert m (C \<inter> {m}) = {m}" by auto
    ultimately have "prompt {m} (proj m es)" by (simp only:)
    then have "prompt (insert m C \<inter> {n}) (proj n es)" for n
      using other [of n] OnStepComplete by (cases "n = m") auto
    then show ?thesis using Cons.IH OnStepComplete by simp
  next
    case (OnStepOutput m l)
    have "prompt (C \<inter> {n}) (proj n es)" for n
      using other [of n] Cons.prems [of m] OnStepOutput by (cases "n = m") auto
    then show ?thesis using Cons.IH Cons.prems [of m] OnStepOutput by simp
  next
    case (OnStepStart m)
    have "prompt (C \<inter> {n}) (proj n es)" for n
      using other [of n] Cons.prems [of m] OnStepStart by (cases "n = m") auto
    then show ?thesis using Cons.IH OnStepStart by simp
  next
    case (OnStepError m x)
    have "prompt (C \<inter> {n}) (proj n es)" for n
      using other [of n] Cons.prems [of m] OnStepError by (cases "n = m") auto
    then show ?thesis using Cons.IH OnStepError by simp
  qed
qed simp

lemma prompt_append: "prompt C (es @ fs) \<Longrightarrow> prompt C es"
proof (induction es arbitrary: C)
  case (Cons e es)
  then show ?case by (cases e) auto
qed simp

lemma prompt_run:
  assumes "run_shape n run" shows "prompt {} (ar_events run)"
proof -
  obtain outs errs st msg d where r: "ar_events run = OnStepStart n # map (OnStepOutput n) outs
          @ map (OnStepError n) errs @ [OnStepComplete n st msg d]"
    using assms by (auto simp: run_shape_def)
  have "prompt {} (map (OnStepOutput n) outs @ es) = prompt {} es"
    "prompt {} (map (OnStepError n) errs @ es) = prompt {} es" for es
    by (induction outs; induction errs; simp)+
  then show ?thesis by (simp add: r)
qed

text \<open>What a step's calls can be at any moment: the beginning of its run, or its skipping.\<close>

lemma proj_cases:
  assumes "exec_reach E s" "distinct (map fst (xe_dag E))" "runs_ok E" "no_late E"
  shows "proj n (xs_events s) \<in> {[], cond_events E n}
     \<or> (\<exists>run es. xe_run E n = Some run \<and> proj n (xs_events s) @ es = ar_events run)"
proof -
  have I: "exec_inv E s" using exec_reach_inv [OF assms(1,2)] .
  have T: "trace_inv E s" using trace_inv_reach [OF assms(1-3)] .
  show ?thesis
  proof (cases "n \<in> started s")
    case False
    then show ?thesis using T by (simp add: trace_inv_def)
  next
    case True
    consider es where "(n, es) \<in> set (xs_workers s)"
      | r where "r \<in> set (xs_results s @ xs_chan s)" "res_Name r = n"
      using True unfolding started_def exec_inv_parts(1,2) [OF I] names_of_def by auto
    then show ?thesis
    proof cases
      case 1
      then have "work_trace E s n es" using T by (auto simp: trace_inv_def)
      then show ?thesis by (auto simp: work_trace_def)
    next
      case 2
      then have "done_trace E s r" using T by (simp add: trace_inv_def)
      then show ?thesis using assms(4) 2(2) unfolding done_trace_def Let_def no_late_def by auto
    qed
  qed
qed

lemma trace_prompt:
  assumes "exec_reach E s" "distinct (map fst (xe_dag E))" "runs_ok E" "no_late E"
  shows "prompt {} (xs_events s)"
proof (rule prompt_proj)
  fix n
  have "prompt {} p" if "p @ es = ar_events run" "xe_run E n = Some run" for p es run
    using prompt_run [of n run] assms(3) that prompt_append by (metis runs_ok_def)
  then show "prompt ({} \<inter> {n}) (proj n (xs_events s))"
    using proj_cases [OF assms, of n] by (auto simp: cond_events_def)
qed

end
