(* ===== verification/Expression_Correct.thy ===== *)
theory Expression_Correct
  imports Expression
begin

text \<open>
  What a condition evaluates to: the types of results, which texts can panic, the meaning of
  \<open>&&\<close>, \<open>||\<close> and of a variable compared with a literal, and the laws of the
  comparison operators.
\<close>

section \<open>Induction on the parser\<close>

lemmas parser_simps = parseExpression.simps parseLogicalExpression.simps
  parseComparisonExpression.simps parseOperators.simps parseFunctionCall.simps parseArgs.simps

declare parser_simps [simp del]

lemmas parser_induct =
  parseExpression_parseLogicalExpression_parseComparisonExpression_parseOperators_parseFunctionCall_parseArgs.induct

section \<open>Types of results\<close>

fun value_type :: "expr_value \<Rightarrow> string" where
  "value_type (VBool _) = ''bool''"
| "value_type (VStr _) = ''string''"
| "value_type (VFloat _) = ''number''"
| "value_type (VInt _) = ''number''"

definition well_typed :: "expr_result \<Rightarrow> bool" where
  "well_typed r = (er_Type r = value_type (er_Value r))"

lemma well_typed_mk [simp]:
  "well_typed (mk_bool b)" "well_typed (mk_string s)" "well_typed (mk_number (VFloat v))"
  "well_typed (mk_number (VInt i))"
  by (simp_all add: well_typed_def mk_bool_def mk_string_def mk_number_def)

lemma or_else_Ok: "or_else a b = Ok r \<longleftrightarrow> a = Ok r \<or> ((\<exists>e. a = Err e) \<and> b = Ok r)"
  by (cases a) auto

lemma bool_op_Ok: "bool_op f a b = Ok r \<Longrightarrow> \<exists>c. r = mk_bool c"
  by (cases "(f, a, b)" rule: bool_op.cases) auto

lemma switch_function_typed: "switch_function env name args = Ok r \<Longrightarrow> well_typed r"
  by (auto simp: switch_function_def arity_error_def expr_error_def Let_def
      split: if_splits option.splits sum.splits)

lemma parseVariableReference_typed: "parseVariableReference env s ctx = Ok r \<Longrightarrow> well_typed r"
  by (auto simp: parseVariableReference_def split: if_splits res.splits option.splits)

lemma parser_typed:
  "(\<forall>r. parseExpression env ctx s = Ok r \<longrightarrow> well_typed r)"
  "(\<forall>r. parseLogicalExpression env ctx s1 = Ok r \<longrightarrow> well_typed r)"
  "(\<forall>r. parseComparisonExpression env ctx s2 = Ok r \<longrightarrow> well_typed r)"
  "(\<forall>r. parseOperators env ctx s3 ops = Ok r \<longrightarrow> well_typed r)"
  "(\<forall>r. parseFunctionCall env ctx s4 = Ok r \<longrightarrow> well_typed r)"
  "(\<forall>as. parseArgs env ctx ps = Ok as \<longrightarrow> (\<forall>a \<in> set as. well_typed a))"
proof (induction env ctx s and env ctx s1 and env ctx s2 and env ctx s3 ops and env ctx s4 and env ctx ps
    rule: parser_induct)
  case (1 env ctx expr0)
  then show ?case
    by (subst parseExpression.simps)
      (auto simp: Let_def or_else_Ok expr_error_def parseVariableReference_typed split: if_splits)
next
  case (2 env ctx expr)
  then show ?case
    by (subst parseLogicalExpression.simps)
      (auto simp: Let_def expr_error_def dest: bool_op_Ok split: if_splits res.splits option.splits)
next
  case (3 env ctx expr)
  then show ?case by (subst parseComparisonExpression.simps)
next
  case (4 env ctx expr)
  then show ?case by (simp add: parseOperators.simps expr_error_def)
next
  case (5 env ctx expr op ops)
  show ?case
  proof (cases "\<exists>p q. (if contains expr op then split_str op expr else []) = [p, q]")
    case True
    then obtain p q where pq: "(if contains expr op then split_str op expr else []) = [p, q]" by blast
    show ?thesis
      by (subst parseOperators.simps) (auto simp: pq Let_def split: res.splits)
  next
    case False
    then have "parseOperators env ctx expr (op # ops) = parseOperators env ctx expr ops"
      by (subst parseOperators.simps) (auto split: list.split)
    moreover have "\<forall>r. parseOperators env ctx expr ops = Ok r \<longrightarrow> well_typed r"
      using False 5 by (cases "if contains expr op then split_str op expr else []")
        (auto split: list.splits, metis neq_Nil_conv)
    ultimately show ?thesis by simp
  qed
next
  case (6 env ctx expr)
  then show ?case
    by (subst parseFunctionCall.simps)
      (auto simp: expr_error_def dest: switch_function_typed split: option.splits res.splits if_splits)
next
  case (7 env ctx)
  then show ?case by (simp add: parseArgs.simps)
next
  case (8 env ctx p ps)
  then show ?case by (subst parseArgs.simps) (auto split: res.splits)
qed

section \<open>Panics\<close>

lemma set_trim_left: "set (trim_left s) \<subseteq> set s"
proof (induction s rule: trim_left.induct)
  case (1 s)
  then show ?case using set_drop_subset [of "space_len s" s] by (subst trim_left.simps) auto
qed

lemma set_trim_left_rev: "set (trim_left_rev s) \<subseteq> set s"
proof (induction s rule: trim_left_rev.induct)
  case (1 s)
  then show ?case using set_drop_subset [of "space_len_rev s" s] by (subst trim_left_rev.simps) auto
qed

lemma set_trim_space: "set (trim_space s) \<subseteq> set s"
  using set_trim_left [of s] set_trim_left_rev [of "rev (trim_left s)"]
  by (auto simp: trim_space_def)

lemma set_split_str: "p \<in> set (split_str sep s) \<Longrightarrow> set p \<subseteq> set s"
proof (induction sep s arbitrary: p rule: split_str.induct)
  case (2 sep c s)
  show ?case
  proof (cases "sep \<noteq> [] \<and> hasPrefix (c # s) sep")
    case True
    then have "split_str sep (c # s) = [] # split_str sep (drop (length sep - 1) s)" by simp
    then have "p = [] \<or> p \<in> set (split_str sep (drop (length sep - 1) s))" using 2(3) by simp
    moreover have "set (drop (length sep - 1) s) \<subseteq> set (c # s)"
      using set_drop_subset [of "length sep - 1" s] by auto
    ultimately show ?thesis using 2(1) [OF True] by (metis empty_set empty_subsetI subset_trans)
  next
    case False
    obtain q qs where q: "split_str sep s = q # qs" by (meson list.exhaust split_str_ne)
    then have "split_str sep (c # s) = (c # q) # qs" using False by (simp only: split_str.simps) simp
    then have "p = c # q \<or> p \<in> set qs" using 2(3) by simp
    moreover have "set r \<subseteq> set s" if "r \<in> set (q # qs)" for r
      using 2(2) [OF False] q that by metis
    ultimately show ?thesis by fastforce
  qed
qed auto

lemma set_match_call: "match_call s = Some (f, a) \<Longrightarrow> set a \<subseteq> set s"
proof -
  assume "match_call s = Some (f, a)"
  then have "a = butlast (tl (dropWhile word_char s))"
    by (auto simp: match_call_def Let_def split: if_splits)
  moreover have "set (butlast (tl xs)) \<subseteq> set xs" for xs :: string
    by (cases xs) (auto dest: in_set_butlastD)
  moreover have "set (dropWhile word_char s) \<subseteq> set s" by (auto dest: set_dropWhileD)
  ultimately show ?thesis by blast
qed

definition unquoted :: "string \<Rightarrow> bool" where
  "unquoted s = (CHR 0x27 \<notin> set s \<and> CHR 0x22 \<notin> set s)"

lemma unquoted_sub: "unquoted s \<Longrightarrow> set t \<subseteq> set s \<Longrightarrow> unquoted t"
  by (auto simp: unquoted_def)

lemma unquoted_parts [simp]:
  "unquoted s \<Longrightarrow> unquoted (trim_space s)" "unquoted s \<Longrightarrow> unquoted (take n s)"
  "unquoted s \<Longrightarrow> unquoted (drop n s)"
  using set_trim_space [of s] set_take_subset [of n s] set_drop_subset [of n s]
  by (auto elim!: unquoted_sub)

lemma or_else_Panic: "or_else a b = Panic \<longleftrightarrow> a = Panic \<or> ((\<exists>e. a = Err e) \<and> b = Panic)"
  by (cases a) auto

lemma bool_op_Panic: "bool_op f a b = Panic \<Longrightarrow> a = Panic \<or> b = Panic"
  by (cases "(f, a, b)" rule: bool_op.cases) auto

lemma switch_function_no_panic [simp]: "switch_function env name args \<noteq> Panic"
  by (auto simp: switch_function_def arity_error_def expr_error_def Let_def
      split: if_splits option.splits sum.splits)

lemma resolveVariable_no_panic [simp]: "resolveVariable env name ctx \<noteq> Panic"
  by (auto simp: resolveVariable_def lookup_or_def expr_error_def split: option.splits)

lemma parseVariableReference_panic:
  "parseVariableReference env s ctx = Panic \<longleftrightarrow> s = single_quote \<or> s = double_quote"
proof
  assume "parseVariableReference env s ctx = Panic"
  then show "s = single_quote \<or> s = double_quote"
    by (cases s) (auto simp: parseVariableReference_def strip_ends_def hasPrefix_def single_quote_def
        double_quote_def split: if_splits res.splits option.splits)
qed (auto simp: parseVariableReference_def strip_ends_def hasPrefix_def hasSuffix_def single_quote_def
      double_quote_def)

lemma compareValues_no_panic [simp]: "compareValues l r op \<noteq> Panic"
  by (simp add: compareValues_def first_return_def expr_error_def Let_def split: option.splits bool.splits)

lemma parser_no_panic:
  "unquoted s \<Longrightarrow> parseExpression env ctx s \<noteq> Panic"
  "unquoted s1 \<Longrightarrow> parseLogicalExpression env ctx s1 \<noteq> Panic"
  "unquoted s2 \<Longrightarrow> parseComparisonExpression env ctx s2 \<noteq> Panic"
  "unquoted s3 \<Longrightarrow> parseOperators env ctx s3 ops \<noteq> Panic"
  "unquoted s4 \<Longrightarrow> parseFunctionCall env ctx s4 \<noteq> Panic"
  "\<forall>p \<in> set ps. unquoted p \<Longrightarrow> parseArgs env ctx ps \<noteq> Panic"
proof (induction env ctx s and env ctx s1 and env ctx s2 and env ctx s3 ops and env ctx s4 and env ctx ps
    rule: parser_induct)
  case (1 env ctx expr0)
  have "trim_space expr0 \<noteq> single_quote" "trim_space expr0 \<noteq> double_quote"
    using unquoted_parts(1) [OF 1(5)] by (auto simp: unquoted_def single_quote_def double_quote_def)
  with 1 show ?case
    by (subst parseExpression.simps)
      (auto simp: Let_def or_else_Panic expr_error_def parseVariableReference_panic)
next
  case (2 env ctx expr)
  define operand where "operand = (let operand0 = trim_space (drop 1 expr)
    in if hasPrefix operand0 ''('' \<and> hasSuffix operand0 '')''
       then trim_space (take (length operand0 - 2) (drop 1 operand0)) else operand0)"
  have "unquoted operand" using 2(6) by (simp add: operand_def Let_def)
  then have not: "hasPrefix expr ''!'' \<Longrightarrow> parseExpression env ctx operand \<noteq> Panic"
    using 2(1) [OF _ refl operand_def [unfolded Let_def]] by blast
  have ops: "bool_op f (parseExpression env ctx (trim_space (take i expr)))
      (parseExpression env ctx (trim_space (drop (i + 2) expr))) \<noteq> Panic"
    if "\<not> hasPrefix expr ''!''" "operator_pos (CHR ''&'') expr = Some i
      \<or> (operator_pos (CHR ''&'') expr = None \<and> operator_pos (CHR ''|'') expr = Some i)" for f i
    using that 2(2-6) by (metis bool_op_Panic unquoted_parts)
  have eq: "parseLogicalExpression env ctx expr =
     (if hasPrefix expr ''!'' then
        (case parseExpression env ctx operand of
              Ok r \<Rightarrow> Ok (mk_bool (\<not> toBool r)) | Err e \<Rightarrow> Err e | Panic \<Rightarrow> Panic)
      else (case operator_pos (CHR ''&'') expr of
        Some i \<Rightarrow>
          bool_op (\<and>) (parseExpression env ctx (trim_space (take i expr)))
            (parseExpression env ctx (trim_space (drop (i + 2) expr)))
      | None \<Rightarrow>
          (case operator_pos (CHR ''|'') expr of
             Some i \<Rightarrow>
               bool_op (\<or>) (parseExpression env ctx (trim_space (take i expr)))
                 (parseExpression env ctx (trim_space (drop (i + 2) expr)))
           | None \<Rightarrow> expr_error ''not a logical expression'')))"
    by (subst parseLogicalExpression.simps) (simp add: operand_def Let_def)
  show ?case
    unfolding eq using not ops by (auto simp: expr_error_def split: res.split option.split)
next
  case (3 env ctx expr)
  then show ?case by (subst parseComparisonExpression.simps)
next
  case (4 env ctx expr)
  then show ?case by (simp add: parseOperators.simps expr_error_def)
next
  case (5 env ctx expr op ops)
  show ?case
  proof (cases "\<exists>p q. (if contains expr op then split_str op expr else []) = [p, q]")
    case True
    then obtain p q where pq: "(if contains expr op then split_str op expr else []) = [p, q]" by blast
    then have "unquoted p" "unquoted q"
      using set_split_str [of _ op expr] unquoted_sub [OF 5(6)] by (auto split: if_splits)
    then show ?thesis using 5(3) [OF pq _ refl] 5(4) [OF pq _ refl]
      by (subst parseOperators.simps) (auto simp: pq Let_def split: res.splits)
  next
    case False
    then have "parseOperators env ctx expr (op # ops) = parseOperators env ctx expr ops"
      by (subst parseOperators.simps) (auto split: list.split)
    moreover have "parseOperators env ctx expr ops \<noteq> Panic"
      using False 5 by (cases "if contains expr op then split_str op expr else []")
        (auto split: list.splits, metis neq_Nil_conv)
    ultimately show ?thesis by simp
  qed
next
  case (6 env ctx expr)
  have "parseArgs env ctx (split_str '','' a) \<noteq> Panic" if m: "match_call expr = Some (f, a)" "a \<noteq> []" for f a
  proof -
    have "unquoted q" if "q \<in> set (split_str '','' a)" for q
      using set_split_str [OF that] set_match_call [OF m(1)] unquoted_sub [OF 6(2)] by blast
    then show ?thesis using 6(1) [OF m(1) refl m(2)] by blast
  qed
  then show ?case
    by (subst parseFunctionCall.simps)
      (auto simp: expr_error_def split: option.splits res.splits)
next
  case (7 env ctx)
  then show ?case by (simp add: parseArgs.simps)
next
  case (8 env ctx p ps)
  then show ?case by (subst parseArgs.simps) (auto split: res.splits)
qed

section \<open>Operators\<close>

text \<open>Texts that begin and end with a printing ASCII character are not changed by trimming.\<close>

definition ascii_solid :: "char \<Rightarrow> bool" where
  "ascii_solid c = (0x20 < (of_char c :: nat) \<and> (of_char c :: nat) < 0x80)"

definition solid :: "string \<Rightarrow> bool" where
  "solid s = (s \<noteq> [] \<and> ascii_solid (hd s) \<and> ascii_solid (last s))"

lemma solid_not_space: "ascii_solid c \<Longrightarrow> \<not> ascii_space c"
  by (auto simp: ascii_solid_def ascii_space_def)

lemma solid_not_high:
  assumes "ascii_solid c"
  shows "c \<noteq> CHR 0xC2" "c \<noteq> CHR 0x85" "c \<noteq> CHR 0xA0"
    "\<not> uni_space3 c a b" "\<not> uni_space3 a b c"
proof -
  have n: "(of_char c :: nat) < 0x80" using assms by (simp add: ascii_solid_def)
  have high: "c \<noteq> d" if "0x80 \<le> (of_char d :: nat)" for d using n that by auto
  show "c \<noteq> CHR 0xC2" "c \<noteq> CHR 0x85" "c \<noteq> CHR 0xA0" by (rule high, simp)+
  have e: "c \<noteq> CHR 0xE1" "c \<noteq> CHR 0xE2" "c \<noteq> CHR 0xE3" by (rule high, simp)+
  show "\<not> uni_space3 c a b" using e by (simp add: uni_space3_def)
  have f: "c \<noteq> CHR 0x80" "c \<noteq> CHR 0xA8" "c \<noteq> CHR 0xA9" "c \<noteq> CHR 0xAF" "c \<noteq> CHR 0x9F"
    by (rule high, simp)+
  show "\<not> uni_space3 a b c" using n f by (simp add: uni_space3_def)
qed

lemma solid_space_len: "ascii_solid c \<Longrightarrow> space_len (c # s) = 0"
  by (simp add: solid_not_space solid_not_high split: list.split)

lemma solid_space_len_rev: "ascii_solid c \<Longrightarrow> space_len_rev (c # s) = 0"
  by (simp add: solid_not_space solid_not_high split: list.split)

lemma trim_left_solid: "ascii_solid c \<Longrightarrow> trim_left (c # s) = c # s"
  by (subst trim_left.simps) (simp add: solid_space_len del: space_len.simps)

lemma trim_left_rev_solid: "ascii_solid c \<Longrightarrow> trim_left_rev (c # s) = c # s"
  by (subst trim_left_rev.simps) (simp add: solid_space_len_rev del: space_len_rev.simps)

lemma trim_left_blank: "trim_left (CHR '' '' # s) = trim_left s"
  by (subst trim_left.simps) (simp add: ascii_space_def)

lemma trim_left_rev_blank: "trim_left_rev (CHR '' '' # s) = trim_left_rev s"
  by (subst trim_left_rev.simps) (simp add: ascii_space_def)

lemma solid_ends:
  assumes "solid s"
  obtains c t d u where "s = c # t" "s = u @ [d]" "ascii_solid c" "ascii_solid d"
  using assms by (metis append_butlast_last_id list.collapse solid_def)

lemma trim_solid [simp]:
  assumes "solid s"
  shows "trim_space s = s" "trim_space (s @ '' '') = s" "trim_space (CHR '' '' # s) = s"
proof -
  obtain c t d u where s: "s = c # t" "s = u @ [d]" "ascii_solid c" "ascii_solid d"
    using solid_ends [OF assms] .
  have l: "trim_left s = s" "trim_left (s @ '' '') = s @ '' ''" "trim_left (CHR '' '' # s) = s"
    using s(1,3) by (simp_all add: trim_left_solid trim_left_blank)
  have r: "trim_left_rev (rev s) = rev s"
    using s(2,4) by (simp add: trim_left_rev_solid)
  show "trim_space s = s" "trim_space (s @ '' '') = s" "trim_space (CHR '' '' # s) = s"
    by (simp_all add: trim_space_def l r trim_left_rev_blank)
qed

text \<open>\<open>plain c s\<close>: no parenthesis and no \<open>c\<close>, so the scan for the operator goes past it.\<close>

definition plain :: "char \<Rightarrow> string \<Rightarrow> bool" where
  "plain c s = (CHR ''('' \<notin> set s \<and> CHR '')'' \<notin> set s \<and> c \<notin> set s)"

lemma plain_Cons: "plain c (x # s) \<longleftrightarrow> x \<noteq> CHR ''('' \<and> x \<noteq> CHR '')'' \<and> x \<noteq> c \<and> plain c s"
  by (auto simp: plain_def)

lemma find_op_plain: "plain c s \<Longrightarrow> find_op c d p s i = None"
  by (induction s arbitrary: p i) (auto simp: plain_Cons)

lemma find_op_here:
  assumes "c \<noteq> CHR ''(''" "c \<noteq> CHR '')''" "c \<noteq> CHR '' ''"
  shows "plain c s \<Longrightarrow> find_op c 0 p (s @ CHR '' '' # c # c # CHR '' '' # r) i = Some (i + length s + 1)"
  using assms by (induction s arbitrary: p i) (auto simp: plain_Cons)

lemma operator_pos_here:
  assumes "c \<noteq> CHR ''(''" "c \<noteq> CHR '')''" "c \<noteq> CHR '' ''" "plain c s"
  shows "operator_pos c (s @ CHR '' '' # c # c # CHR '' '' # r) = Some (length s + 1)"
proof -
  have "contains (s @ CHR '' '' # c # c # CHR '' '' # r) [CHR '' '', c, c, CHR '' '']"
    unfolding contains_iff by (intro exI [of _ s] exI [of _ r]) simp
  then show ?thesis using find_op_here [OF assms, of None r 0] by (simp add: operator_pos_def)
qed

lemma operator_pos_plain: "plain c s \<Longrightarrow> operator_pos c s = None"
  by (simp add: operator_pos_def find_op_plain)

text \<open>An operand that does not start with \<open>(\<close> or \<open>!\<close>.\<close>

definition operand :: "string \<Rightarrow> bool" where
  "operand s = (solid s \<and> hd s \<noteq> CHR ''('' \<and> hd s \<noteq> CHR ''!'')"

lemma operand_hasPrefix: "operand s \<Longrightarrow> \<not> hasPrefix (s @ t) ''('' \<and> \<not> hasPrefix (s @ t) ''!''"
  by (cases s) (auto simp: operand_def solid_def hasPrefix_def)

lemma solid_op: "solid s \<Longrightarrow> solid r \<Longrightarrow> solid (s @ x @ r)"
  by (auto simp: solid_def)

lemma parse_logical:
  "trim_space e = e \<Longrightarrow> \<not> hasPrefix e ''('' \<Longrightarrow> parseLogicalExpression env ctx e = Ok r \<Longrightarrow>
     parseExpression env ctx e = Ok r"
  by (subst parseExpression.simps) (simp add: Let_def)

lemma parse_and:
  assumes "operand s" "plain (CHR ''&'') s" "solid r"
    and "parseExpression env ctx s = Ok x" "parseExpression env ctx r = Ok y"
  shows "parseExpression env ctx (s @ '' && '' @ r) = Ok (mk_bool (toBool x \<and> toBool y))"
proof -
  let ?e = "s @ '' && '' @ r"
  have sol: "solid s" using assms(1) by (simp add: operand_def)
  have trim: "trim_space ?e = ?e" using solid_op [OF sol assms(3), of "'' && ''"] by (rule trim_solid(1))
  have pos: "operator_pos (CHR ''&'') ?e = Some (length s + 1)"
    using operator_pos_here [OF _ _ _ assms(2), of r] by simp
  have parts: "trim_space (take (length s + 1) ?e) = s" "trim_space (drop (length s + 1 + 2) ?e) = r"
    using trim_solid(2) [OF sol] trim_solid(3) [OF assms(3)] by simp_all
  have "parseLogicalExpression env ctx ?e = Ok (mk_bool (toBool x \<and> toBool y))"
    unfolding parseLogicalExpression.simps pos option.case parts assms(4,5)
    using operand_hasPrefix [OF assms(1), of "'' && '' @ r"] by simp
  then show ?thesis
    using operand_hasPrefix [OF assms(1), of "'' && '' @ r"] by (intro parse_logical [OF trim]) simp_all
qed

lemma parse_or:
  assumes "operand s" "plain (CHR ''&'') s" "plain (CHR ''|'') s" "plain (CHR ''&'') r" "solid r"
    and "parseExpression env ctx s = Ok x" "parseExpression env ctx r = Ok y"
  shows "parseExpression env ctx (s @ '' || '' @ r) = Ok (mk_bool (toBool x \<or> toBool y))"
proof -
  let ?e = "s @ '' || '' @ r"
  have sol: "solid s" using assms(1) by (simp add: operand_def)
  have trim: "trim_space ?e = ?e" using solid_op [OF sol assms(5), of "'' || ''"] by (rule trim_solid(1))
  have pos: "operator_pos (CHR ''|'') ?e = Some (length s + 1)"
    using operator_pos_here [OF _ _ _ assms(3), of r] by simp
  have no: "operator_pos (CHR ''&'') ?e = None"
    using assms(2,4) by (intro operator_pos_plain) (auto simp: plain_def)
  have parts: "trim_space (take (length s + 1) ?e) = s" "trim_space (drop (length s + 1 + 2) ?e) = r"
    using trim_solid(2) [OF sol] trim_solid(3) [OF assms(5)] by simp_all
  have "parseLogicalExpression env ctx ?e = Ok (mk_bool (toBool x \<or> toBool y))"
    unfolding parseLogicalExpression.simps pos no option.case parts assms(6,7)
    using operand_hasPrefix [OF assms(1), of "'' || '' @ r"] by simp
  then show ?thesis
    using operand_hasPrefix [OF assms(1), of "'' || '' @ r"] by (intro parse_logical [OF trim]) simp_all
qed

definition atom :: "string \<Rightarrow> bool" where
  "atom s = (operand s \<and> plain (CHR ''&'') s \<and> plain (CHR ''|'') s)"

lemma join_solid: "\<forall>a \<in> set as. solid a \<Longrightarrow> as \<noteq> [] \<Longrightarrow> solid (join_str sep as)"
  by (induction sep as rule: join_str.induct) (auto intro: solid_op)

lemma join_plain:
  "\<forall>a \<in> set as. plain c a \<Longrightarrow> plain c sep \<Longrightarrow> plain c (join_str sep as)"
  by (induction sep as rule: join_str.induct) (auto simp: plain_def)

lemma parse_conjunction:
  "as \<noteq> [] \<Longrightarrow> \<forall>a \<in> set as. atom a \<and> parseExpression env ctx a = Ok (f a) \<Longrightarrow>
     \<exists>r. parseExpression env ctx (join_str '' && '' as) = Ok r
       \<and> (toBool r \<longleftrightarrow> (\<forall>a \<in> set as. toBool (f a)))"
proof (induction "'' && ''" as rule: join_str.induct)
  case (3 a b as)
  then obtain r where r: "parseExpression env ctx (join_str '' && '' (b # as)) = Ok r"
    "toBool r \<longleftrightarrow> (\<forall>a \<in> set (b # as). toBool (f a))" by auto
  have "solid (join_str '' && '' (b # as))"
    using 3 by (intro join_solid) (auto simp: atom_def operand_def)
  with parse_and [of a "join_str '' && '' (b # as)" env ctx "f a" r] 3 r
  show ?case by (auto simp: atom_def mk_bool_def toBool_def)
qed auto

lemma parse_disjunction:
  "as \<noteq> [] \<Longrightarrow> \<forall>a \<in> set as. atom a \<and> parseExpression env ctx a = Ok (f a) \<Longrightarrow>
     \<exists>r. parseExpression env ctx (join_str '' || '' as) = Ok r
       \<and> (toBool r \<longleftrightarrow> (\<exists>a \<in> set as. toBool (f a)))"
proof (induction "'' || ''" as rule: join_str.induct)
  case (3 a b as)
  then obtain r where r: "parseExpression env ctx (join_str '' || '' (b # as)) = Ok r"
    "toBool r \<longleftrightarrow> (\<exists>a \<in> set (b # as). toBool (f a))" by auto
  have "solid (join_str '' || '' (b # as))" "plain (CHR ''&'') (join_str '' || '' (b # as))"
    using 3 by (intro join_solid join_plain; auto simp: atom_def operand_def plain_def)+
  with parse_or [of a "join_str '' || '' (b # as)" env ctx "f a" r] 3 r
  show ?case by (auto simp: atom_def mk_bool_def toBool_def)
qed auto


section \<open>A variable compared with a literal\<close>

definition ident :: "string \<Rightarrow> bool" where
  "ident s = (s \<noteq> [] \<and> (\<forall>c \<in> set s. word_char c \<or> c = CHR ''.'') \<and> parse_float s = None
     \<and> s \<noteq> ''true'' \<and> s \<noteq> ''false'')"

definition quoted :: "string \<Rightarrow> string" where
  "quoted s = single_quote @ s @ single_quote"

text \<open>No character of an operator, no parenthesis.\<close>

definition inert :: "string \<Rightarrow> bool" where
  "inert s = (set s \<inter> set ''=!<>&|()'' = {})"

lemma contains_missing: "c \<in> set op \<Longrightarrow> c \<notin> set s \<Longrightarrow> \<not> contains s op"
  by (auto simp: contains_iff)

lemma word_char_solid: "word_char c \<or> c = CHR ''.'' \<Longrightarrow> ascii_solid c \<and> c \<notin> set ''=!<>&|()'' \<and> c \<noteq> CHR 0x27 \<and> c \<noteq> CHR 0x22"
  by (auto simp: word_char_def ascii_solid_def is_digit_def Let_def)

lemma ident_solid:
  assumes "ident s"
  shows "solid s" "inert s" "operand s" "CHR 0x27 \<notin> set s" "CHR 0x22 \<notin> set s"
proof -
  have c: "ascii_solid c \<and> c \<notin> set ''=!<>&|()'' \<and> c \<noteq> CHR 0x27 \<and> c \<noteq> CHR 0x22" if "c \<in> set s" for c
    using assms that word_char_solid unfolding ident_def by blast
  have ne: "s \<noteq> []" using assms by (simp add: ident_def)
  show s: "solid s" using c ne by (simp add: solid_def)
  show "inert s" using c unfolding inert_def by blast
  have "hd s \<notin> set ''=!<>&|()''" using c ne by (meson hd_in_set)
  with s show "operand s" by (simp add: operand_def)
  show "CHR 0x27 \<notin> set s" "CHR 0x22 \<notin> set s" using c by blast+
qed

lemma inert_plain:
  assumes "inert s"
  shows "plain (CHR ''&'') s" "plain (CHR ''|'') s" "CHR ''='' \<notin> set s" "CHR ''!'' \<notin> set s"
    "CHR ''<'' \<notin> set s" "CHR ''>'' \<notin> set s"
  using assms by (simp_all add: inert_def plain_def)

lemma parseLogical_plain:
  "\<not> hasPrefix s ''!'' \<Longrightarrow> plain (CHR ''&'') s \<Longrightarrow> plain (CHR ''|'') s \<Longrightarrow>
     parseLogicalExpression env ctx s = expr_error ''not a logical expression''"
  by (simp add: parseLogicalExpression.simps operator_pos_plain)

lemma parseOperators_skip:
  "\<not> contains s op \<Longrightarrow> parseOperators env ctx s (op # ops) = parseOperators env ctx s ops"
  by (simp add: parseOperators.simps)

lemma parseComparison_inert:
  assumes "inert s"
  shows "parseComparisonExpression env ctx s = expr_error ''not a comparison expression''"
proof -
  note m = inert_plain [OF assms]
  have "\<not> contains s ''!=''" "\<not> contains s '' = ''" "\<not> contains s ''<=''" "\<not> contains s ''>=''"
    "\<not> contains s ''<''" "\<not> contains s ''>''" "\<not> contains s ''==''"
    by (rule contains_missing [of "CHR ''=''"], simp, rule m | rule contains_missing [of "CHR ''<''"], simp, rule m
        | rule contains_missing [of "CHR ''>''"], simp, rule m)+
  then show ?thesis
    by (simp add: parseComparisonExpression.simps comparison_operators_def parseOperators_skip
        parseOperators.simps(1))
qed

lemma match_call_no_paren: "CHR ''('' \<notin> set s \<Longrightarrow> match_call s = None"
proof -
  assume a: "CHR ''('' \<notin> set s"
  have "hd (dropWhile word_char s) = CHR ''('' \<Longrightarrow> dropWhile word_char s \<noteq> [] \<Longrightarrow> False"
    using a by (metis hd_in_set set_dropWhileD)
  then show ?thesis
    unfolding match_call_def Let_def by (metis (no_types, lifting) list.size(3) not_numeral_le_zero)
qed

lemma inert_no_paren: "inert s \<Longrightarrow> CHR ''('' \<notin> set s"
  by (simp add: inert_def)

lemma parse_simple:
  assumes "solid s" "inert s"
  shows "parseExpression env ctx s =
     or_else (parseVariableReference env s ctx) (expr_error (''unable to parse expression: '' @ s))"
proof -
  have h: "\<not> hasPrefix s ''!''" "\<not> hasPrefix s ''(''"
    using assms by (cases s; auto simp: hasPrefix_def inert_def solid_def)+
  show ?thesis
    using h assms
    by (subst parseExpression.simps)
      (simp add: Let_def parseLogical_plain inert_plain parseComparison_inert parseFunctionCall.simps
        match_call_no_paren inert_no_paren expr_error_def)
qed

lemma parse_ident:
  assumes "ident s" "resolveVariable env s ctx = Ok v"
  shows "parseExpression env ctx s = Ok (mk_string v)"
proof -
  note i = ident_solid [OF assms(1)]
  have "\<not> hasPrefix s single_quote" "\<not> hasPrefix s double_quote"
    using i by (cases s; auto simp: hasPrefix_def single_quote_def double_quote_def)+
  then have "parseVariableReference env s ctx = Ok (mk_string v)"
    using assms by (simp add: parseVariableReference_def ident_def)
  then show ?thesis by (simp add: parse_simple [OF i(1,2)])
qed

lemma ascii_solid_quote: "ascii_solid (CHR 0x27)"
  by (simp add: ascii_solid_def)

lemma quoted_solid: "solid (quoted s)"
  by (simp add: solid_def quoted_def single_quote_def ascii_solid_quote)

lemma quoted_inert: "inert s \<Longrightarrow> inert (quoted s)"
  by (simp add: inert_def quoted_def single_quote_def)

lemma parse_quoted:
  assumes "inert s"
  shows "parseExpression env ctx (quoted s) = Ok (mk_string s)"
proof -
  have "hasPrefix (quoted s) single_quote" "hasSuffix (quoted s) single_quote"
    by (simp_all add: quoted_def single_quote_def hasPrefix_def hasSuffix_def)
  moreover have "strip_ends (quoted s) = Ok s"
    by (simp add: strip_ends_def quoted_def single_quote_def)
  ultimately show ?thesis
    by (simp add: parse_simple [OF quoted_solid quoted_inert [OF assms]] parseVariableReference_def)
qed

lemma split_str_none: "c \<notin> set s \<Longrightarrow> split_str (c # sep) s = [s]"
  by (induction s) (auto simp: hasPrefix_def)

lemma split_str_once:
  "c \<notin> set p \<Longrightarrow> c \<notin> set q \<Longrightarrow> split_str (c # sep) (p @ (c # sep) @ q) = [p, q]"
  by (induction p) (auto simp: hasPrefix_def split_str_none)

lemma no_single_eq:
  "CHR ''='' \<notin> set a \<Longrightarrow> CHR ''='' \<notin> set b \<Longrightarrow> \<not> contains (a @ '' == '' @ b) '' = ''"
proof (induction a)
  case Nil
  have "\<not> contains b '' = ''" using Nil by (intro contains_missing [of "CHR ''=''"]) simp_all
  moreover have "\<not> hasPrefix (CHR '' '' # b) '' = ''" using Nil by (cases b) (auto simp: hasPrefix_def)
  ultimately show ?case by (simp add: hasPrefix_def)
next
  case (Cons c a)
  then have "\<not> hasPrefix ((c # a) @ '' == '' @ b) '' = ''" by (cases a) (auto simp: hasPrefix_def)
  with Cons show ?case by simp
qed

lemma compare_strings:
  "compareValues (mk_string v) (mk_string w) ''=='' = Ok (v = w)"
  "compareValues (mk_string v) (mk_string w) ''!='' = Ok (v \<noteq> w)"
  by (simp_all add: compareValues_def mk_string_def first_return_def switch_order_def toString_def)

lemma parseOperators_hit:
  assumes "contains s op" "split_str op s = [p, q]"
    and "parseExpression env ctx (trim_space p) = Ok l" "parseExpression env ctx (trim_space q) = Ok r"
  shows "parseOperators env ctx s (op # ops) =
    (let op1 = trim_space op; op2 = (if op1 = ''='' then ''=='' else op1)
     in case compareValues l r op2 of Ok b \<Rightarrow> Ok (mk_bool b) | Err e \<Rightarrow> Err e | Panic \<Rightarrow> Panic)"
  using assms by (simp add: parseOperators.simps)

lemma solid_operators: "solid ''==''" "solid ''!=''"
  by (simp_all add: solid_def ascii_solid_def)

lemma parse_var_eq:
  assumes "ident n" "resolveVariable env n ctx = Ok v" "inert lit"
  shows "parseExpression env ctx (n @ '' == '' @ quoted lit) = Ok (mk_bool (v = lit))"
proof -
  let ?e = "n @ '' == '' @ quoted lit"
  note i = ident_solid [OF assms(1)]
  note q = quoted_inert [OF assms(3)]
  note m = inert_plain [OF i(2)] and mq = inert_plain [OF q]
  have trim: "trim_space ?e = ?e" using solid_op [OF i(1) quoted_solid, of "'' == ''"] by (rule trim_solid(1))
  have no: "\<not> contains ?e ''!=''" "\<not> contains ?e ''<=''" "\<not> contains ?e ''>=''" "\<not> contains ?e ''<''"
    "\<not> contains ?e ''>''"
    by (rule contains_missing [of "CHR ''!''"], simp, simp add: m mq
      | rule contains_missing [of "CHR ''<''"], simp, simp add: m mq
      | rule contains_missing [of "CHR ''>''"], simp, simp add: m mq)+
  have no2: "\<not> contains ?e '' = ''" using m mq by (intro no_single_eq)
  have yes: "contains ?e ''==''" unfolding contains_iff
    by (intro exI [of _ "n @ '' ''"] exI [of _ "'' '' @ quoted lit"]) simp
  have sp: "split_str ''=='' ?e = [n @ '' '', '' '' @ quoted lit]"
    using split_str_once [of "CHR ''=''" "n @ '' ''" "'' '' @ quoted lit" "''=''"] m mq by simp
  have "trim_space (n @ '' '') = n" "trim_space ('' '' @ quoted lit) = quoted lit"
    using trim_solid(2) [OF i(1)] trim_solid(3) [OF quoted_solid] by simp_all
  then have l: "parseExpression env ctx (trim_space (n @ '' '')) = Ok (mk_string v)"
    and r: "parseExpression env ctx (trim_space ('' '' @ quoted lit)) = Ok (mk_string lit)"
    using parse_ident [OF assms(1,2)] parse_quoted [OF assms(3)] by simp_all
  have "parseOperators env ctx ?e [''==''] = Ok (mk_bool (v = lit))"
    by (simp only: parseOperators_hit [OF yes sp l r] trim_solid(1) [OF solid_operators(1)] Let_def
        compare_strings if_False res.case list.inject char.inject simp_thms)
      (simp add: compare_strings)
  then have cmp: "parseComparisonExpression env ctx ?e = Ok (mk_bool (v = lit))"
    unfolding parseComparisonExpression.simps comparison_operators_def
    by (simp only: parseOperators_skip [OF no(1)] parseOperators_skip [OF no(2)] parseOperators_skip [OF no(3)]
        parseOperators_skip [OF no(4)] parseOperators_skip [OF no(5)] parseOperators_skip [OF no2])
  have pl: "plain (CHR ''&'') ?e" "plain (CHR ''|'') ?e" using m mq by (auto simp: plain_def)
  note h = operand_hasPrefix [OF i(3), of "'' == '' @ quoted lit"]
  show ?thesis
    unfolding parseExpression.simps [of env ctx ?e] Let_def trim
      parseLogical_plain [OF conjunct2 [OF h] pl] cmp
    using h by (simp add: expr_error_def)
qed

lemma parse_var_ne:
  assumes "ident n" "resolveVariable env n ctx = Ok v" "inert lit"
  shows "parseExpression env ctx (n @ '' != '' @ quoted lit) = Ok (mk_bool (v \<noteq> lit))"
proof -
  let ?e = "n @ '' != '' @ quoted lit"
  note i = ident_solid [OF assms(1)]
  note q = quoted_inert [OF assms(3)]
  note m = inert_plain [OF i(2)] and mq = inert_plain [OF q]
  have trim: "trim_space ?e = ?e" using solid_op [OF i(1) quoted_solid, of "'' != ''"] by (rule trim_solid(1))
  have yes: "contains ?e ''!=''" unfolding contains_iff
    by (intro exI [of _ "n @ '' ''"] exI [of _ "'' '' @ quoted lit"]) simp
  have sp: "split_str ''!='' ?e = [n @ '' '', '' '' @ quoted lit]"
    using split_str_once [of "CHR ''!''" "n @ '' ''" "'' '' @ quoted lit" "''=''"] m mq by simp
  have "trim_space (n @ '' '') = n" "trim_space ('' '' @ quoted lit) = quoted lit"
    using trim_solid(2) [OF i(1)] trim_solid(3) [OF quoted_solid] by simp_all
  then have l: "parseExpression env ctx (trim_space (n @ '' '')) = Ok (mk_string v)"
    and r: "parseExpression env ctx (trim_space ('' '' @ quoted lit)) = Ok (mk_string lit)"
    using parse_ident [OF assms(1,2)] parse_quoted [OF assms(3)] by simp_all
  have cmp: "parseComparisonExpression env ctx ?e = Ok (mk_bool (v \<noteq> lit))"
    unfolding parseComparisonExpression.simps comparison_operators_def
      parseOperators_hit [OF yes sp l r] trim_solid(1) [OF solid_operators(2)] Let_def
    by (simp add: compare_strings)
  have pl: "plain (CHR ''&'') ?e" "plain (CHR ''|'') ?e" using m mq by (auto simp: plain_def)
  note h = operand_hasPrefix [OF i(3), of "'' != '' @ quoted lit"]
  show ?thesis
    unfolding parseExpression.simps [of env ctx ?e] Let_def trim
      parseLogical_plain [OF conjunct2 [OF h] pl] cmp
    using h by (simp add: expr_error_def)
qed

lemma eval_wrapped:
  assumes "solid s"
  shows "EvaluateExpression env (''${{ '' @ s @ '' }}'') ctx =
    (case parseExpression env ctx s of Ok r \<Rightarrow> Ok (toBool r) | Err e \<Rightarrow> Err e | Panic \<Rightarrow> Panic)"
proof -
  let ?e = "''${{ '' @ s @ '' }}''"
  have "solid ?e" by (simp add: solid_def ascii_solid_def)
  then have t: "trim_space ?e = ?e" by (rule trim_solid(1))
  have p: "hasPrefix ?e ''${{''" "hasSuffix ?e ''}}''" by (simp_all add: hasPrefix_def hasSuffix_def)
  have "trim_space (take (length ?e - 5) (drop 3 ?e)) = trim_space (CHR '' '' # s @ '' '')" by simp
  also have "\<dots> = s"
  proof -
    obtain c u d w where s: "s = c # u" "s = w @ [d]" "ascii_solid c" "ascii_solid d"
      using solid_ends [OF assms] .
    have "trim_left (CHR '' '' # s @ '' '') = s @ '' ''"
      using s(1,3) by (simp add: trim_left_solid trim_left_blank)
    moreover have "trim_left_rev (rev s) = rev s" using s(2,4) by (simp add: trim_left_rev_solid)
    ultimately show ?thesis by (simp add: trim_space_def trim_left_rev_blank)
  qed
  finally show ?thesis unfolding EvaluateExpression_def Let_def t using p by simp
qed



section \<open>Comparison\<close>

lemma well_typed_cases:
  assumes "well_typed r"
  obtains b where "r = mk_bool b" | s where "r = mk_string s"
    | v where "r = mk_number v" "\<forall>b. v \<noteq> VBool b" "\<forall>s. v \<noteq> VStr s"
  using assms
  by (cases r; cases "er_Value r") (auto simp: well_typed_def mk_bool_def mk_string_def mk_number_def)

definition order_ops :: "string list" where
  "order_ops = [''=='', ''!='', ''<'', ''<='', ''>'', ''>='']"

text \<open>Which types can be compared with which operators.\<close>

definition comparable :: "string \<Rightarrow> string \<Rightarrow> string \<Rightarrow> bool" where
  "comparable a b op =
     (if a = ''bool'' \<and> b = ''bool'' then op = ''=='' \<or> op = ''!=''
      else a = ''string'' \<or> b = ''string'' \<or> (a = ''number'' \<and> b = ''number''))"

lemma switch_order_some: "op \<in> set order_ops \<Longrightarrow> \<exists>b. switch_order eq lt x y op = Some b"
  by (auto simp: order_ops_def switch_order_def)

lemma switch_bool_some: "(\<exists>b. switch_bool x y op = Some b) \<longleftrightarrow> op = ''=='' \<or> op = ''!=''"
  by (auto simp: switch_bool_def)

section \<open>The properties\<close>

text \<open>C37: Every result of the expression parser carries the type name of the value it holds,
  so the type tests of the comparison never disagree with the conversions.\<close>

theorem expression_results_typed:
  "ParseExpression env s ctx = Ok r \<Longrightarrow> er_Type r = value_type (er_Value r)"
  using parser_typed(1) [of env ctx s] by (simp add: ParseExpression_def well_typed_def)

definition sample_env :: go_env where
  "sample_env =
     \<lparr>env_platform = \<lparr>pi_Platform = ''linux'', pi_Arch = ''amd64'', pi_OS = ''ubuntu'',
         pi_OSVersion = ''24.04'', pi_NumCPU = 8\<rparr>,
      env_getenv = (\<lambda>_. []), env_stat_exists = (\<lambda>_. False),
      env_regexp = (\<lambda>p. Inr (\<lambda>s. s = p)), env_version_error = (\<lambda>_. None),
      env_version_compare = (\<lambda>_ _. 0)\<rparr>"

definition sample_ctx :: expr_context where
  "sample_ctx = NewExpressionContext sample_env Map.empty"

lemma sample_not: "ParseExpression sample_env ''!ci'' sample_ctx = Ok (mk_bool True)"
  by code_simp

theorem expression_results_typed_witness:
  "er_Type (mk_bool True) = value_type (VBool True)"
  using expression_results_typed [OF sample_not] by (simp add: mk_bool_def)

text \<open>C36: A condition without quote characters never panics, whatever it is: it evaluates to
  a boolean or to an error.\<close>

theorem unquoted_condition_no_panic:
  "CHR 0x27 \<notin> set expr \<Longrightarrow> CHR 0x22 \<notin> set expr \<Longrightarrow> EvaluateExpression env expr ctx \<noteq> Panic"
proof -
  assume "CHR 0x27 \<notin> set expr" "CHR 0x22 \<notin> set expr"
  then have u: "unquoted expr" by (simp add: unquoted_def)
  then have "unquoted (trim_space (take (length (trim_space expr) - 5) (drop 3 (trim_space expr))))"
    "unquoted (trim_space expr)" by simp_all
  from this [THEN parser_no_panic(1)] show ?thesis
    by (simp add: EvaluateExpression_def Let_def split: res.split)
qed

theorem unquoted_condition_no_panic_witness:
  "EvaluateExpression sample_env ''${{ ((os == ) && !(}}'' sample_ctx \<noteq> Panic"
  by (rule unquoted_condition_no_panic) simp_all

text \<open>A quoted comma inside a function call crashes the program: the arguments are split
  at every comma, a lone quote is left, and slicing off its ends is out of range.\<close>

theorem quoted_comma_panics:
  "EvaluateExpression env ''contains(branch, ',')'' ctx = Panic"
  by code_simp


lemma sample_atoms:
  "atom ''os'' \<and> parseExpression sample_env sample_ctx ''os'' = Ok (mk_string ''ubuntu'')"
  "atom ''ci'' \<and> parseExpression sample_env sample_ctx ''ci'' = Ok (mk_string ''false'')"
  by code_simp+

definition sample_value :: "string \<Rightarrow> expr_result" where
  "sample_value a = (if a = ''os'' then mk_string ''ubuntu'' else mk_string ''false'')"


text \<open>A disjunction of operands joined by \<open>||\<close> is true exactly when one of them is.\<close>

theorem disjunction_condition:
  assumes "as \<noteq> []" "\<forall>a \<in> set as. atom a \<and> parseExpression env ctx a = Ok (f a)"
  shows "EvaluateExpression env (''${{ '' @ join_str '' || '' as @ '' }}'') ctx
     = Ok (\<exists>a \<in> set as. toBool (f a))"
proof -
  have sol: "solid (join_str '' || '' as)"
    using assms by (intro join_solid) (auto simp: atom_def operand_def)
  obtain r where "parseExpression env ctx (join_str '' || '' as) = Ok r"
    "toBool r = (\<exists> a \<in> set as. toBool (f a))" using parse_disjunction [OF assms] by blast
  then show ?thesis unfolding eval_wrapped [OF sol] by simp
qed

theorem disjunction_condition_witness:
  "EvaluateExpression sample_env ''${{ ci || os }}'' sample_ctx = Ok True"
  using disjunction_condition [of "[''ci'', ''os'']" sample_env sample_ctx sample_value] sample_atoms
  by (simp add: sample_value_def toBool_def mk_string_def)

text \<open>Without parentheses \<open>||\<close> binds tighter than \<open>&&\<close>: the code looks for
  \<open>&&\<close> first, so \<open>a || b && c\<close> means \<open>(a || b) && c\<close>.\<close>

theorem or_binds_tighter:
  assumes "atom a \<and> parseExpression env ctx a = Ok x" "atom b \<and> parseExpression env ctx b = Ok y"
    and "atom c \<and> parseExpression env ctx c = Ok z"
  shows "EvaluateExpression env (''${{ '' @ a @ '' || '' @ b @ '' && '' @ c @ '' }}'') ctx
     = Ok ((toBool x \<or> toBool y) \<and> toBool z)"
proof -
  let ?ab = "a @ '' || '' @ b"
  have sol: "solid a" "solid b" "solid c" using assms by (auto simp: atom_def operand_def)
  have ab: "parseExpression env ctx ?ab = Ok (mk_bool (toBool x \<or> toBool y))"
    using assms sol by (intro parse_or) (auto simp: atom_def)
  have "solid ?ab" using sol solid_op by blast
  moreover have "hd ?ab = hd a" using sol(1) by (simp add: solid_def)
  ultimately have "operand ?ab" using assms by (simp add: atom_def operand_def)
  moreover have "plain (CHR ''&'') ?ab" using assms by (auto simp: atom_def plain_def)
  ultimately have e: "parseExpression env ctx (?ab @ '' && '' @ c)
      = Ok (mk_bool (toBool (mk_bool (toBool x \<or> toBool y)) \<and> toBool z))"
    using ab assms sol by (intro parse_and) auto
  have "solid (?ab @ '' && '' @ c)" using \<open>solid ?ab\<close> sol(3) by (rule solid_op)
  from eval_wrapped [OF this, of env ctx] e show ?thesis by (simp add: toBool_def mk_bool_def)
qed

theorem or_binds_tighter_witness:
  "EvaluateExpression sample_env ''${{ os || ci && ci }}'' sample_ctx = Ok False"
  using or_binds_tighter [of "''os''" sample_env sample_ctx "mk_string ''ubuntu''" "''ci''"
      "mk_string ''false''" "''ci''" "mk_string ''false''"] sample_atoms
  by (simp add: toBool_def mk_string_def)



text \<open>A comparison of two well-typed values with one of the six operators fails only when a
  boolean meets a number, or two booleans are ordered; \<open>!=\<close> is the negation of \<open>==\<close>.\<close>

theorem compareValues_outcome:
  assumes "well_typed l" "well_typed r" "op \<in> set order_ops"
  shows "((\<exists>b. compareValues l r op = Ok b) \<longleftrightarrow> comparable (er_Type l) (er_Type r) op)
     \<and> (\<forall>b. compareValues l r ''=='' = Ok b \<longleftrightarrow> compareValues l r ''!='' = Ok (\<not> b))"
  by (rule well_typed_cases [OF assms(1)]; rule well_typed_cases [OF assms(2)])
    (use assms(3) in \<open>auto simp: Let_def compareValues_def comparable_def first_return_def mk_bool_def
       mk_string_def mk_number_def expr_error_def order_ops_def switch_order_def switch_bool_def\<close>)

theorem compareValues_outcome_witness:
  "\<exists>b. compareValues (mk_number (VInt 1)) (mk_string ''2'') ''<'' = Ok b"
proof -
  have "comparable (er_Type (mk_number (VInt 1))) (er_Type (mk_string ''2'')) ''<''"
    by (simp add: comparable_def mk_number_def mk_string_def)
  with compareValues_outcome [of "mk_number (VInt 1)" "mk_string ''2''" "''<''"]
  show ?thesis by (simp add: order_ops_def)
qed
end
