(* ===== verification/Step_Correct.thy ===== *)
theory Step_Correct
  imports Dag_Trace Expression_Correct
begin

text \<open>
  Running one node of the graph: the shape of its calls to the callback, the contract between
  the runner and an action registry, and how the result, the error and the status reported to
  the callback agree.
\<close>

section \<open>Commands and built-in actions\<close>

definition inner_run :: "runner \<Rightarrow> world \<Rightarrow> action \<Rightarrow> action_run" where
  "inner_run r w a = (if act_Uses a \<noteq> [] then runBuiltInActionForDAG r a else runCustomActionForDAG r w a)"

lemma inner_run_outputs:
  "\<exists>outs. ar_events (inner_run r w a) = map (OnStepOutput (act_Name a)) outs"
  "\<exists>outs. ar_late (inner_run r w a) = map (OnStepOutput (act_Name a)) outs"
  unfolding inner_run_def runBuiltInActionForDAG_def runCustomActionForDAG_def failed_run_def Let_def
      executeCommandWithStreaming_def buffered_run_def out_events_def
  by (auto split: option.splits sum.splits prod.splits if_splits
      intro: exI [of _ "[]"] exI [of _ "[_]"] exI [of _ "[_, _]"])

fun step_status_of :: "status \<Rightarrow> step_status" where
  "step_status_of StatusPending = StepStatusPending"
| "step_status_of StatusRunning = StepStatusRunning"
| "step_status_of StatusOK = StepStatusOK"
| "step_status_of StatusWarn = StepStatusWarn"
| "step_status_of StatusError = StepStatusError"
| "step_status_of StatusSkipped = StepStatusSkipped"

definition settled :: "status \<Rightarrow> bool" where
  "settled st = (st \<noteq> StatusPending \<and> st \<noteq> StatusRunning)"

text \<open>What a built-in action or a command ends with.\<close>

definition verdict :: "status \<Rightarrow> bool" where
  "verdict st = (st = StatusOK \<or> st = StatusWarn \<or> st = StatusError)"

lemma verdict_settled: "verdict st \<Longrightarrow> settled st"
  by (auto simp: verdict_def settled_def)

lemma step_status_of_error [simp]: "step_status_of st = StepStatusError \<longleftrightarrow> st = StatusError"
  by (cases st) simp_all

lemma effective_name [simp]: "act_Name (effective_action a v) = act_Name a"
  by (simp add: effective_action_def split: option.split)

text \<open>The calls to the callback: a start, the output lines, at most one error, one completion.\<close>

lemma completion_shape:
  "\<exists>errs st msg. completion n res err d = map (OnStepError n) errs @ [OnStepComplete n st msg d]"
  unfolding completion_def Let_def
  by (auto split: option.split intro: exI [of _ "[]"] exI [of _ "[_]"])

lemma node_run_shape:
  assumes "ro_StepCallback (rn_opts r)" "executeActionForDAGWithCallback r w a stepConfig = Some run"
  shows "run_shape (act_Name a) run"
proof -
  note ex = assms(2) [unfolded executeActionForDAGWithCallback_def Let_def]
  show ?thesis
  proof (cases "SelectVariant (rn_env r) a (vars_of (rn_opts r))")
    case Panic
    with ex show ?thesis by simp
  next
    case (Err e)
    with ex assms(1) show ?thesis
      by (auto simp: run_shape_def with_callback_def intro: exI [of _ "[]"])
  next
    case (Ok variant)
    show ?thesis
    proof (cases "variant = None \<and> act_Variants a \<noteq> []")
      case True
      with ex Ok assms(1) show ?thesis
        by (auto simp: run_shape_def with_callback_def intro: exI [of _ "[]"])
    next
      case False
      obtain outs late where o: "ar_events (inner_run r w (effective_action a variant)) = map (OnStepOutput (act_Name a)) outs"
        "ar_late (inner_run r w (effective_action a variant)) = map (OnStepOutput (act_Name a)) late"
        using inner_run_outputs [of r w "effective_action a variant"] by auto
      obtain res err where "ar_events run = OnStepStart (act_Name a)
            # ar_events (inner_run r w (effective_action a variant))
            @ completion (act_Name a) res err (w_clock w (act_Name a))"
        "ar_late run = ar_late (inner_run r w (effective_action a variant))"
        using ex Ok False assms(1) unfolding with_callback_def inner_run_def [symmetric]
        by (auto split: if_splits)
      then show ?thesis
        using completion_shape [of "act_Name a" res err "w_clock w (act_Name a)"] o
        unfolding run_shape_def by auto blast
    qed
  qed
qed

section \<open>The registry's contract\<close>

text \<open>
  What the runner relies on: a built-in action returns an error exactly with an error result,
  and its status is a final one.
\<close>

locale sound_registry =
  fixes view :: registry_view
  assumes error_iff: "view u = Some (d, res, err) \<Longrightarrow> res_Status res = StatusError \<longleftrightarrow> err \<noteq> None"
    and final: "view u = Some (d, res, err) \<Longrightarrow> verdict (res_Status res)"
begin

lemma inner_sound:
  assumes "rn_registry r = Some view"
  shows "res_Status (ar_result (inner_run r w a)) = StatusError \<longleftrightarrow> ar_err (inner_run r w a) \<noteq> None"
    and "verdict (res_Status (ar_result (inner_run r w a)))"
  using assms error_iff [of "act_Uses a"] final [of "act_Uses a"]
  unfolding inner_run_def runBuiltInActionForDAG_def runCustomActionForDAG_def failed_run_def Let_def
  by (auto simp: mk_result_def zero_result_def verdict_def split: option.splits sum.splits prod.splits)

end

lemma default_status:
  "(res_Status (fst (Default_runner_Run b s)) = StatusError \<longleftrightarrow> snd (Default_runner_Run b s) \<noteq> None)
   \<and> verdict (res_Status (fst (Default_runner_Run b s)))"
  by (cases b) (auto simp: Default_GitUntrackedAction_Run_def Default_GitUncommittedAction_Run_def
      Default_GitModifiedAction_Run_def Default_VersionCheckAction_Run_def
      Default_VersionCheckGreatestAction_Run_def Let_def mk_result_def zero_result_def verdict_def
      split: sum.splits)

interpretation default_sound: sound_registry "default_view s" for s
proof
  fix u d res err
  assume v: "default_view s u = Some (d, res, err)"
  then obtain b where "Default_runner_Run b s = (res, err)" by (auto simp: default_view_def)
  then show "(res_Status res = StatusError) = (err \<noteq> None)" "verdict (res_Status res)"
    using default_status [of b s] by (metis fst_conv snd_conv)+
qed


section \<open>One node\<close>

text \<open>The three ways through \<open>executeActionForDAGWithCallback\<close>.\<close>

lemma node_run_cases:
  assumes "executeActionForDAGWithCallback r w a stepConfig = Some run"
  obtains (bad_condition) e where "SelectVariant (rn_env r) a (vars_of (rn_opts r)) = Err e"
      "res_Status (ar_result run) = StatusError" "ar_err run = Some e" "ar_late run = []"
      "ar_events run = with_callback r [OnStepStart (act_Name a)]
         @ with_callback r [OnStepComplete (act_Name a) StepStatusError (error_text e) (w_clock w (act_Name a))]"
  | (no_variant) "SelectVariant (rn_env r) a (vars_of (rn_opts r)) = Ok None" "act_Variants a \<noteq> []"
      "res_Status (ar_result run) = StatusSkipped" "ar_err run = None" "ar_late run = []"
      "res_Message (ar_result run) = ''no matching variant''"
      "ar_events run = with_callback r [OnStepStart (act_Name a)]
         @ with_callback r [OnStepComplete (act_Name a) StepStatusSkipped ''no matching variant'' (w_clock w (act_Name a))]"
  | (ran) variant inner where "SelectVariant (rn_env r) a (vars_of (rn_opts r)) = Ok variant"
      "variant \<noteq> None \<or> act_Variants a = []"
      "inner = inner_run r w (effective_action a variant)" "ar_late run = ar_late inner"
      "res_Status (ar_result run) =
         (if res_Status (ar_result inner) = StatusError \<and> warns stepConfig then StatusWarn
          else res_Status (ar_result inner))"
      "ar_err run = (if res_Status (ar_result inner) = StatusError \<and> warns stepConfig then None else ar_err inner)"
      "ar_events run = with_callback r [OnStepStart (act_Name a)] @ ar_events inner
         @ with_callback r (completion (act_Name a) (ar_result run) (ar_err run) (w_clock w (act_Name a)))"
proof -
  note ex = assms [unfolded executeActionForDAGWithCallback_def Let_def]
  show thesis
  proof (cases "SelectVariant (rn_env r) a (vars_of (rn_opts r))")
    case Panic
    with ex show ?thesis by simp
  next
    case (Err e)
    with ex show ?thesis by (intro bad_condition) (auto simp: mk_result_def)
  next
    case (Ok variant)
    show ?thesis
    proof (cases "variant = None \<and> act_Variants a \<noteq> []")
      case True
      with ex Ok show ?thesis by (intro no_variant) (auto simp: mk_result_def)
    next
      case False
      show ?thesis
        by (rule ran [OF Ok _ refl]) (use ex Ok False in \<open>auto simp: inner_run_def warns_def\<close>)
    qed
  qed
qed

lemma status_of_other:
  "\<forall>e \<in> set es. \<not> (\<exists>st msg d. e = OnStepComplete n st msg d) \<Longrightarrow> status_of n (es @ fs) = status_of n fs"
proof (induction es)
  case (Cons e es)
  then show ?case by (cases e) auto
qed simp

lemma status_of_completion:
  assumes "res_Status res = StatusError \<longleftrightarrow> err \<noteq> None" "settled (res_Status res)"
  shows "status_of n (completion n res err d) = Some (step_status_of (res_Status res))"
  using assms by (cases "res_Status res") (auto simp: completion_def settled_def split: option.split)

context sound_registry
begin

text \<open>The callback is told the status the executor sees.\<close>

lemma node_status:
  assumes "rn_registry r = Some view" "ro_StepCallback (rn_opts r)"
    and "executeActionForDAGWithCallback r w a stepConfig = Some run"
  shows "status_of (act_Name a) (ar_events run) = Some (step_status_of (res_Status (ar_result run)))
     \<and> settled (res_Status (ar_result run)) \<and> (res_Status (ar_result run) = StatusError \<longleftrightarrow> ar_err run \<noteq> None)"
  using assms(3)
proof (cases rule: node_run_cases)
  case (bad_condition e)
  with assms(2) show ?thesis by (simp add: with_callback_def settled_def)
next
  case no_variant
  with assms(2) show ?thesis by (simp add: with_callback_def settled_def)
next
  case (ran variant inner)
  have s: "res_Status (ar_result inner) = StatusError \<longleftrightarrow> ar_err inner \<noteq> None"
    "settled (res_Status (ar_result inner))"
    unfolding ran(3) using inner_sound [OF assms(1)] verdict_settled by blast+
  then have r: "res_Status (ar_result run) = StatusError \<longleftrightarrow> ar_err run \<noteq> None"
    "settled (res_Status (ar_result run))"
    using ran(5,6) by (auto simp: settled_def)
  obtain outs where o: "ar_events inner = map (OnStepOutput (act_Name a)) outs"
    unfolding ran(3) using inner_run_outputs(1) [of r w "effective_action a variant"] by auto
  have "status_of (act_Name a) (ar_events run)
      = status_of (act_Name a) (completion (act_Name a) (ar_result run) (ar_err run) (w_clock w (act_Name a)))"
    unfolding ran(7) o using assms(2)
      status_of_other [of "map (OnStepOutput (act_Name a)) outs" "act_Name a"]
    by (auto simp: with_callback_def)
  then show ?thesis using status_of_completion [OF r] r by simp
qed

text \<open>A run that is skipped says why.\<close>

lemma node_skipped:
  assumes "rn_registry r = Some view" "executeActionForDAGWithCallback r w a stepConfig = Some run"
    and "res_Status (ar_result run) = StatusSkipped"
  shows "res_Message (ar_result run) = ''no matching variant''"
  using assms(2)
proof (cases rule: node_run_cases)
  case (ran variant inner)
  then show ?thesis
    using inner_sound(2) [OF assms(1), of w "effective_action a variant"] assms(3)
    by (auto simp: verdict_def split: if_splits)
qed (use assms(3) in simp_all)

end

section \<open>Properties\<close>

text \<open>A runner on Linux with the default registry, outside verbose mode.\<close>

definition sample_runner :: runner where
  "sample_runner =
     \<lparr>rn_config = loop_config,
      rn_opts = \<lparr>ro_ConfigPath = [], ro_MaxParallel = 1, ro_Verbose = False, ro_Debug = False,
        ro_DryRun = False, ro_Variables = Some [''bin'' \<mapsto> ''app''], ro_WorkingDir = ''.'',
        ro_Only = [], ro_WithRequires = False, ro_StepCallback = True\<rparr>,
      rn_registry = Some (default_view (status_sys [])), rn_env = sample_env, rn_goos = ''linux'', rn_lookpath = (\<lambda>_. True)\<rparr>"

definition sample_action :: "string \<Rightarrow> string \<Rightarrow> action_variant list \<Rightarrow> action" where
  "sample_action n run vs = \<lparr>act_Name = n, act_Run = run, act_Uses = [], act_Shell = [], act_Variants = vs\<rparr>"

text \<open>A world in which the commands that start with \<open>make\<close> fail.\<close>

definition sample_world :: world where
  "sample_world =
     \<lparr>w_proc = (\<lambda>_ cmd. \<lparr>po_start = None, po_lines = [], po_late = [], po_stdout = [], po_stderr = [],
        po_err = (if hasPrefix (last (cmd_args cmd)) ''make'' then Some (ExternalError ''exit status 1'') else None)\<rparr>),
      w_clock = (\<lambda>_. 0)\<rparr>"

lemmas sample_defs = sample_runner_def sample_action_def sample_world_def


lemma sample_not_bash:
  "InterpolateAction (sample_action ''build'' ''make'' []) m = sample_action ''build'' ''make'' []"
proof -
  have "replace_refs v ''make'' = ''make''" for v
    using replace_refs_literal [of "''make''" v "[]"] by (simp add: replace_refs_Nil)
  then show ?thesis
    by (simp add: InterpolateAction_def InterpolateVariables_def sample_action_def split: option.split)
qed





text \<open>C33: An action with a command, run on a Unix system without a \<open>shell\<close> setting, starts exactly
  \<open>sh -euc\<close> with the interpolated text, in the working directory; it succeeds exactly when that
  process does, and otherwise the message tells how to repeat the command.\<close>

theorem command_action_outcome:
  assumes "act_Run a \<noteq> []" "act_Shell a = []" "rn_goos r \<noteq> ''windows''"
  shows "let cmd = \<lparr>cmd_shell = ''sh'',
           cmd_args = [''-euc'', InterpolateVariables (act_Run a) (ro_Variables (rn_opts r))],
           cmd_dir = ro_WorkingDir (rn_opts r), cmd_vars = vars_of (rn_opts r)\<rparr>;
         p = w_proc w (act_Name a) cmd; run = runCustomActionForDAG r w a
      in if po_start p = None \<and> po_err p = None
         then ar_result run = mk_result StatusOK ''command executed successfully'' \<and> ar_err run = None
         else ar_result run = mk_result StatusError (error_text (CheckRun (act_Run a)))
           \<and> (\<exists>e. ar_err run = Some (CommandFailed e))"
  using assms
  by (auto simp: runCustomActionForDAG_def Let_def getShellCommand_def InterpolateAction_def mk_command_def
      executeCommandWithStreaming_def buffered_run_def split: option.split)



theorem command_action_outcome_witness:
  "ar_result (runCustomActionForDAG sample_runner sample_world (sample_action ''build'' ''make'' []))
     = mk_result StatusError (error_text (CheckRun ''make''))"
proof -
  have "InterpolateVariables ''make'' m = ''make''" for m
    using sample_not_bash [of m] by (simp add: InterpolateAction_def sample_action_def)
  then show ?thesis
    using command_action_outcome [of "sample_action ''build'' ''make'' []" sample_runner sample_world]
    by (simp add: sample_defs Let_def hasPrefix_def)
qed

end
