(* ===== verification/Action_Run.thy ===== *)
theory Action_Run
  imports Step_Correct
begin

text \<open>
  Running one action or one step outside the graph, from \<open>pkg/buildfab/buildfab.go\<close>:
  \<open>RunAction\<close>, \<open>RunStageStep\<close> and the functions below them, and the dry run, which
  only prints. \<open>op_run\<close> collects what a call does: the calls to the step callback, the lines of
  scanners that outlive their command, what is written to \<open>opts.Output\<close> and
  \<open>opts.ErrorOutput\<close>, and the error returned. \<open>None\<close> stands for a panic.
\<close>

section \<open>What a call does\<close>

record op_run =
  op_events :: "cb_event list"
  op_late :: "cb_event list"
  op_output :: "string list"
  op_errout :: "string list"
  op_error :: "go_error option"

definition op_fail :: "go_error \<Rightarrow> op_run" where
  "op_fail e = \<lparr>op_events = [], op_late = [], op_output = [], op_errout = [], op_error = Some e\<rparr>"

definition verbose_line :: "runner \<Rightarrow> string \<Rightarrow> string list" where
  "verbose_line r t = (if ro_Verbose (rn_opts r) then [t @ [newline]] else [])"

section \<open>Running\<close>

definition runBuiltInAction :: "runner \<Rightarrow> action \<Rightarrow> op_run" where
  "runBuiltInAction r a =
     (case rn_registry r of
        None \<Rightarrow> op_fail (NoRegistry (act_Uses a))
      | Some reg \<Rightarrow>
          (case reg (act_Uses a) of
             None \<Rightarrow> op_fail (UnknownBuiltIn (act_Uses a))
           | Some (_, res, Some e) \<Rightarrow> op_fail e
           | Some (_, res, None) \<Rightarrow>
               \<lparr>op_events = (if ro_StepCallback (rn_opts r) \<and> ro_Verbose (rn_opts r) \<and> res_Message res \<noteq> []
                              then [OnStepOutput (act_Name a) (res_Message res)] else []),
                op_late = [],
                op_output =
                  (if res_Status res = StatusOK
                   then verbose_line r (icon_check @ '' '' @ act_Name a @ '': '' @ res_Message res)
                   else if res_Status res = StatusWarn
                   then verbose_line r (''! '' @ act_Name a @ '': '' @ res_Message res) else []),
                op_errout =
                  (if res_Status res = StatusError
                   then verbose_line r (icon_cross @ '' '' @ act_Name a @ '': '' @ res_Message res) else []),
                op_error = (if res_Status res = StatusError then Some (BuiltInFailed (res_Message res))
                            else None)\<rparr>))"

definition runCustomAction :: "runner \<Rightarrow> world \<Rightarrow> action \<Rightarrow> op_run" where
  "runCustomAction r w a =
     (if act_Run a = [] then op_fail (NoRunCommand (act_Name a))
      else let ia = InterpolateAction a (ro_Variables (rn_opts r))
           in case getShellCommand r (act_Shell a) of
                Inl e \<Rightarrow> op_fail (ShellConfigFor (act_Name a) e)
              | Inr (shell, args) \<Rightarrow>
                  let cmd = mk_command r shell args (act_Run ia);
                      (evs, late, err) =
                        (if ro_Verbose (rn_opts r) then executeCommandWithStreaming r w cmd (act_Name a)
                         else case buffered_run r w cmd (act_Name a) of (evs, err) \<Rightarrow> (evs, [], err))
                  in \<lparr>op_events = evs, op_late = late, op_output = [], op_errout = [],
                      op_error = (if err = None then None else Some (CheckRun (act_Run a)))\<rparr>)"

text \<open>
  With no matching variant the callback is told \<open>skipped\<close> here, and told again by the caller.
\<close>

definition runActionInternal :: "runner \<Rightarrow> world \<Rightarrow> action \<Rightarrow> op_run option" where
  "runActionInternal r w a =
     (case SelectVariant (rn_env r) a (vars_of (rn_opts r)) of
        Panic \<Rightarrow> None
      | Err e \<Rightarrow> Some (op_fail e)
      | Ok variant \<Rightarrow>
          if variant = None \<and> 0 < length (act_Variants a)
          then Some
            \<lparr>op_events = with_callback r [OnStepComplete (act_Name a) StepStatusSkipped ''no matching variant'' 0],
             op_late = [],
             op_output = verbose_line r (icon_arrow @ '' '' @ act_Name a @ '': skipped (no matching variant)''),
             op_errout = [], op_error = None\<rparr>
          else let ea = effective_action a variant
               in Some (if act_Uses ea \<noteq> [] then runBuiltInAction r ea else runCustomAction r w ea))"

text \<open>What both callers report after the call.\<close>

definition report_end :: "string \<Rightarrow> go_error option \<Rightarrow> nat \<Rightarrow> cb_event list" where
  "report_end name err duration =
     (case err of
        None \<Rightarrow> [OnStepComplete name StepStatusOK ''executed successfully'' duration]
      | Some e \<Rightarrow> [OnStepError name e, OnStepComplete name StepStatusError (error_text e) duration])"

definition run_reported :: "runner \<Rightarrow> world \<Rightarrow> string \<Rightarrow> action \<Rightarrow> op_run option" where
  "run_reported r w name a =
     map_option (\<lambda>run. run\<lparr>op_events := with_callback r [OnStepStart name] @ op_events run
                     @ with_callback r (report_end name (op_error run) (w_clock w name))\<rparr>)
       (runActionInternal r w a)"

definition find_step :: "step list \<Rightarrow> string \<Rightarrow> step option" where
  "find_step steps n = find (\<lambda>st. step_Action st = n) steps"

definition RunStageStep :: "runner \<Rightarrow> world \<Rightarrow> string \<Rightarrow> string \<Rightarrow> op_run option" where
  "RunStageStep r w stageName stepName =
     (case GetStage (rn_config r) stageName of
        None \<Rightarrow> Some (op_fail (StageNotFound stageName))
      | Some stg \<Rightarrow>
          (case find_step (stage_Steps stg) stepName of
             None \<Rightarrow> Some (op_fail (StepNotFound stepName stageName))
           | Some st \<Rightarrow>
               (case GetAction (rn_config r) (step_Action st) of
                  None \<Rightarrow> Some (op_fail (ActionNotFound (step_Action st)))
                | Some a \<Rightarrow> run_reported r w stepName a)))"

section \<open>The dry run\<close>

definition runBuiltInActionDryRun :: "runner \<Rightarrow> action \<Rightarrow> string list \<times> go_error option" where
  "runBuiltInActionDryRun r a =
     (case rn_registry r of
        None \<Rightarrow> ([], Some (NoRegistry (act_Uses a)))
      | Some reg \<Rightarrow>
          (case reg (act_Uses a) of
             None \<Rightarrow> ([], Some (UnknownBuiltIn (act_Uses a)))
           | Some (description, _) \<Rightarrow>
               (verbose_line r (icon_check @ '' '' @ act_Name a @ '': would execute built-in action: '' @ description),
                None)))"

text \<open>\<open>commandStr\<close>: the shell, its arguments and the script, joined by blanks.\<close>

definition command_text :: "string \<Rightarrow> string list \<Rightarrow> string \<Rightarrow> string" where
  "command_text shell args run = shell @ '' '' @ join_str '' '' (args @ [run])"

definition runCustomActionDryRun :: "runner \<Rightarrow> action \<Rightarrow> string list \<times> go_error option" where
  "runCustomActionDryRun r a =
     (if act_Run a = [] then ([], Some (NoRunCommand (act_Name a)))
      else let ia = InterpolateAction a (ro_Variables (rn_opts r))
           in case getShellCommand r (act_Shell a) of
                Inl e \<Rightarrow> ([], Some (ShellConfigFor (act_Name a) e))
              | Inr (shell, args) \<Rightarrow>
                  (verbose_line r (icon_check @ '' '' @ act_Name a @ '': would execute command: ''
                     @ command_text shell args (act_Run ia)), None))"

definition runActionInternalDryRun :: "runner \<Rightarrow> action \<Rightarrow> (string list \<times> go_error option) option" where
  "runActionInternalDryRun r a =
     (case SelectVariant (rn_env r) a (vars_of (rn_opts r)) of
        Panic \<Rightarrow> None
      | Err e \<Rightarrow> Some ([], Some e)
      | Ok variant \<Rightarrow>
          if variant = None \<and> 0 < length (act_Variants a)
          then Some (verbose_line r (icon_arrow @ '' '' @ act_Name a @ '': would skip (no matching variant)''), None)
          else let ea = effective_action a variant
               in Some (if act_Uses ea \<noteq> [] then runBuiltInActionDryRun r ea else runCustomActionDryRun r ea))"

text \<open>\<open>RunAction\<close>: a built-in action of that name comes before a configured one. Without a registry
  the method call on the nil interface panics.\<close>

definition run_builtin_reported :: "runner \<Rightarrow> world \<Rightarrow> string \<Rightarrow> string \<Rightarrow> run_result \<Rightarrow> op_run" where
  "run_builtin_reported r w name description rr =
     (if ro_DryRun (rn_opts r)
      then \<lparr>op_events = with_callback r
              [OnStepStart name,
               OnStepComplete name StepStatusOK (''would execute built-in action: '' @ description) 0],
            op_late = [], op_output = [], op_errout = [], op_error = None\<rparr>
      else \<lparr>op_events = with_callback r ([OnStepStart name] @ completion name (fst rr) (snd rr) (w_clock w name)),
            op_late = [], op_output = [], op_errout = [], op_error = snd rr\<rparr>)"

definition RunAction :: "runner \<Rightarrow> world \<Rightarrow> string \<Rightarrow> op_run option" where
  "RunAction r w name =
     (case rn_registry r of
        None \<Rightarrow> None
      | Some reg \<Rightarrow>
          (case reg name of
             Some (description, rr) \<Rightarrow> Some (run_builtin_reported r w name description rr)
           | None \<Rightarrow>
               (case GetAction (rn_config r) name of
                  None \<Rightarrow> Some (op_fail (ActionNotFound name))
                | Some a \<Rightarrow>
                    if ro_DryRun (rn_opts r)
                    then map_option
                      (\<lambda>(out, err). \<lparr>op_events = with_callback r
                           [OnStepStart name,
                            (case err of None \<Rightarrow> OnStepComplete name StepStatusOK ''would execute action'' 0
                             | Some e \<Rightarrow> OnStepComplete name StepStatusError (error_text e) 0)],
                         op_late = [], op_output = out, op_errout = [], op_error = err\<rparr>)
                      (runActionInternalDryRun r a)
                    else run_reported r w name a)))"

section \<open>Properties\<close>

definition set_dry :: "bool \<Rightarrow> runner \<Rightarrow> runner" where
  "set_dry b r = r\<lparr>rn_opts := (rn_opts r)\<lparr>ro_DryRun := b\<rparr>\<rparr>"

lemma set_dry_simps [simp]:
  "rn_config (set_dry b r) = rn_config r" "rn_registry (set_dry b r) = rn_registry r"
  "rn_env (set_dry b r) = rn_env r" "rn_goos (set_dry b r) = rn_goos r"
  "rn_lookpath (set_dry b r) = rn_lookpath r" "ro_Verbose (rn_opts (set_dry b r)) = ro_Verbose (rn_opts r)"
  "ro_StepCallback (rn_opts (set_dry b r)) = ro_StepCallback (rn_opts r)"
  "ro_Variables (rn_opts (set_dry b r)) = ro_Variables (rn_opts r)"
  "ro_WorkingDir (rn_opts (set_dry b r)) = ro_WorkingDir (rn_opts r)"
  "vars_of (rn_opts (set_dry b r)) = vars_of (rn_opts r)"
  by (simp_all add: set_dry_def vars_of_def)

lemma set_dry_out: "out_events (set_dry b r) = out_events r" "with_callback (set_dry b r) = with_callback r"
  "verbose_line (set_dry b r) = verbose_line r"
  by (simp_all add: fun_eq_iff out_events_def with_callback_def verbose_line_def)

lemma set_dry_command:
  "getShellCommand (set_dry b r) = getShellCommand r" "mk_command (set_dry b r) = mk_command r"
  "executeCommandWithStreaming (set_dry b r) = executeCommandWithStreaming r"
  "buffered_run (set_dry b r) = buffered_run r"
  unfolding fun_eq_iff getShellCommand_def mk_command_def executeCommandWithStreaming_def buffered_run_def
    set_dry_simps set_dry_out by blast+

lemma set_dry_action:
  "runBuiltInAction (set_dry b r) = runBuiltInAction r" "runCustomAction (set_dry b r) = runCustomAction r"
  unfolding fun_eq_iff runBuiltInAction_def runCustomAction_def set_dry_simps set_dry_out set_dry_command
  by blast+

lemma set_dry_run: "run_reported (set_dry b r) = run_reported r"
  unfolding fun_eq_iff run_reported_def runActionInternal_def set_dry_simps set_dry_out set_dry_action
  by blast

text \<open>\<open>--dry-run\<close> has no effect on a single step: \<open>RunStageStep\<close> never looks at the option and
  executes the step's command for real.\<close>

theorem single_step_ignores_dry_run:
  "RunStageStep (set_dry True r) w stageName stepName = RunStageStep (set_dry False r) w stageName stepName"
  unfolding RunStageStep_def set_dry_simps set_dry_run ..

text \<open>A dry run of an action starts no process: its outcome does not depend on what processes
  would do.\<close>

theorem dry_run_starts_no_process:
  assumes "ro_DryRun (rn_opts r)"
  shows "RunAction r w name = RunAction r w' name"
  using assms by (simp add: RunAction_def run_builtin_reported_def split: option.split prod.split)

theorem dry_run_starts_no_process_witness:
  "RunAction (set_dry True sample_runner) sample_world ''a''
     = RunAction (set_dry True sample_runner) (sample_world\<lparr>w_clock := (\<lambda>_. 7)\<rparr>) ''a''"
  by (rule dry_run_starts_no_process) (simp add: set_dry_def)

lemma dry_builtin_fails: "snd (runBuiltInActionDryRun r a) = Some e \<Longrightarrow> runBuiltInAction r a = op_fail e"
  by (auto simp: runBuiltInActionDryRun_def runBuiltInAction_def split: option.splits)

lemma dry_custom_fails: "snd (runCustomActionDryRun r a) = Some e \<Longrightarrow> runCustomAction r w a = op_fail e"
  by (auto simp: runCustomActionDryRun_def runCustomAction_def Let_def split: if_splits sum.splits)

text \<open>C29: The dry run never warns in vain: if it predicts that an action fails, running the action
  fails with the same error, before any process is started.\<close>

theorem dry_run_predicts_failure:
  assumes "runActionInternalDryRun r a = Some (out, Some e)"
  shows "runActionInternal r w a = Some (op_fail e)"
proof (cases "SelectVariant (rn_env r) a (vars_of (rn_opts r))")
  case (Ok variant)
  define ea where "ea = effective_action a variant"
  have run: "\<not> (variant = None \<and> act_Variants a \<noteq> [])"
    and "(if act_Uses ea \<noteq> [] then runBuiltInActionDryRun r ea else runCustomActionDryRun r ea) = (out, Some e)"
    using assms Ok unfolding runActionInternalDryRun_def ea_def Let_def by (auto split: if_splits)
  then have "(if act_Uses ea \<noteq> [] then runBuiltInAction r ea else runCustomAction r w ea) = op_fail e"
    using dry_builtin_fails [of r ea e] dry_custom_fails [of r ea e w] by (auto split: if_splits)
  with Ok run(1) show ?thesis unfolding runActionInternal_def ea_def Let_def by (auto split: if_splits)
qed (use assms in \<open>auto simp: runActionInternalDryRun_def runActionInternal_def\<close>)

theorem dry_run_predicts_failure_witness:
  "runActionInternal sample_runner sample_world (sample_action ''a'' [] []) = Some (op_fail (NoRunCommand ''a''))"
  by (rule dry_run_predicts_failure [where out = "[]"])
    (simp add: runActionInternalDryRun_def SelectVariant_def sample_action_def effective_action_def
      runCustomActionDryRun_def)

text \<open>An action none of whose variants matches is skipped, yet \<open>RunAction\<close> and \<open>RunStageStep\<close>
  then report a second completion for it, as executed successfully.\<close>

theorem unmatched_variant_reported_ok:
  assumes "SelectVariant (rn_env r) a (vars_of (rn_opts r)) = Ok None" "act_Variants a \<noteq> []"
    and "ro_StepCallback (rn_opts r)"
  shows "\<exists>run. run_reported r w (act_Name a) a = Some run \<and> op_error run = None
     \<and> op_events run = [OnStepStart (act_Name a),
          OnStepComplete (act_Name a) StepStatusSkipped ''no matching variant'' 0,
          OnStepComplete (act_Name a) StepStatusOK ''executed successfully'' (w_clock w (act_Name a))]"
  using assms by (simp add: run_reported_def runActionInternal_def with_callback_def report_end_def)

theorem unmatched_variant_reported_ok_witness:
  "\<exists>run. run_reported sample_runner sample_world ''a'' (sample_action ''a'' []
       [\<lparr>var_When = ''false'', var_Run = ''x'', var_Uses = [], var_Shell = []\<rparr>]) = Some run
     \<and> OnStepComplete ''a'' StepStatusOK ''executed successfully'' 0 \<in> set (op_events run)"
proof -
  let ?a = "sample_action ''a'' [] [\<lparr>var_When = ''false'', var_Run = ''x'', var_Uses = [], var_Shell = []\<rparr>]"
  have "SelectVariant sample_env ?a (vars_of (rn_opts sample_runner)) = Ok None" by code_simp
  then have "SelectVariant (rn_env sample_runner) ?a (vars_of (rn_opts sample_runner)) = Ok None"
    by (simp add: sample_runner_def)
  from unmatched_variant_reported_ok [OF this, of sample_world] show ?thesis
    by (auto simp: sample_action_def sample_runner_def sample_world_def)
qed

end
