(* ===== verification/Stream_Exec.thy ===== *)
theory Stream_Exec
  imports Dag_Exec Step_Runner
begin

text \<open>
  \<open>executeDAGWithOrderedStreaming\<close> and \<open>executeDAGWithParallel\<close> of
  \<open>pkg/buildfab/buildfab.go\<close>: the executor of a stage without a step callback and its
  sibling without a display, as one step relation, with the \<open>StreamingOutputManager\<close> and the
  display functions.
\<close>

section \<open>Which step may stream\<close>

text \<open>
  The steps before the first one of a name, and the guard \<open>canDisplayStepInOrder\<close> and
  \<open>ShouldStreamOutput\<close> share: the name is a step and all steps before it have been displayed.
\<close>

definition steps_before :: "step list \<Rightarrow> string \<Rightarrow> string list" where
  "steps_before steps n = map step_Action (takeWhile (\<lambda>st. step_Action st \<noteq> n) steps)"

definition canDisplayStepInOrder :: "step \<Rightarrow> step list \<Rightarrow> string set \<Rightarrow> bool" where
  "canDisplayStepInOrder st steps displayed =
     (step_Action st \<in> step_Action ` set steps \<and> set (steps_before steps (step_Action st)) \<subseteq> displayed)"

record streaming_manager =
  stm_steps :: "step list"
  stm_displayed :: "string set"
  stm_started :: "string set"

definition ShouldStreamOutput :: "streaming_manager \<Rightarrow> string \<Rightarrow> bool" where
  "ShouldStreamOutput m n =
     (n \<in> step_Action ` set (stm_steps m) \<and> set (steps_before (stm_steps m) n) \<subseteq> stm_displayed m
      \<and> n \<notin> stm_displayed m)"

definition ShouldShowStepStart :: "streaming_manager \<Rightarrow> string \<Rightarrow> bool" where
  "ShouldShowStepStart m n =
     (n \<in> step_Action ` set (stm_steps m) \<and> set (steps_before (stm_steps m) n) \<subseteq> stm_started m)"

definition MarkStepStarted :: "string \<Rightarrow> streaming_manager \<Rightarrow> streaming_manager" where
  "MarkStepStarted n m = m\<lparr>stm_started := insert n (stm_started m)\<rparr>"

section \<open>One node\<close>

text \<open>
  \<open>stream\<close> is what \<open>ShouldStreamOutput\<close> answered. The buffered output of a command that
  succeeds becomes the message of its result. Variants are not looked at.
\<close>

definition buffered_output :: "proc_outcome \<Rightarrow> string" where
  "buffered_output p =
     (if po_stderr p \<noteq> []
      then (if po_stdout p \<noteq> [] then po_stdout p @ [newline] else []) @ po_stderr p
      else po_stdout p)"

definition runCustomActionForDAGWithStreamingControl ::
  "runner \<Rightarrow> world \<Rightarrow> bool \<Rightarrow> action \<Rightarrow> action_run" where
  "runCustomActionForDAGWithStreamingControl r w stream a =
     (if act_Run a = [] then failed_run ''no run command specified'' (NoRunCommand (act_Name a))
      else let ia = InterpolateAction a (ro_Variables (rn_opts r))
           in case getShellCommand r (act_Shell a) of
                Inl e \<Rightarrow>
                  \<lparr>ar_events = [], ar_late = [],
                   ar_result = (mk_result StatusError (''shell configuration error: '' @ error_text e))
                                 \<lparr>res_Name := act_Name a\<rparr>,
                   ar_err = Some (ShellConfig e)\<rparr>
              | Inr (shell, args) \<Rightarrow>
                  let cmd = mk_command r shell args (act_Run ia);
                      p = w_proc w (act_Name a) cmd;
                      (evs, late, err, buffered) =
                        (if ro_Verbose (rn_opts r) \<and> stream
                         then (case executeCommandWithStreaming r w cmd (act_Name a) of
                                 (evs, late, err) \<Rightarrow> (evs, late, err, []))
                         else ([], [], case po_start p of Some t \<Rightarrow> Some (ExternalError t) | None \<Rightarrow> po_err p,
                               buffered_output p))
                  in case err of
                       Some e \<Rightarrow>
                         \<lparr>ar_events = evs, ar_late = late,
                          ar_result = mk_result StatusError (error_text (CheckRun (act_Run a))),
                          ar_err = Some (CommandFailed e)\<rparr>
                     | None \<Rightarrow>
                         \<lparr>ar_events = evs, ar_late = late,
                          ar_result = mk_result StatusOK buffered, ar_err = None\<rparr>)"

definition with_duration :: "world \<Rightarrow> action \<Rightarrow> action_run \<Rightarrow> action_run" where
  "with_duration w a run = run\<lparr>ar_result := (ar_result run)\<lparr>res_Duration := w_clock w (act_Name a)\<rparr>\<rparr>"

definition executeActionForDAGWithStreamingControl ::
  "runner \<Rightarrow> world \<Rightarrow> bool \<Rightarrow> action \<Rightarrow> action_run" where
  "executeActionForDAGWithStreamingControl r w stream a =
     with_duration w a
       (if act_Uses a \<noteq> [] then runBuiltInActionForDAG r a
        else runCustomActionForDAGWithStreamingControl r w stream a)"

definition executeActionForDAG :: "runner \<Rightarrow> world \<Rightarrow> action \<Rightarrow> action_run" where
  "executeActionForDAG r w a =
     (let run = with_duration w a
                  (if act_Uses a \<noteq> [] then runBuiltInActionForDAG r a else runCustomActionForDAG r w a)
      in run\<lparr>ar_events := with_callback r [OnStepStart (act_Name a)] @ ar_events run\<rparr>)"

section \<open>State\<close>

text \<open>
  The two executors without a callback function have the same goroutines; \<open>se_ordered\<close> tells
  \<open>executeDAGWithOrderedStreaming\<close> from \<open>executeDAGWithParallel\<close>, which displays nothing.
  \<open>se_run\<close> gets what has been displayed when the node's command starts.
\<close>

record stream_env =
  se_ordered :: bool
  se_verbose :: bool
  se_callback :: bool
  se_steps :: "step list"
  se_dag :: dag
  se_should :: "string \<Rightarrow> bool option"
  se_run :: "string set \<Rightarrow> string \<Rightarrow> action_run"

text \<open>
  A worker waits to start its command, or has the events, late events and result it has still
  to send. The scheduler decides about a node after it has marked it as executing. The collector
  displays after it has recorded a result.
\<close>

datatype worker = Waiting | Sending "cb_event list" "cb_event list" result

datatype stream_pc =
    Scan | Start "string list" | Decide string "string list" | ShowStarted "string list" | Drain
  | Closed | Crashed

datatype collector_pc = Receive | Displaying string | DisplayNext

record stream_state =
  ss_results :: "result list"
  ss_resultMap :: "string \<Rightarrow> result option"
  ss_completed :: "string set"
  ss_failed :: "string set"
  ss_executing :: "string set"
  ss_displayed :: "string set"
  ss_started :: "string set"
  ss_chan :: "result list"
  ss_workers :: "(string \<times> worker) list"
  ss_late :: "cb_event list list"
  ss_pc :: stream_pc
  ss_collector :: collector_pc
  ss_cancelled :: bool
  ss_events :: "cb_event list"

definition stream_init :: stream_state where
  "stream_init =
     \<lparr>ss_results = [], ss_resultMap = Map.empty, ss_completed = {}, ss_failed = {}, ss_executing = {},
      ss_displayed = {}, ss_started = {}, ss_chan = [], ss_workers = [], ss_late = [], ss_pc = Scan,
      ss_collector = Receive, ss_cancelled = False, ss_events = []\<rparr>"

text \<open>\<open><-done\<close> returns: the channel is closed and the collector has left its loop.\<close>

definition stream_finished :: "stream_state \<Rightarrow> bool" where
  "stream_finished s = (ss_pc s = Closed \<and> ss_chan s = [] \<and> ss_collector s = Receive)"

section \<open>Display\<close>

definition display_status :: "result \<Rightarrow> step_status \<times> string" where
  "display_status res =
     (if res_Status res = StatusWarn then (StepStatusWarn, res_Message res)
      else if res_Status res = StatusError then (StepStatusError, res_Message res)
      else if res_Status res = StatusSkipped then (StepStatusSkipped, res_Message res)
      else (StepStatusOK, ''executed successfully''))"

definition display_completion :: "stream_env \<Rightarrow> string \<Rightarrow> result \<Rightarrow> cb_event list" where
  "display_completion E n res =
     (if se_callback E
      then [case display_status res of (st, msg) \<Rightarrow> OnStepComplete n st msg (res_Duration res)] else [])"

definition displayStepInOrder :: "stream_env \<Rightarrow> string \<Rightarrow> stream_state \<Rightarrow> stream_state" where
  "displayStepInOrder E n s =
     (case find (\<lambda>st. step_Action st = n) (se_steps E) of
        None \<Rightarrow> s
      | Some st \<Rightarrow>
          if canDisplayStepInOrder st (se_steps E) (ss_displayed s)
          then (case ss_resultMap s n of
                  None \<Rightarrow> s
                | Some res \<Rightarrow>
                    if n \<in> ss_completed s
                    then s\<lparr>ss_events := ss_events s
                             @ (if se_callback E \<and> se_verbose E \<and> res_Message res \<noteq> []
                                then [OnStepOutput n (res_Message res)] else [])
                             @ display_completion E n res,
                           ss_displayed := insert n (ss_displayed s)\<rparr>
                    else s)
          else s)"

text \<open>The loop of \<open>checkAndDisplayNextStep\<close> stops at the first step it may display.\<close>

definition checkAndDisplayNextStep :: "stream_env \<Rightarrow> stream_state \<Rightarrow> stream_state" where
  "checkAndDisplayNextStep E s =
     (case find (\<lambda>st. step_Action st \<notin> ss_displayed s
                   \<and> canDisplayStepInOrder st (se_steps E) (ss_displayed s)) (se_steps E) of
        None \<Rightarrow> s
      | Some st \<Rightarrow>
          (let n = step_Action st;
               s1 = (if se_callback E \<and> n \<notin> ss_started s
                     then s\<lparr>ss_events := ss_events s @ [OnStepStart n],
                            ss_started := insert n (ss_started s)\<rparr>
                     else s)
           in if n \<in> ss_completed s1 then displayStepInOrder E n s1 else s1))"

definition displayRemainingSteps :: "stream_env \<Rightarrow> stream_state \<Rightarrow> stream_state" where
  "displayRemainingSteps E s =
     fold (\<lambda>st s. let n = step_Action st in
             if n \<in> ss_displayed s then s
             else (case ss_resultMap s n of
                     None \<Rightarrow> s
                   | Some res \<Rightarrow> s\<lparr>ss_events := ss_events s @ display_completion E n res,
                                   ss_displayed := insert n (ss_displayed s)\<rparr>))
       (se_steps E) s"

section \<open>Steps\<close>

text \<open>The collector's critical section, which also fills the map of results.\<close>

definition stream_collect :: "result \<Rightarrow> stream_state \<Rightarrow> stream_state" where
  "stream_collect r s =
     s\<lparr>ss_results := ss_results s @ [r], ss_resultMap := (ss_resultMap s)(res_Name r \<mapsto> r),
        ss_completed := insert (res_Name r) (ss_completed s),
        ss_executing := ss_executing s - {res_Name r},
        ss_failed := (if res_Status r = StatusError then insert (res_Name r) (ss_failed s)
                      else ss_failed s)\<rparr>"

definition skip_events_of :: "stream_env \<Rightarrow> string \<Rightarrow> cb_event list" where
  "skip_events_of E n =
     (if se_callback E then [OnStepComplete n StepStatusSkipped ''skipped (condition not met)'' 0] else [])"

definition error_events :: "stream_env \<Rightarrow> string \<Rightarrow> action_run \<Rightarrow> cb_event list" where
  "error_events E n run =
     (case ar_err run of Some e \<Rightarrow> if se_callback E \<and> se_ordered E then [OnStepError n e] else [] | None \<Rightarrow> [])"

definition stream_ready :: "stream_env \<Rightarrow> stream_state \<Rightarrow> string list" where
  "stream_ready E s = getReadyStepsLocked (se_dag E) (ss_completed s) (ss_executing s)"

text \<open>
  One step of one goroutine. A send on \<open>resultChan\<close> never waits, since its buffer has a place
  for every node; next to a cancelled context it may lose. The channel is closed when nothing
  executes any more or when the context is cancelled, and a worker that sends on the closed
  channel crashes the program. The display functions run without the mutex; here each is one
  step.
\<close>

inductive stream_step :: "stream_env \<Rightarrow> stream_state \<Rightarrow> stream_state \<Rightarrow> bool" for E where
  cancel:
    "\<not> ss_cancelled s \<Longrightarrow> stream_step E s (s\<lparr>ss_cancelled := True\<rparr>)"
| scan_cancelled:
    "ss_pc s = Scan \<Longrightarrow> ss_cancelled s \<Longrightarrow> stream_step E s (s\<lparr>ss_pc := Drain\<rparr>)"
| scan_ready:
    "ss_pc s = Scan \<Longrightarrow> \<not> ss_cancelled s \<Longrightarrow> ns \<noteq> [] \<Longrightarrow> distinct ns \<Longrightarrow> set ns = set (stream_ready E s) \<Longrightarrow>
     stream_step E s (s\<lparr>ss_pc := Start ns\<rparr>)"
| scan_done:
    "ss_pc s = Scan \<Longrightarrow> \<not> ss_cancelled s \<Longrightarrow> stream_ready E s = [] \<Longrightarrow>
     \<forall>n \<in> dag_names (se_dag E). n \<in> ss_completed s \<or> n \<in> ss_executing s \<Longrightarrow>
     stream_step E s (s\<lparr>ss_pc := Drain\<rparr>)"
| start_cancelled:
    "ss_pc s = Start (n # ns) \<Longrightarrow> ss_cancelled s \<Longrightarrow> stream_step E s (s\<lparr>ss_pc := Drain\<rparr>)"
| start:
    "ss_pc s = Start (n # ns) \<Longrightarrow> \<not> ss_cancelled s \<Longrightarrow>
     stream_step E s (s\<lparr>ss_executing := insert n (ss_executing s), ss_pc := Decide n ns\<rparr>)"
| start_end:
    "ss_pc s = Start [] \<Longrightarrow> stream_step E s (s\<lparr>ss_pc := Scan\<rparr>)"
| decide_skip_dep:
    "ss_pc s = Decide n ns \<Longrightarrow> map_of (se_dag E) n = Some nd \<Longrightarrow> hasFailedDependency nd (ss_failed s) \<Longrightarrow>
     stream_step E s
       (s\<lparr>ss_chan := ss_chan s @ [skip_dep_result n (getFailedDependencyNames nd (ss_failed s))],
          ss_pc := Start ns\<rparr>)"
| decide_skip_cond:
    "ss_pc s = Decide n ns \<Longrightarrow> map_of (se_dag E) n = Some nd \<Longrightarrow> \<not> hasFailedDependency nd (ss_failed s) \<Longrightarrow>
     se_should E n = Some False \<Longrightarrow>
     stream_step E s
       (s\<lparr>ss_events := ss_events s @ skip_events_of E n, ss_chan := ss_chan s @ [skip_cond_result n],
          ss_pc := Start ns\<rparr>)"
| decide_lost:
    "ss_pc s = Decide n ns \<Longrightarrow> ss_cancelled s \<Longrightarrow> map_of (se_dag E) n = Some nd \<Longrightarrow>
     hasFailedDependency nd (ss_failed s) \<or> se_should E n = Some False \<Longrightarrow>
     stream_step E s
       (s\<lparr>ss_events := ss_events s @ (if hasFailedDependency nd (ss_failed s) then [] else skip_events_of E n),
          ss_pc := Drain\<rparr>)"
| decide_run:
    "ss_pc s = Decide n ns \<Longrightarrow> map_of (se_dag E) n = Some nd \<Longrightarrow> \<not> hasFailedDependency nd (ss_failed s) \<Longrightarrow>
     se_should E n = Some True \<Longrightarrow>
     stream_step E s
       (s\<lparr>ss_workers := ss_workers s @ [(n, Waiting)],
          ss_pc := (if se_ordered E then ShowStarted ns else Start ns)\<rparr>)"
| decide_panic:
    "ss_pc s = Decide n ns \<Longrightarrow> map_of (se_dag E) n = Some nd \<Longrightarrow> \<not> hasFailedDependency nd (ss_failed s) \<Longrightarrow>
     se_should E n = None \<Longrightarrow> stream_step E s (s\<lparr>ss_pc := Crashed\<rparr>)"
| show_started:
    "ss_pc s = ShowStarted ns \<Longrightarrow> stream_step E s ((checkAndDisplayNextStep E s)\<lparr>ss_pc := Start ns\<rparr>)"
| work_run:
    "ss_pc s \<noteq> Crashed \<Longrightarrow> ss_workers s = ws @ (n, Waiting) # ws' \<Longrightarrow> run = se_run E (ss_displayed s) n \<Longrightarrow>
     stream_step E s
       (s\<lparr>ss_workers := ws @ (n, Sending (ar_events run @ error_events E n run) (ar_late run)
                                  ((ar_result run)\<lparr>res_Name := n\<rparr>)) # ws'\<rparr>)"
| work_event:
    "ss_pc s \<noteq> Crashed \<Longrightarrow> ss_workers s = ws @ (n, Sending (e # es) late res) # ws' \<Longrightarrow>
     stream_step E s
       (s\<lparr>ss_workers := ws @ (n, Sending es late res) # ws', ss_events := ss_events s @ [e]\<rparr>)"
| work_send:
    "ss_pc s \<noteq> Crashed \<Longrightarrow> ss_pc s \<noteq> Closed \<Longrightarrow> ss_workers s = ws @ (n, Sending [] late res) # ws' \<Longrightarrow>
     stream_step E s
       (s\<lparr>ss_workers := ws @ ws', ss_chan := ss_chan s @ [res], ss_late := ss_late s @ [late]\<rparr>)"
| work_crash:
    "ss_pc s = Closed \<Longrightarrow> ss_workers s = ws @ (n, Sending [] late res) # ws' \<Longrightarrow>
     stream_step E s (s\<lparr>ss_pc := Crashed\<rparr>)"
| work_drop:
    "ss_pc s \<noteq> Crashed \<Longrightarrow> ss_cancelled s \<Longrightarrow> ss_workers s = ws @ (n, Sending [] late res) # ws' \<Longrightarrow>
     stream_step E s (s\<lparr>ss_workers := ws @ ws', ss_late := ss_late s @ [late]\<rparr>)"
| late_event:
    "ss_pc s \<noteq> Crashed \<Longrightarrow> ss_late s = ls @ (e # es) # ls' \<Longrightarrow>
     stream_step E s (s\<lparr>ss_late := ls @ es # ls', ss_events := ss_events s @ [e]\<rparr>)"
| receive:
    "ss_pc s \<noteq> Crashed \<Longrightarrow> ss_collector s = Receive \<Longrightarrow> ss_chan s = r # rs \<Longrightarrow>
     stream_step E s
       ((stream_collect r s)\<lparr>ss_chan := rs,
          ss_collector := (if se_ordered E then Displaying (res_Name r) else Receive)\<rparr>)"
| show_result:
    "ss_pc s \<noteq> Crashed \<Longrightarrow> ss_collector s = Displaying n \<Longrightarrow>
     stream_step E s ((displayStepInOrder E n s)\<lparr>ss_collector := DisplayNext\<rparr>)"
| show_next:
    "ss_pc s \<noteq> Crashed \<Longrightarrow> ss_collector s = DisplayNext \<Longrightarrow>
     stream_step E s ((checkAndDisplayNextStep E s)\<lparr>ss_collector := Receive\<rparr>)"
| close_done:
    "ss_pc s = Drain \<Longrightarrow> ss_executing s \<inter> dag_names (se_dag E) = {} \<Longrightarrow>
     stream_step E s (s\<lparr>ss_pc := Closed\<rparr>)"
| close_cancelled:
    "ss_pc s = Drain \<Longrightarrow> ss_cancelled s \<Longrightarrow> ss_executing s \<inter> dag_names (se_dag E) \<noteq> {} \<Longrightarrow>
     stream_step E s (s\<lparr>ss_pc := Closed\<rparr>)"

inductive stream_reach :: "stream_env \<Rightarrow> stream_state \<Rightarrow> bool" for E where
  init: "stream_reach E stream_init"
| step: "stream_reach E s \<Longrightarrow> stream_step E s t \<Longrightarrow> stream_reach E t"

section \<open>The runner's executors\<close>

text \<open>The condition of a node, that of its step in the graph; \<open>None\<close> is a panic.\<close>

definition node_should :: "runner \<Rightarrow> dag \<Rightarrow> string \<Rightarrow> bool option" where
  "node_should r dag n =
     (case map_of dag n of
        None \<Rightarrow> None
      | Some nd \<Rightarrow> (case shouldExecuteStep r (node_Step nd) of Ok (b, _) \<Rightarrow> Some b | _ \<Rightarrow> None))"

text \<open>The action of a node; the executors ask for nodes of the graph only.\<close>

definition node_action :: "dag \<Rightarrow> string \<Rightarrow> action" where
  "node_action dag n =
     (case map_of dag n of
        Some nd \<Rightarrow> node_Action nd
      | None \<Rightarrow> \<lparr>act_Name = n, act_Run = [], act_Uses = [], act_Shell = [], act_Variants = []\<rparr>)"

definition streaming_env :: "runner \<Rightarrow> world \<Rightarrow> dag \<Rightarrow> step list \<Rightarrow> stream_env" where
  "streaming_env r w dag steps =
     \<lparr>se_ordered = True, se_verbose = ro_Verbose (rn_opts r), se_callback = ro_StepCallback (rn_opts r),
      se_steps = steps, se_dag = dag, se_should = node_should r dag,
      se_run = (\<lambda>displayed n.
        let a = node_action dag n;
            m = \<lparr>stm_steps = steps, stm_displayed = displayed, stm_started = {}\<rparr>
        in executeActionForDAGWithStreamingControl r w (ShouldStreamOutput m (act_Name a)) a)\<rparr>"

definition parallel_env :: "runner \<Rightarrow> world \<Rightarrow> dag \<Rightarrow> step list \<Rightarrow> stream_env" where
  "parallel_env r w dag steps =
     \<lparr>se_ordered = False, se_verbose = ro_Verbose (rn_opts r), se_callback = ro_StepCallback (rn_opts r),
      se_steps = steps, se_dag = dag, se_should = node_should r dag,
      se_run = (\<lambda>_ n. executeActionForDAG r w (node_action dag n))\<rparr>"

text \<open>The steps of \<open>executeDAGWithParallel\<close>, which no other code calls.\<close>

definition parallel_step :: "runner \<Rightarrow> world \<Rightarrow> dag \<Rightarrow> step list \<Rightarrow> stream_state \<Rightarrow> stream_state \<Rightarrow> bool" where
  "parallel_step r w dag steps = stream_step (parallel_env r w dag steps)"

end
