(* ===== verification/Stage_Run.thy ===== *)
theory Stage_Run
  imports Action_Run Stream_Exec
begin

text \<open>
  Running a stage, from \<open>pkg/buildfab/buildfab.go\<close>: the graph is built, with a step callback
  \<open>executeDAGWithCallback\<close> runs it (the step relation of \<open>Dag_Exec\<close>), without one
  \<open>executeDAGWithOrderedStreaming\<close> (that of \<open>Stream_Exec\<close>), and the results are checked against the \<open>onerror\<close> settings. A stage run is a relation, because the schedule and
  the moment of a cancellation are not determined. The dry run of a stage is a function.
\<close>

section \<open>The executor's environment\<close>

text \<open>
  A node is run with the step configuration of the first step of its name, while its condition
  and its requirements are those of the last one, which the graph has kept.
\<close>

definition node_run :: "runner \<Rightarrow> world \<Rightarrow> dag \<Rightarrow> step list \<Rightarrow> string \<Rightarrow> action_run option" where
  "node_run r w dag steps n =
     (case map_of dag n of
        None \<Rightarrow> None
      | Some nd \<Rightarrow> executeActionForDAGWithCallback r w (node_Action nd) (find_step steps n))"

definition stage_env :: "runner \<Rightarrow> world \<Rightarrow> dag \<Rightarrow> step list \<Rightarrow> exec_env" where
  "stage_env r w dag steps =
     \<lparr>xe_dag = dag, xe_should = node_should r dag, xe_run = node_run r w dag steps,
      xe_callback = ro_StepCallback (rn_opts r)\<rparr>"

section \<open>The error policy\<close>

text \<open>
  The loops over the results and the steps. A step with \<open>onerror: warn\<close> only prints a warning
  (\<open>%v\<close> of a nil error is \<open><nil>\<close>) and the loop over the steps goes on; the first other step of
  that name ends the stage with its error.
\<close>

definition step_warning :: "runner \<Rightarrow> step \<Rightarrow> result \<Rightarrow> string list" where
  "step_warning r st res =
     verbose_line r (''Warning: step '' @ step_Action st @ '' failed: ''
       @ (case res_Error res of None \<Rightarrow> ''<nil>'' | Some e \<Rightarrow> error_text e))"

fun check_steps :: "runner \<Rightarrow> result \<Rightarrow> step list \<Rightarrow> string list \<times> go_error option" where
  "check_steps r res [] = ([], None)"
| "check_steps r res (st # sts) =
     (if step_Action st = res_Name res then
        (if step_OnError st = ''warn''
         then (case check_steps r res sts of (ws, e) \<Rightarrow> (step_warning r st res @ ws, e))
         else ([], Some (case res_Error res of
                 Some e \<Rightarrow> StepFailed (step_Action st) e
               | None \<Rightarrow> StepFailedMsg (step_Action st) (res_Message res))))
      else check_steps r res sts)"

fun check_results :: "runner \<Rightarrow> step list \<Rightarrow> result list \<Rightarrow> string list \<times> go_error option" where
  "check_results r steps [] = ([], None)"
| "check_results r steps (res # rs) =
     (if res_Status res = StatusError
      then (case check_steps r res steps of
              (ws, Some e) \<Rightarrow> (ws, Some e)
            | (ws, None) \<Rightarrow> (case check_results r steps rs of (ws', e) \<Rightarrow> (ws @ ws', e)))
      else check_results r steps rs)"

text \<open>After the loops: a cancelled run returns the context's error.\<close>

definition stage_error :: "go_error option \<Rightarrow> bool \<Rightarrow> go_error option" where
  "stage_error policy terminated =
     (case policy of Some e \<Rightarrow> Some e | None \<Rightarrow> if terminated then Some ContextCanceled else None)"

section \<open>The dry run of a stage\<close>

record dry_counts =
  dc_executed :: nat
  dc_skipped :: nat

definition only_matches :: "run_options \<Rightarrow> step \<Rightarrow> bool" where
  "only_matches o1 st = (ro_Only o1 = [] \<or> (\<exists>l \<in> set (ro_Only o1). \<exists>k \<in> set (step_Only st). k = l))"

definition dry_step_action :: "runner \<Rightarrow> step \<Rightarrow> string list option" where
  "dry_step_action r st =
     (case GetAction (rn_config r) (step_Action st) of
        None \<Rightarrow>
          (case rn_registry r of
             None \<Rightarrow> None
           | Some reg \<Rightarrow>
               Some (case reg (step_Action st) of
                  Some (description, _) \<Rightarrow>
                    verbose_line r (icon_check @ '' '' @ step_Action st @ '': would execute built-in action: '' @ description)
                | None \<Rightarrow> verbose_line r (icon_cross @ '' '' @ step_Action st @ '': would fail (action not found)'')))
      | Some a \<Rightarrow>
          (case runActionInternalDryRun r a of
             None \<Rightarrow> None
           | Some (out, None) \<Rightarrow> Some out
           | Some (out, Some e) \<Rightarrow>
               Some (out @ verbose_line r (icon_cross @ '' '' @ step_Action st @ '': would fail ('' @ error_text e @ '')''))))"

fun dry_steps :: "runner \<Rightarrow> step list \<Rightarrow> dry_counts \<Rightarrow> (string list \<times> (go_error + dry_counts)) option" where
  "dry_steps r [] k = Some ([], Inr k)"
| "dry_steps r (st # sts) k =
     (case shouldExecuteStepByCondition r st of
        Panic \<Rightarrow> None
      | Err e \<Rightarrow> Some ([], Inl (StepConditionFailed e))
      | Ok False \<Rightarrow>
          map_option (\<lambda>(out, res). (verbose_line r (icon_arrow @ '' '' @ step_Action st
              @ '': would skip (condition not met)'') @ out, res))
            (dry_steps r sts (k\<lparr>dc_skipped := Suc (dc_skipped k)\<rparr>))
      | Ok True \<Rightarrow>
          if \<not> only_matches (rn_opts r) st
          then map_option (\<lambda>(out, res). (verbose_line r (icon_arrow @ '' '' @ step_Action st
              @ '': would skip (not in only filter)'') @ out, res))
            (dry_steps r sts (k\<lparr>dc_skipped := Suc (dc_skipped k)\<rparr>))
          else (case dry_step_action r st of
                  None \<Rightarrow> None
                | Some out1 \<Rightarrow>
                    map_option (\<lambda>(out, res). (out1 @ out, res))
                      (dry_steps r sts (k\<lparr>dc_executed := Suc (dc_executed k)\<rparr>))))"

definition icon_play :: string where "icon_play = [CHR 0xE2, CHR 0x96, CHR 0xB6, CHR 0xEF, CHR 0xB8, CHR 0x8F]"
definition icon_glass :: string where "icon_glass = [CHR 0xF0, CHR 0x9F, CHR 0x94, CHR 0x8D]"
definition icon_chart :: string where "icon_chart = [CHR 0xF0, CHR 0x9F, CHR 0x93, CHR 0x8A]"

definition rule_line :: string where
  "rule_line = concat (replicate 80 [CHR 0xE2, CHR 0x94, CHR 0x81]) @ [newline]"

text \<open>\<open>%-8s\<close> and \<open>%3d\<close>.\<close>

definition pad_right :: "nat \<Rightarrow> string \<Rightarrow> string" where
  "pad_right n s = s @ replicate (n - length s) (CHR '' '')"

definition count_line :: "string \<Rightarrow> string \<Rightarrow> string \<Rightarrow> nat \<Rightarrow> string" where
  "count_line color icon label n =
     ''   '' @ color @ icon @ colorReset @ '' '' @ color @ pad_right 8 label @ '' ''
     @ pad_left 3 (CHR '' '') (show_nat n) @ colorReset @ [newline]"

definition dry_header :: "string \<Rightarrow> string" where
  "dry_header stageName = icon_play @ ''  Dry run stage: '' @ stageName @ [newline, newline]"

definition dry_summary :: "string \<Rightarrow> dry_counts \<Rightarrow> nat \<Rightarrow> string list" where
  "dry_summary stageName k nsteps =
     [[newline], rule_line,
      icon_glass @ '' '' @ colorCyan @ ''DRY RUN'' @ colorReset @ '' - '' @ stageName @ [newline],
      [newline], icon_chart @ '' Summary:'' @ [newline],
      count_line colorGreen icon_check ''would run'' (dc_executed k),
      count_line colorGray icon_arrow ''skipped'' (dc_skipped k),
      count_line colorGray ''?'' ''total'' nsteps]"

definition executeStageDryRun :: "runner \<Rightarrow> string \<Rightarrow> step list \<Rightarrow> (string list \<times> go_error option) option" where
  "executeStageDryRun r stageName steps =
     map_option
       (\<lambda>(out, res). (dry_header stageName # out @ (case res of Inl e \<Rightarrow> [] | Inr k \<Rightarrow> dry_summary stageName k (length steps)),
                      case res of Inl e \<Rightarrow> Some e | Inr k \<Rightarrow> None))
       (dry_steps r steps \<lparr>dc_executed = 0, dc_skipped = 0\<rparr>)"

section \<open>Stages\<close>

text \<open>
  How a call of \<open>RunStage\<close> can end: refused before anything ran, a dry run, or a run of the
  executor that ended in the state \<open>s\<close>, with the warnings printed. \<open>lo\<close> and \<open>co\<close> are the
  orders of the ranges in \<open>buildDAG\<close>. The context's error is read after the executor has
  returned: \<open>s\<close> may have been cancelled since.
\<close>

datatype stage_outcome =
    Refused go_error
  | DryRan "string list" "go_error option"
  | Finished exec_state "string list" "go_error option"
  | Streamed stream_state "string list" "go_error option"

fun outcome_error :: "stage_outcome \<Rightarrow> go_error option" where
  "outcome_error (Refused e) = Some e"
| "outcome_error (DryRan out err) = err"
| "outcome_error (Finished s warnings err) = err"
| "outcome_error (Streamed s warnings err) = err"

inductive executeStageWithCallback ::
  "runner \<Rightarrow> world \<Rightarrow> (dag \<Rightarrow> string list) \<Rightarrow> (dag \<Rightarrow> string list) \<Rightarrow> step list \<Rightarrow> stage_outcome \<Rightarrow> bool"
  for r w lo co where
  no_graph:
    "buildDAG (rn_config r) lo co steps = Err e \<Longrightarrow>
     executeStageWithCallback r w lo co steps (Refused (BuildDAGFailed e))"
| executed:
    "buildDAG (rn_config r) lo co steps = Ok dag \<Longrightarrow>
     exec_reach (stage_env r w dag steps) s \<Longrightarrow> exec_finished s \<Longrightarrow>
     check_results r steps (xs_results s) = (warnings, policy) \<Longrightarrow>
     executeStageWithCallback r w lo co steps
       (Finished s warnings (stage_error policy (xs_cancelled s)))"

inductive_cases executeStageWithCallbackE: "executeStageWithCallback r w lo co steps out"

inductive runStageInternal ::
  "runner \<Rightarrow> world \<Rightarrow> (dag \<Rightarrow> string list) \<Rightarrow> (dag \<Rightarrow> string list) \<Rightarrow> string \<Rightarrow> step list \<Rightarrow> stage_outcome \<Rightarrow> bool"
  for r w lo co where
  dry:
    "ro_DryRun (rn_opts r) \<Longrightarrow> executeStageDryRun r stageName steps = Some (out, err) \<Longrightarrow>
     runStageInternal r w lo co stageName steps (DryRan out err)"
| callback:
    "\<not> ro_DryRun (rn_opts r) \<Longrightarrow> ro_StepCallback (rn_opts r) \<Longrightarrow>
     executeStageWithCallback r w lo co steps out \<Longrightarrow>
     runStageInternal r w lo co stageName steps out"
| streaming_refused:
    "\<not> ro_DryRun (rn_opts r) \<Longrightarrow> \<not> ro_StepCallback (rn_opts r) \<Longrightarrow>
     buildDAG (rn_config r) lo co steps = Err e \<Longrightarrow>
     runStageInternal r w lo co stageName steps (Refused (BuildDAGFailed e))"
| streamed:
    "\<not> ro_DryRun (rn_opts r) \<Longrightarrow> \<not> ro_StepCallback (rn_opts r) \<Longrightarrow>
     buildDAG (rn_config r) lo co steps = Ok dag \<Longrightarrow>
     stream_reach (streaming_env r w dag steps) s \<Longrightarrow> stream_finished s \<Longrightarrow>
     check_results r steps (ss_results s) = (warnings, policy) \<Longrightarrow>
     runStageInternal r w lo co stageName steps
       (Streamed (displayRemainingSteps (streaming_env r w dag steps) s) warnings
          (stage_error policy (ss_cancelled s)))"

inductive_cases runStageInternalE: "runStageInternal r w lo co stageName steps out"

inductive RunStage ::
  "runner \<Rightarrow> world \<Rightarrow> (dag \<Rightarrow> string list) \<Rightarrow> (dag \<Rightarrow> string list) \<Rightarrow> string \<Rightarrow> stage_outcome \<Rightarrow> bool"
  for r w lo co where
  unknown:
    "GetStage (rn_config r) stageName = None \<Longrightarrow>
     RunStage r w lo co stageName (Refused (StageNotFound stageName))"
| known:
    "GetStage (rn_config r) stageName = Some stg \<Longrightarrow>
     runStageInternal r w lo co stageName (stage_Steps stg) out \<Longrightarrow> RunStage r w lo co stageName out"

inductive_cases RunStageE: "RunStage r w lo co stageName out"

end
