(* ===== verification/Stage_Correct.thy ===== *)
theory Stage_Correct
  imports Stage_Run
begin

text \<open>
  The correctness of a stage run: the graph that \<open>buildDAG\<close> accepts is one the executor can run,
  the callback is told what the executor records, and the error returned follows from the results
  and the \<open>onerror\<close> settings. \<open>three_steps\<close> is the running example of the witnesses.
\<close>

section \<open>The graph of a stage\<close>

lemma find_step_name: "find_step steps n = Some st \<Longrightarrow> step_Action st = n \<and> st \<in> set steps"
  by (auto simp: find_step_def find_Some_iff)

lemma find_unique_step:
  assumes "distinct (map step_Action steps)" "st \<in> set steps"
  shows "find_step steps (step_Action st) = Some st" "last_step steps (step_Action st) = Some st"
proof -
  have *: "find (\<lambda>s. step_Action s = step_Action st) xs = Some st"
    if "distinct (map step_Action xs)" "st \<in> set xs" for xs
    using that by (induction xs) auto
  show "find_step steps (step_Action st) = Some st" using * assms by (simp add: find_step_def)
  have "distinct (map step_Action (rev steps))" using assms(1) by (simp add: rev_map [symmetric])
  then show "last_step steps (step_Action st) = Some st" using * assms by (simp add: last_step_def)
qed

lemma last_step_in: "last_step steps n = Some st \<Longrightarrow> st \<in> set steps"
  unfolding last_step_def by (metis find_Some_iff nth_mem set_rev)

definition built :: "runner \<Rightarrow> step list \<Rightarrow> dag \<Rightarrow> bool" where
  "built r steps dag = (\<exists>lo co. range_order lo \<and> range_order co \<and> buildDAG (rn_config r) lo co steps = Ok dag)"

lemma builtE:
  assumes "built r steps dag"
  obtains lo co where "range_order lo" "range_order co" "buildDAG (rn_config r) lo co steps = Ok dag"
  using assms by (auto simp: built_def)

lemma stage_env_simps [simp]:
  "xe_dag (stage_env r w dag steps) = dag" "xe_should (stage_env r w dag steps) = node_should r dag"
  "xe_run (stage_env r w dag steps) = node_run r w dag steps"
  "xe_callback (stage_env r w dag steps) = ro_StepCallback (rn_opts r)"
  by (simp_all add: stage_env_def)

lemma built_graph:
  assumes "built r steps dag"
  shows "graph_ok dag" "dag_names dag = step_Action ` set steps"
proof -
  obtain lo co where *: "range_order lo" "range_order co" "buildDAG (rn_config r) lo co steps = Ok dag"
    using assms by (rule builtE)
  note ok = buildDAG_Ok [OF *] and node = buildDAG_node [OF *]
  show "dag_names dag = step_Action ` set steps" by (rule node(2))
  have "v \<in> dag_names dag" if "v \<in> set (dag_deps dag u)" for u v
  proof -
    have "(u, v) \<in> require_edge steps" using that node(3) by (auto simp: dep_edge_def)
    then have "v \<in> snd ` require_edge steps" by force
    then show ?thesis using ok(2) node(2) by (auto simp: requires_exist_def)
  qed
  then show "graph_ok dag" using ok(3,4) node(3) by (auto simp: graph_ok_def dag_closed_def)
qed

lemma built_keys: "built r steps dag \<Longrightarrow> distinct (map fst dag)"
  using built_graph(1) by (simp add: graph_ok_def)

lemma built_node:
  assumes "built r steps dag" "map_of dag n = Some nd"
  shows "last_step steps n = Some (node_Step nd)" "GetAction (rn_config r) n = Some (node_Action nd)"
    "act_Name (node_Action nd) = n" "node_Dependencies nd = step_Require (node_Step nd)"
proof -
  obtain lo co where *: "range_order lo" "range_order co" "buildDAG (rn_config r) lo co steps = Ok dag"
    using assms(1) by (rule builtE)
  note buildDAG_node(1) [OF * assms(2)]
  then show "last_step steps n = Some (node_Step nd)" "GetAction (rn_config r) n = Some (node_Action nd)"
    "node_Dependencies nd = step_Require (node_Step nd)" by simp_all
  then show "act_Name (node_Action nd) = n" using GetAction_name by blast
qed

lemma built_deps:
  assumes "built r steps dag" "distinct (map step_Action steps)" "st \<in> set steps"
  shows "dag_deps dag (step_Action st) = step_Require st"
proof -
  have "step_Action st \<in> dag_names dag" using built_graph(2) [OF assms(1)] assms(3) by simp
  then obtain nd where nd: "map_of dag (step_Action st) = Some nd" by (auto simp: dag_names_iff)
  then show ?thesis
    using built_node [OF assms(1) nd] find_unique_step(2) [OF assms(2,3)] by (simp add: dag_deps_def)
qed

section \<open>The runs of its nodes\<close>

lemma node_run_action:
  assumes "built r steps dag" "node_run r w dag steps n = Some run"
  obtains a where "act_Name a = n" "GetAction (rn_config r) n = Some a"
    "executeActionForDAGWithCallback r w a (find_step steps n) = Some run"
proof -
  obtain nd where nd: "map_of dag n = Some nd"
    "executeActionForDAGWithCallback r w (node_Action nd) (find_step steps n) = Some run"
    using assms(2) by (auto simp: node_run_def split: option.splits)
  show thesis by (rule that [OF built_node(3,2) [OF assms(1) nd(1)] nd(2)])
qed

lemma stage_runs_ok: "built r steps dag \<Longrightarrow> ro_StepCallback (rn_opts r) \<Longrightarrow> runs_ok (stage_env r w dag steps)"
  unfolding runs_ok_def stage_env_simps by (metis node_run_action node_run_shape)

lemma node_run_told:
  assumes "built r steps dag" "rn_registry r = Some (default_view s)" "ro_StepCallback (rn_opts r)"
    and "node_run r w dag steps n = Some run"
  shows "status_of n (ar_events run) = Some (step_status_of (res_Status (ar_result run)))"
    and "worker_result c n run \<noteq> skip_dep_result n ds" "worker_result c n run \<noteq> skip_cond_result n"
    and "settled (res_Status (ar_result run))"
proof -
  obtain a where a: "act_Name a = n" "executeActionForDAGWithCallback r w a (find_step steps n) = Some run"
    using node_run_action [OF assms(1,4)] by metis
  show "status_of n (ar_events run) = Some (step_status_of (res_Status (ar_result run)))"
    "settled (res_Status (ar_result run))"
    using default_sound.node_status [OF assms(2,3) a(2)] a(1) by simp_all
  have *: "res_Status res = StatusSkipped \<Longrightarrow> res_Message res = ''no matching variant''"
    if "res = worker_result c n run" for res
    using default_sound.node_skipped [OF assms(2) a(2)] that
    by (auto simp: worker_result_def Let_def split: if_splits)
  show "worker_result c n run \<noteq> skip_dep_result n ds" "worker_result c n run \<noteq> skip_cond_result n"
    using * by (auto simp: skip_dep_result_def skip_cond_result_def mk_result_def)
qed

lemma skips_differ: "skip_dep_result n ds \<noteq> skip_cond_result m"
  by (rule notI, drule arg_cong [of _ _ res_Message]) (simp add: skip_dep_result_def skip_cond_result_def mk_result_def)

text \<open>The calls for a step, by the reason for its result.\<close>

lemma final_trace:
  assumes "built r steps dag" "rn_registry r = Some (default_view s)" "ro_StepCallback (rn_opts r)"
    and "exec_reach (stage_env r w dag steps) t" "\<not> xs_cancelled t" "final_result t n = Some res"
  obtains (dep) "failed_deps (stage_env r w dag steps) t n \<noteq> []" "proj n (xs_events t) = []"
      "res = skip_dep_result n (failed_deps (stage_env r w dag steps) t n)"
    | (cond) "failed_deps (stage_env r w dag steps) t n = []" "node_should r dag n = Some False"
      "proj n (xs_events t) = cond_events (stage_env r w dag steps) n" "res = skip_cond_result n"
    | (run) run zs where "failed_deps (stage_env r w dag steps) t n = []" "node_should r dag n = Some True"
      "node_run r w dag steps n = Some run"
      "proj n (xs_events t) = ar_events run @ zs" "ar_late run = [] \<Longrightarrow> zs = []"
      "res_Status res = res_Status (ar_result run)"
proof -
  let ?E = "stage_env r w dag steps"
  have keys: "distinct (map fst (xe_dag ?E))" using built_keys [OF assms(1)] by simp
  have I: "exec_inv ?E t" using exec_reach_inv [OF assms(4) keys] .
  have res: "res \<in> set (xs_results t @ xs_chan t)" "res_Name res = n"
    using assms(6) final_result_iff [OF I] by auto
  note told = node_run_told [OF assms(1-3), of w n]
  note S = result_trace [OF assms(4) keys stage_runs_ok [OF assms(1,3)] res, unfolded stage_env_simps]
  consider (1) "failed_deps ?E t n \<noteq> []" "res = skip_dep_result n (failed_deps ?E t n)"
    | (2) "failed_deps ?E t n = []" "node_should r dag n = Some False" "res = skip_cond_result n"
    | (3) run c where "failed_deps ?E t n = []" "node_should r dag n = Some True"
      "node_run r w dag steps n = Some run" "res = worker_result c n run" "c \<longrightarrow> xs_cancelled t"
    using result_cases [OF I assms(6), unfolded stage_env_simps] by blast
  then show thesis
  proof cases
    case 1
    have "proj n (xs_events t) = []"
      by (rule S) (use 1(2) told(2) skips_differ in metis)+
    with 1 show ?thesis by (intro dep)
  next
    case 2
    have "proj n (xs_events t) = cond_events ?E n"
      by (rule S) (use 2(3) told(3) skips_differ in metis)+
    with 2 show ?thesis by (intro cond)
  next
    case 3
    have "\<exists>zs. proj n (xs_events t) = ar_events run @ zs \<and> (ar_late run = [] \<longrightarrow> zs = [])"
      by (rule S) (use 3(3,4) told(2,3) in \<open>metis option.inject\<close>)+
    moreover have "res_Status res = res_Status (ar_result run)"
      using 3(4,5) assms(5) by (simp add: worker_result_def Let_def)
    ultimately show ?thesis using run [OF 3(1-3)] by blast
  qed
qed

text \<open>At the end of a run that was not cancelled the callback knows every step but those skipped
  for a dependency, with the status of its result.\<close>

lemma final_told:
  assumes "built r steps dag" "rn_registry r = Some (default_view s)" "ro_StepCallback (rn_opts r)"
    and "exec_reach (stage_env r w dag steps) t" "\<not> xs_cancelled t" "final_result t n = Some res"
  shows "status_of n (xs_events t)
      = (if failed_deps (stage_env r w dag steps) t n \<noteq> [] then None else Some (step_status_of (res_Status res)))"
  unfolding status_of_proj [of n "xs_events t"]
  by (rule final_trace [OF assms])
    (simp_all add: status_of_append node_run_told(1) [OF assms(1-3)] cond_events_def assms(3)
      skip_cond_result_def mk_result_def)

section \<open>The error policy\<close>

definition tolerated :: "step list \<Rightarrow> string \<Rightarrow> bool" where
  "tolerated steps n = (\<forall>st \<in> set steps. step_Action st = n \<longrightarrow> step_OnError st = ''warn'')"

definition blames :: "result \<Rightarrow> go_error \<Rightarrow> bool" where
  "blames res e = (e = (case res_Error res of Some x \<Rightarrow> StepFailed (res_Name res) x
                        | None \<Rightarrow> StepFailedMsg (res_Name res) (res_Message res)))"

lemma check_steps_cases:
  "case snd (check_steps r res steps) of None \<Rightarrow> tolerated steps (res_Name res)
     | Some e \<Rightarrow> \<not> tolerated steps (res_Name res) \<and> blames res e"
proof (induction steps)
  case (Cons st steps)
  then show ?case by (auto simp: tolerated_def blames_def split: prod.split option.splits)
qed (simp add: tolerated_def)

lemma check_results_cases:
  "case snd (check_results r steps rs) of
     None \<Rightarrow> \<forall>res \<in> set rs. res_Status res = StatusError \<longrightarrow> tolerated steps (res_Name res)
   | Some e \<Rightarrow> \<exists>res \<in> set rs. res_Status res = StatusError \<and> \<not> tolerated steps (res_Name res) \<and> blames res e"
proof (induction rs)
  case (Cons res rs)
  show ?case
  proof (cases "check_steps r res steps")
    case (Pair ws e)
    then show ?thesis using Cons check_steps_cases [where r = r and res = res and steps = steps]
      by (cases e) (auto split: prod.split option.splits)
  qed
qed simp

section \<open>Properties\<close>

text \<open>C13: A stage run ends without error exactly when it was not cancelled and every step whose result
  is an error is marked \<open>onerror: warn\<close>; its error names a step that failed and is not marked so,
  or says that the run was cancelled.\<close>

theorem stage_verdict:
  assumes "executeStageWithCallback r w lo co steps (Finished s warnings err)"
  shows "case err of
      None \<Rightarrow> \<not> xs_cancelled s
        \<and> (\<forall>res \<in> set (xs_results s). res_Status res = StatusError \<longrightarrow> tolerated steps (res_Name res))
    | Some e \<Rightarrow> xs_cancelled s \<and> e = ContextCanceled
        \<or> (\<exists>res \<in> set (xs_results s). res_Status res = StatusError \<and> \<not> tolerated steps (res_Name res)
             \<and> blames res e)"
  using assms
proof (cases rule: executeStageWithCallback.cases)
  case (executed dag policy)
  then show ?thesis using check_results_cases [where r = r and steps = steps and rs = "xs_results s"]
    by (cases policy) (auto simp: stage_error_def)
qed

text \<open>A stage of three steps: the command of the first fails, the second requires it.\<close>

definition three_steps :: "step list" where
  "three_steps = [plain_step ''a'' [], plain_step ''b'' [''a''], plain_step ''c'' []]"

definition three_config :: config where
  "three_config = loop_config\<lparr>cfg_Actions :=
     [sample_action ''a'' ''make'' [], sample_action ''b'' ''x'' [], sample_action ''c'' ''x'' []],
     cfg_Stages := [(''s'', \<lparr>stage_Steps = three_steps\<rparr>)]\<rparr>"

definition three_runner :: runner where
  "three_runner = sample_runner\<lparr>rn_config := three_config\<rparr>"

lemma three_built: "\<exists>dag. buildDAG (rn_config three_runner) (map fst) (map fst) three_steps = Ok dag"
proof -
  have "is_ok (buildDAG three_config (map fst) (map fst) three_steps)" by code_simp
  then show ?thesis
    by (cases "buildDAG three_config (map fst) (map fst) three_steps") (simp_all add: three_runner_def sample_runner_def)
qed

lemma three_stage:
  obtains dag where "buildDAG (rn_config three_runner) (map fst) (map fst) three_steps = Ok dag"
    "built three_runner three_steps dag" "no_panics (stage_env three_runner sample_world dag three_steps)"
proof -
  obtain dag where d: "buildDAG (rn_config three_runner) (map fst) (map fst) three_steps = Ok dag"
    using three_built by blast
  then have b: "built three_runner three_steps dag" using range_order_fst by (auto simp: built_def)
  have "node_should three_runner dag n \<noteq> None \<and> node_run three_runner sample_world dag three_steps n \<noteq> None"
    if n: "n \<in> dag_names dag" for n
  proof -
    obtain nd where nd: "map_of dag n = Some nd" using n by (auto simp: dag_names_iff)
    have "node_Step nd \<in> set three_steps"
      using built_node(1) [OF b nd] by (rule last_step_in)
    then have "step_If (node_Step nd) = []" by (auto simp: three_steps_def plain_step_def)
    moreover have "act_Variants (node_Action nd) = []"
      using built_node(2) [OF b nd] GetAction_in [of three_config n "node_Action nd"]
      by (auto simp: three_runner_def three_config_def sample_action_def sample_runner_def)
    ultimately show ?thesis
      by (simp add: node_should_def node_run_def nd shouldExecuteStep_def shouldExecuteStepByCondition_def
          executeActionForDAGWithCallback_def SelectVariant_def Let_def)
  qed
  then show thesis using that [OF d b] by (simp add: no_panics_def)
qed

lemma three_actions:
  "map_option (\<lambda>run. (res_Status (ar_result run), ar_late run)) (executeActionForDAGWithCallback three_runner
     sample_world (sample_action ''a'' ''make'' []) (Some (plain_step ''a'' []))) = Some (StatusError, [])"
  "map_option (\<lambda>run. (res_Status (ar_result run), ar_late run)) (executeActionForDAGWithCallback three_runner
     sample_world (sample_action ''b'' ''x'' []) (Some (plain_step ''b'' [''a'']))) = Some (StatusOK, [])"
  "map_option (\<lambda>run. (res_Status (ar_result run), ar_late run)) (executeActionForDAGWithCallback three_runner
     sample_world (sample_action ''c'' ''x'' []) (Some (plain_step ''c'' []))) = Some (StatusOK, [])"
  by code_simp+


lemma three_node:
  assumes "built three_runner three_steps dag" "st \<in> set three_steps"
  shows "node_should three_runner dag (step_Action st) = Some True"
    and "node_run three_runner sample_world dag three_steps (step_Action st)
       = executeActionForDAGWithCallback three_runner sample_world
           (sample_action (step_Action st) (if step_Action st = ''a'' then ''make'' else ''x'') []) (Some st)"
proof -
  have dist: "distinct (map step_Action three_steps)" by (simp add: three_steps_def plain_step_def)
  have "step_Action st \<in> dag_names dag" using built_graph(2) [OF assms(1)] assms(2) by simp
  then obtain nd where nd: "map_of dag (step_Action st) = Some nd" by (auto simp: dag_names_iff)
  have "node_Step nd = st" using built_node(1) [OF assms(1) nd] find_unique_step(2) [OF dist assms(2)] by simp
  moreover have "step_If st = []" using assms(2) by (auto simp: three_steps_def plain_step_def)
  ultimately show "node_should three_runner dag (step_Action st) = Some True"
    by (simp add: node_should_def nd shouldExecuteStep_def shouldExecuteStepByCondition_def)
  have "node_Action nd = sample_action (step_Action st) (if step_Action st = ''a'' then ''make'' else ''x'') []"
    using built_node(2) [OF assms(1) nd] assms(2)
    by (auto simp: three_steps_def plain_step_def three_runner_def three_config_def GetAction_def sample_action_def)
  then show "node_run three_runner sample_world dag three_steps (step_Action st)
       = executeActionForDAGWithCallback three_runner sample_world
           (sample_action (step_Action st) (if step_Action st = ''a'' then ''make'' else ''x'') []) (Some st)"
    by (simp add: node_run_def nd find_unique_step(1) [OF dist assms(2)])
qed

text \<open>It can be run: the first step fails, the second is skipped, the third succeeds.\<close>

lemma three_results:
  obtains dag s where "buildDAG (rn_config three_runner) (map fst) (map fst) three_steps = Ok dag"
    "built three_runner three_steps dag" "no_late (stage_env three_runner sample_world dag three_steps)"
    "exec_reach (stage_env three_runner sample_world dag three_steps) s" "exec_finished s" "\<not> xs_cancelled s"
    "map_option res_Status (final_result s ''a'') = Some StatusError"
    "final_result s ''b'' = Some (skip_dep_result ''b'' [''a''])"
    "map_option res_Status (final_result s ''c'') = Some StatusOK"
proof -
  obtain dag where d: "buildDAG (rn_config three_runner) (map fst) (map fst) three_steps = Ok dag"
    "built three_runner three_steps dag" "no_panics (stage_env three_runner sample_world dag three_steps)"
    by (rule three_stage)
  let ?E = "stage_env three_runner sample_world dag three_steps"
  obtain s where s: "exec_reach ?E s" "exec_finished s" "\<not> xs_cancelled s"
    using exec_can_finish [of ?E] built_graph(1) [OF d(2)] d(3) by auto
  have I: "exec_inv ?E s" using exec_reach_inv [OF s(1)] built_keys [OF d(2)] by simp
  let ?a = "plain_step ''a'' []" and ?b = "plain_step ''b'' [''a'']" and ?c = "plain_step ''c'' []"
  have mem: "?a \<in> set three_steps" "?b \<in> set three_steps" "?c \<in> set three_steps"
    by (simp_all add: three_steps_def)
  have dist: "distinct (map step_Action three_steps)" by (simp add: three_steps_def plain_step_def)
  note node = three_node [OF d(2)] mem [THEN three_node(2) [OF d(2)]] mem [THEN three_node(1) [OF d(2)]]
  note deps = mem [THEN built_deps [OF d(2) dist], simplified plain_step_def step.simps]
  have names: "dag_names dag = {''a'', ''b'', ''c''}"
    using built_graph(2) [OF d(2)] by (auto simp: three_steps_def plain_step_def)
  have st: "map_option (\<lambda>run. (res_Status (ar_result run), ar_late run))
      (node_run three_runner sample_world dag three_steps n)
      = (if n = ''a'' then Some (StatusError, []) else Some (StatusOK, []))" if "n \<in> {''a'', ''b'', ''c''}" for n
    using that node(3-5) three_actions by (auto simp: plain_step_def)
  have late: "no_late ?E"
    unfolding no_late_def stage_env_simps
  proof (intro allI impI)
    fix n run assume r: "node_run three_runner sample_world dag three_steps n = Some run"
    then have "n \<in> {''a'', ''b'', ''c''}"
      unfolding names [symmetric] by (auto simp: node_run_def dag_names_iff split: option.splits)
    then show "ar_late run = []" using st [of n] r by (auto split: if_splits)
  qed
  have run: "map_option res_Status (final_result s n) = Some (if n = ''a'' then StatusError else StatusOK)"
    if fd: "failed_deps ?E s n = []" and nn: "n \<in> {''a'', ''b'', ''c''}" for n
  proof -
    obtain res where r: "final_result s n = Some res"
      using final_result_total [OF I s(2,3), of n] nn names by auto
    have "node_should three_runner dag n = Some True" using nn node(6-8) by (auto simp: plain_step_def)
    then obtain run where "node_run three_runner sample_world dag three_steps n = Some run"
      "res = worker_result False n run"
      using result_cases [OF I r] fd s(3) by auto
    then show ?thesis using st [OF nn] r by (auto simp: worker_result_def split: if_splits)
  qed
  have "failed_deps ?E s ''a'' = []" "failed_deps ?E s ''c'' = []" using deps by (simp_all add: failed_deps_def)
  note ac = run [OF this(1)] run [OF this(2)]
  have "failed_deps ?E s ''b'' = [''a'']" using deps ac by (auto simp: failed_deps_def)
  then have "final_result s ''b'' = Some (skip_dep_result ''b'' [''a''])"
    using final_result_total [OF I s(2,3), of "''b''"] result_cases [OF I, of "''b''"] names by auto
  then show thesis using that [OF d(1,2) late s] ac by simp
qed

lemma three_fails:
  obtains s ws err where "executeStageWithCallback three_runner sample_world (map fst) (map fst) three_steps
      (Finished s ws (Some err))" "\<not> xs_cancelled s"
    "map_option res_Status (final_result s ''a'') = Some StatusError"
proof -
  obtain dag s where d: "buildDAG (rn_config three_runner) (map fst) (map fst) three_steps = Ok dag"
    "built three_runner three_steps dag" "exec_reach (stage_env three_runner sample_world dag three_steps) s"
    "exec_finished s" "\<not> xs_cancelled s" "map_option res_Status (final_result s ''a'') = Some StatusError"
    by (rule three_results)
  have I: "exec_inv (stage_env three_runner sample_world dag three_steps) s"
    using exec_reach_inv [OF d(3)] built_keys [OF d(2)] by simp
  obtain ws p where c: "check_results three_runner three_steps (xs_results s) = (ws, p)" by fastforce
  have "\<not> tolerated three_steps ''a''" by (simp add: tolerated_def three_steps_def plain_step_def)
  then have "p \<noteq> None"
    using check_results_cases [where r = three_runner and steps = three_steps and rs = "xs_results s"] c d(6)
      final_result_iff [OF I, of "''a''"] by (auto split: option.splits)
  then obtain e where "stage_error p (xs_cancelled s) = Some e" by (auto simp: stage_error_def)
  with executed [OF d(1,3,4) c] show thesis using that d(5,6) by simp
qed

theorem stage_verdict_witness:
  "\<exists>s ws e. executeStageWithCallback three_runner sample_world (map fst) (map fst) three_steps (Finished s ws (Some e))
     \<and> (\<exists>res \<in> set (xs_results s). res_Status res = StatusError \<and> blames res e)"
proof -
  obtain s ws e where f: "executeStageWithCallback three_runner sample_world (map fst) (map fst) three_steps
      (Finished s ws (Some e))" "\<not> xs_cancelled s" by (rule three_fails)
  from stage_verdict [OF f(1)] f show ?thesis by auto
qed

text \<open>Whether a stage succeeds does not depend on the schedule: two runs that were not cancelled
  both succeed or both fail.\<close>

theorem stage_success_schedule_independent:
  assumes "range_order lo" "range_order co"
    and "executeStageWithCallback r w lo co steps (Finished s ws err)" "\<not> xs_cancelled s"
    and "executeStageWithCallback r w lo co steps (Finished t ws' err')" "\<not> xs_cancelled t"
  shows "err = None \<longleftrightarrow> err' = None"
proof -
  have *: "err1 = None \<longleftrightarrow> (\<forall>n res. final_result s1 n = Some res \<longrightarrow> res_Status res = StatusError \<longrightarrow> tolerated steps n)
      \<and> (\<exists>dag. buildDAG (rn_config r) lo co steps = Ok dag \<and> exec_reach (stage_env r w dag steps) s1 \<and> exec_finished s1)"
    if "executeStageWithCallback r w lo co steps (Finished s1 ws1 err1)" "\<not> xs_cancelled s1" for s1 ws1 err1
    using that(1)
  proof (cases rule: executeStageWithCallback.cases)
    case (executed dag policy)
    have "built r steps dag" using assms(1,2) executed(2) by (auto simp: built_def)
    then have I: "exec_inv (stage_env r w dag steps) s1"
      using exec_reach_inv [OF executed(3)] built_keys by simp
    show ?thesis
      using executed that(2) check_results_cases [where r = r and steps = steps and rs = "xs_results s1"]
        final_result_iff [OF I]
      by (cases policy) (auto simp: stage_error_def)
  qed
  obtain dag where d: "buildDAG (rn_config r) lo co steps = Ok dag" "exec_reach (stage_env r w dag steps) s"
    "exec_finished s" "exec_reach (stage_env r w dag steps) t" "exec_finished t"
    using assms(3,5) by (auto elim!: executeStageWithCallback.cases)
  have "built r steps dag" using assms(1,2) d(1) by (auto simp: built_def)
  then have "final_result s n = final_result t n" for n
    using final_results_agree [of "stage_env r w dag steps" s "stage_env r w dag steps" t] built_graph(1) d assms(4,6) by simp
  then show ?thesis using * [OF assms(3,4)] * [OF assms(5,6)] d by simp
qed


theorem stage_success_schedule_independent_witness:
  "\<not> (\<exists>t ws. executeStageWithCallback three_runner sample_world (map fst) (map fst) three_steps (Finished t ws None)
      \<and> \<not> xs_cancelled t)"
proof -
  obtain s ws e where "executeStageWithCallback three_runner sample_world (map fst) (map fst) three_steps
      (Finished s ws (Some e))" "\<not> xs_cancelled s" by (rule three_fails)
  from stage_success_schedule_independent [OF range_order_fst range_order_fst this] show ?thesis by auto
qed

text \<open>Running a stage returns: an accepted stage none of whose conditions panics has a run to the
  end, and a stage that is not accepted is refused with the reason.\<close>

theorem stage_returns:
  assumes "range_order lo" "range_order co"
    and "\<And>dag. buildDAG (rn_config r) lo co steps = Ok dag \<Longrightarrow> no_panics (stage_env r w dag steps)"
  shows "(\<exists>s ws err. executeStageWithCallback r w lo co steps (Finished s ws err) \<and> \<not> xs_cancelled s)
     \<or> (\<exists>e. executeStageWithCallback r w lo co steps (Refused (BuildDAGFailed e)))"
proof (cases "buildDAG (rn_config r) lo co steps")
  case (Ok dag)
  then have "built r steps dag" using assms(1,2) by (auto simp: built_def)
  then obtain s where s: "exec_reach (stage_env r w dag steps) s" "exec_finished s" "\<not> xs_cancelled s"
    using exec_can_finish [of "stage_env r w dag steps"] built_graph(1) assms(3) [OF Ok] by auto
  obtain ws p where "check_results r steps (xs_results s) = (ws, p)" by fastforce
  from executed [OF Ok s(1,2) this] s(3) show ?thesis by blast
next
  case (Err e)
  then show ?thesis by (blast intro: no_graph)
next
  case Panic
  then show ?thesis using buildDAG_cases [OF assms(1,2), of "rn_config r" steps] by simp
qed

theorem stage_returns_witness:
  "\<exists>s ws err. executeStageWithCallback three_runner sample_world (map fst) (map fst) three_steps (Finished s ws err)"
proof -
  obtain dag where d: "buildDAG (rn_config three_runner) (map fst) (map fst) three_steps = Ok dag"
    "no_panics (stage_env three_runner sample_world dag three_steps)" by (rule three_stage)
  then have "no_panics (stage_env three_runner sample_world dag' three_steps)"
    if "buildDAG (rn_config three_runner) (map fst) (map fst) three_steps = Ok dag'" for dag' using that by simp
  from stage_returns [OF range_order_fst range_order_fst this] d(1)
  show ?thesis by (auto elim: executeStageWithCallback.cases)
qed

end
