(* ===== verification/Simple_Run.thy ===== *)
theory Simple_Run
  imports Stage_Correct
begin

text \<open>
  \<open>pkg/buildfab/simple.go\<close>: the runner the command line uses. \<open>SimpleRunner\<close> wraps the runner
  of \<open>Stage_Run\<close> and \<open>Action_Run\<close> with one of two callbacks: a stage is shown by the ordered
  callback of \<open>Ordered_Output\<close>, a single action or step by \<open>SimpleStepCallback\<close>. Written
  texts are lists of strings, one per \<open>Fprintf\<close>.
\<close>

section \<open>Options and runner\<close>

record simple_options =
  so_ConfigPath :: string
  so_MaxParallel :: int
  so_Verbose :: bool
  so_Debug :: bool
  so_DryRun :: bool
  so_Variables :: "(string \<Rightarrow> string option) option"
  so_WorkingDir :: string
  so_Only :: "string list"
  so_WithRequires :: bool

text \<open>\<open>sn_sys\<close> is what the built-in actions find when they run.\<close>

record simple_runner =
  sn_config :: config
  sn_opts :: simple_options
  sn_registry :: registry_view
  sn_env :: go_env
  sn_goos :: string
  sn_lookpath :: "string \<Rightarrow> bool"
  sn_sys :: sys

definition DefaultSimpleRunOptions :: "go_env \<Rightarrow> int \<Rightarrow> simple_options" where
  "DefaultSimpleRunOptions env ncpu =
     \<lparr>so_ConfigPath = ''.project.yml'', so_MaxParallel = ncpu, so_Verbose = False, so_Debug = False,
      so_DryRun = False, so_Variables = Some (AddPlatformVariables env (Some Map.empty)),
      so_WorkingDir = ''.'', so_Only = [], so_WithRequires = False\<rparr>"

definition NewSimpleRunner ::
  "go_env \<Rightarrow> string \<Rightarrow> (string \<Rightarrow> bool) \<Rightarrow> int \<Rightarrow> config \<Rightarrow> simple_options option \<Rightarrow> sys \<Rightarrow> simple_runner" where
  "NewSimpleRunner env goos lookpath ncpu config opts s =
     \<lparr>sn_config = config,
      sn_opts = (case opts of None \<Rightarrow> DefaultSimpleRunOptions env ncpu | Some o1 \<Rightarrow> o1),
      sn_registry = default_view s, sn_env = env, sn_goos = goos, sn_lookpath = lookpath, sn_sys = s\<rparr>"

text \<open>The options of the inner runner, the same ones with a callback.\<close>

definition complex_options :: "simple_options \<Rightarrow> run_options" where
  "complex_options o1 =
     \<lparr>ro_ConfigPath = so_ConfigPath o1, ro_MaxParallel = so_MaxParallel o1, ro_Verbose = so_Verbose o1,
      ro_Debug = so_Debug o1, ro_DryRun = so_DryRun o1, ro_Variables = so_Variables o1,
      ro_WorkingDir = so_WorkingDir o1, ro_Only = so_Only o1, ro_WithRequires = so_WithRequires o1,
      ro_StepCallback = True\<rparr>"

definition inner_runner :: "simple_runner \<Rightarrow> runner" where
  "inner_runner sr =
     NewRunner (sn_env sr) (sn_goos sr) (sn_lookpath sr) (so_MaxParallel (sn_opts sr)) (sn_config sr)
       (Some (complex_options (sn_opts sr))) (sn_sys sr)"

section \<open>The callback of a single action\<close>

record simple_cb =
  sc_verbose :: bool
  sc_results :: "step_result list"
  sc_displayed :: "string set"
  sc_config :: "config option"
  sc_log :: "string list"

definition new_simple_cb :: "simple_runner \<Rightarrow> simple_cb" where
  "new_simple_cb sr =
     \<lparr>sc_verbose = so_Verbose (sn_opts sr), sc_results = [], sc_displayed = {},
      sc_config = Some (sn_config sr), sc_log = []\<rparr>"

definition Simple_extractFailedDependency :: "simple_cb \<Rightarrow> string \<Rightarrow> string" where
  "Simple_extractFailedDependency c n =
     (case find (\<lambda>r. sr_Status r = StepStatusError) (sc_results c) of
        None \<Rightarrow> [] | Some r \<Rightarrow> sr_StepName r)"

text \<open>The result of a step replaces an earlier one of the same step.\<close>

fun put_result :: "step_result \<Rightarrow> step_result list \<Rightarrow> step_result list" where
  "put_result r [] = [r]"
| "put_result r (q # qs) = (if sr_StepName q = sr_StepName r then r # qs else q # put_result r qs)"

definition Simple_OnStepStart :: "string \<Rightarrow> simple_cb \<Rightarrow> simple_cb" where
  "Simple_OnStepStart n c = c\<lparr>sc_log := sc_log c @ [start_line (sc_verbose c) n]\<rparr>"

definition Simple_OnStepComplete ::
  "string \<Rightarrow> step_status \<Rightarrow> string \<Rightarrow> nat \<Rightarrow> simple_cb \<Rightarrow> simple_cb" where
  "Simple_OnStepComplete n status message duration c =
     (let text = Simple_enhanceMessage (sc_config c) (Simple_extractFailedDependency c n) n status message
                 @ formatExecutionTime status duration;
          c1 = (if n \<in> sc_displayed c then c
                else c\<lparr>sc_log := sc_log c @ [result_line (sc_verbose c) n status text],
                       sc_displayed := insert n (sc_displayed c)\<rparr>)
      in c1\<lparr>sc_results := put_result (mk_step_result n status duration) (sc_results c1)\<rparr>)"

definition Simple_OnStepOutput :: "string \<Rightarrow> string \<Rightarrow> simple_cb \<Rightarrow> simple_cb" where
  "Simple_OnStepOutput n output c =
     (if sc_verbose c \<and> output \<noteq> []
      then c\<lparr>sc_log := sc_log c @ map output_line (split_str [newline] (trim_right_newlines output))\<rparr>
      else c)"

fun Simple_event :: "cb_event \<Rightarrow> simple_cb \<Rightarrow> simple_cb" where
  "Simple_event (OnStepStart n) c = Simple_OnStepStart n c"
| "Simple_event (OnStepComplete n status message duration) c = Simple_OnStepComplete n status message duration c"
| "Simple_event (OnStepOutput n output) c = Simple_OnStepOutput n output c"
| "Simple_event (OnStepError n e) c = c"

definition Simple_GetResults :: "simple_cb \<Rightarrow> step_result list" where
  "Simple_GetResults c = sc_results c"

section \<open>Steps that were not run\<close>

definition getSkippedSteps :: "config \<Rightarrow> string \<Rightarrow> step_result list \<Rightarrow> string list" where
  "getSkippedSteps c stageName results =
     (case GetStage c stageName of
        None \<Rightarrow> []
      | Some stg \<Rightarrow>
          let executed = sr_StepName ` set results;
              failed = sr_StepName ` set (filter (\<lambda>r. sr_Status r = StepStatusError) results)
          in map step_Action (filter (\<lambda>st. step_Action st \<notin> executed \<and> (\<exists>d \<in> set (step_Require st). d \<in> failed))
               (stage_Steps stg)))"

section \<open>Summaries\<close>

definition icon_party :: string where "icon_party = [CHR 0xF0, CHR 0x9F, CHR 0x8E, CHR 0x89]"
definition icon_boom :: string where "icon_boom = [CHR 0xF0, CHR 0x9F, CHR 0x92, CHR 0xA5]"
definition icon_stop :: string where "icon_stop = [CHR 0xE2, CHR 0x8F, CHR 0xB9, CHR 0xEF, CHR 0xB8, CHR 0x8F]"
definition icon_warn :: string where "icon_warn = [CHR 0xE2, CHR 0x9A, CHR 0xA0, CHR 0xEF, CHR 0xB8, CHR 0x8F]"

definition duration_text :: "nat \<Rightarrow> string" where
  "duration_text d =
     (if f64_less (duration_seconds d) (f64_of_int 1)
      then '' in '' @ format_3f (duration_seconds d) @ ''s''
      else let totalSeconds = f64_trunc (duration_seconds d);
               minutes = totalSeconds div 60; seconds = totalSeconds mod 60
           in if 0 < minutes then '' in '' @ show_int minutes @ ''m '' @ show_int seconds @ ''s''
              else '' in '' @ show_int seconds @ ''s'')"

definition statusOrder :: "step_status list" where
  "statusOrder = [StepStatusError, StepStatusWarn, StepStatusOK, StepStatusSkipped]"

definition statusCounts :: "step_result list \<Rightarrow> step_status \<Rightarrow> nat" where
  "statusCounts results status = length (filter (\<lambda>r. sr_Status r = status) results)"

definition summary_line :: "step_result list \<Rightarrow> step_status \<Rightarrow> string" where
  "summary_line results status =
     (let n = statusCounts results status
      in count_line (if 0 < n then status_color status else colorGray) (status_icon status)
           (StepStatus_String status) n)"

definition summary_table :: "step_result list \<Rightarrow> string list" where
  "summary_table results =
     (if 0 < length results
      then [newline] # (icon_chart @ '' Summary:'' @ [newline]) # map (summary_line results) statusOrder
      else [])"

definition printTerminatedSummary :: "string \<Rightarrow> step_result list \<Rightarrow> nat \<Rightarrow> string list" where
  "printTerminatedSummary stageName results d =
     [[newline], rule_line,
      icon_stop @ '' '' @ colorYellow @ ''TERMINATED'' @ colorReset @ '' - '' @ stageName @ duration_text d @ [newline]]
     @ summary_table results"

definition printSummary :: "string \<Rightarrow> bool \<Rightarrow> step_result list \<Rightarrow> nat \<Rightarrow> string list" where
  "printSummary stageName success results d =
     (let (icon, color, status) = (if success then (icon_party, colorGreen, ''SUCCESS'')
                                   else (icon_boom, colorRed, ''FAILED''))
      in [[newline], rule_line,
          icon @ '' '' @ color @ status @ colorReset @ '' - '' @ stageName @ duration_text d @ [newline]]
         @ summary_table results)"

section \<open>Actions and steps\<close>

text \<open>\<open>terminated\<close> is whether the context had been cancelled when the summary was printed.\<close>

record simple_done =
  dn_output :: "string list"
  dn_cb :: simple_cb
  dn_error :: "go_error option"

definition Simple_run :: "cb_event list \<Rightarrow> simple_cb \<Rightarrow> simple_cb" where
  "Simple_run evs c = fold Simple_event evs c"

definition action_footer :: "bool \<Rightarrow> string \<Rightarrow> step_result list \<Rightarrow> string list" where
  "action_footer terminated name results =
     (let line = (\<lambda>icon color t. icon @ '' '' @ color @ t @ colorReset @ '' - '' @ name @ [newline]);
          hasError = list_ex (\<lambda>r. sr_Status r = StepStatusError) results;
          hasWarning = list_ex (\<lambda>r. sr_Status r = StepStatusWarn) results
      in if 0 < length results
         then [[newline], rule_line,
               (if terminated then line icon_stop colorYellow ''TERMINATED''
                else if hasError then line icon_boom colorRed ''FAILED''
                else if hasWarning then line icon_warn colorYellow ''WARNING''
                else line icon_party colorGreen ''SUCCESS'')]
         else [])"

definition Simple_RunAction :: "simple_runner \<Rightarrow> world \<Rightarrow> bool \<Rightarrow> string \<Rightarrow> simple_done option" where
  "Simple_RunAction sr w terminated name =
     (case RunAction (inner_runner sr) w name of
        None \<Rightarrow> None
      | Some run \<Rightarrow>
          let cb = Simple_run (op_events run) (new_simple_cb sr)
          in Some \<lparr>dn_output = (icon_play @ ''  Running action: '' @ name @ [newline, newline]) # op_output run
                       @ action_footer terminated name (Simple_GetResults cb),
                   dn_cb = cb, dn_error = op_error run\<rparr>)"

definition Simple_RunStageStep :: "simple_runner \<Rightarrow> world \<Rightarrow> string \<Rightarrow> string \<Rightarrow> simple_done option" where
  "Simple_RunStageStep sr w stageName stepName =
     (case GetStage (sn_config sr) stageName of
        None \<Rightarrow> Some \<lparr>dn_output = [], dn_cb = new_simple_cb sr, dn_error = Some (StageNotFound stageName)\<rparr>
      | Some stg \<Rightarrow>
          if find_step (stage_Steps stg) stepName = None
          then Some \<lparr>dn_output = [], dn_cb = new_simple_cb sr, dn_error = Some (StepNotFound stepName stageName)\<rparr>
          else (case RunStageStep (inner_runner sr) w stageName stepName of
                  None \<Rightarrow> None
                | Some run \<Rightarrow>
                    Some \<lparr>dn_output = (icon_play @ ''  Running step: '' @ stepName @ '' (from stage: '' @ stageName
                              @ '')'' @ [newline, newline]) # op_output run,
                          dn_cb = Simple_run (op_events run) (new_simple_cb sr), dn_error = op_error run\<rparr>))"

section \<open>The dry run\<close>

definition simple_verbose_line :: "simple_runner \<Rightarrow> string \<Rightarrow> string list" where
  "simple_verbose_line sr t = (if so_Verbose (sn_opts sr) then [t @ [newline]] else [])"

definition simple_vars :: "simple_runner \<Rightarrow> string \<Rightarrow> string option" where
  "simple_vars sr = (case so_Variables (sn_opts sr) of None \<Rightarrow> Map.empty | Some m \<Rightarrow> m)"

definition Simple_shouldExecuteStepByCondition :: "simple_runner \<Rightarrow> step \<Rightarrow> (go_error, bool) res" where
  "Simple_shouldExecuteStepByCondition sr st =
     (if step_If st = [] then Ok True
      else (case evaluateCondition (sn_env sr) (step_If st) (simple_vars sr) of
              Ok b \<Rightarrow> Ok b
            | Err e \<Rightarrow> Err (IfConditionFailed (step_Action st) e)
            | Panic \<Rightarrow> Panic))"

definition Simple_runBuiltInActionDryRun :: "simple_runner \<Rightarrow> action \<Rightarrow> string list \<times> go_error option" where
  "Simple_runBuiltInActionDryRun sr a =
     (case sn_registry sr (act_Uses a) of
        None \<Rightarrow> ([], Some (UnknownBuiltIn (act_Uses a)))
      | Some (description, _) \<Rightarrow>
          (simple_verbose_line sr (''  '' @ icon_check @ '' '' @ act_Name a @ '' would execute built-in action: '' @ description),
           None))"

definition Simple_runCustomActionDryRun :: "simple_runner \<Rightarrow> action \<Rightarrow> string list \<times> go_error option" where
  "Simple_runCustomActionDryRun sr a =
     (if act_Run a = [] then ([], Some (NoRunCommand (act_Name a)))
      else let ia = InterpolateAction a (so_Variables (sn_opts sr))
           in case getShellCommand (inner_runner sr) (act_Shell a) of
                Inl e \<Rightarrow> ([], Some (ShellConfigFor (act_Name a) e))
              | Inr (shell, args) \<Rightarrow>
                  (simple_verbose_line sr (''  '' @ icon_laptop @ '' '' @ act_Name a)
                   @ simple_verbose_line sr (''   '' @ icon_check @ '' '' @ act_Name a @ '', would execute command:'')
                   @ concat (map (\<lambda>line. simple_verbose_line sr (''      '' @ line))
                       (split_str [newline] (command_text shell args (act_Run ia)))), None))"

definition Simple_runActionInternalDryRun :: "simple_runner \<Rightarrow> action \<Rightarrow> (string list \<times> go_error option) option" where
  "Simple_runActionInternalDryRun sr a =
     (case SelectVariant (sn_env sr) a (simple_vars sr) of
        Panic \<Rightarrow> None
      | Err e \<Rightarrow> Some ([], Some e)
      | Ok variant \<Rightarrow>
          if variant = None \<and> 0 < length (act_Variants a) then Some ([], None)
          else let ea = effective_action a variant
               in Some (if act_Uses ea \<noteq> [] then Simple_runBuiltInActionDryRun sr ea
                        else Simple_runCustomActionDryRun sr ea))"

definition simple_dry_action :: "simple_runner \<Rightarrow> step \<Rightarrow> string list option" where
  "simple_dry_action sr st =
     (case GetAction (sn_config sr) (step_Action st) of
        None \<Rightarrow>
          Some (case sn_registry sr (step_Action st) of
             Some (description, _) \<Rightarrow>
               simple_verbose_line sr (''  '' @ icon_check @ '' '' @ step_Action st @ '' would execute built-in action: '' @ description)
           | None \<Rightarrow> simple_verbose_line sr (''  '' @ icon_cross @ '' '' @ step_Action st @ '' would fail (action not found)''))
      | Some a \<Rightarrow>
          (case Simple_runActionInternalDryRun sr a of
             None \<Rightarrow> None
           | Some (out, None) \<Rightarrow> Some out
           | Some (out, Some e) \<Rightarrow>
               Some (out @ simple_verbose_line sr (''  '' @ icon_cross @ '' '' @ step_Action st @ '' would fail ('' @ error_text e @ '')''))))"

fun simple_dry_steps ::
  "simple_runner \<Rightarrow> step list \<Rightarrow> dry_counts \<Rightarrow> (string list \<times> (go_error + dry_counts)) option" where
  "simple_dry_steps sr [] k = Some ([], Inr k)"
| "simple_dry_steps sr (st # sts) k =
     (case Simple_shouldExecuteStepByCondition sr st of
        Panic \<Rightarrow> None
      | Err e \<Rightarrow> Some ([], Inl (StepConditionFailed e))
      | Ok False \<Rightarrow>
          map_option (\<lambda>(out, res). (simple_verbose_line sr (icon_arrow @ '' '' @ step_Action st
              @ '': would skip (condition not met)'') @ out, res))
            (simple_dry_steps sr sts (k\<lparr>dc_skipped := Suc (dc_skipped k)\<rparr>))
      | Ok True \<Rightarrow>
          if \<not> only_matches (complex_options (sn_opts sr)) st
          then map_option (\<lambda>(out, res). (simple_verbose_line sr (icon_arrow @ '' '' @ step_Action st
              @ '': would skip (not in only filter)'') @ out, res))
            (simple_dry_steps sr sts (k\<lparr>dc_skipped := Suc (dc_skipped k)\<rparr>))
          else (case simple_dry_action sr st of
                  None \<Rightarrow> None
                | Some out1 \<Rightarrow>
                    map_option (\<lambda>(out, res). (out1 @ out, res))
                      (simple_dry_steps sr sts (k\<lparr>dc_executed := Suc (dc_executed k)\<rparr>))))"

definition Simple_executeStageDryRun ::
  "simple_runner \<Rightarrow> string \<Rightarrow> step list \<Rightarrow> (string list \<times> go_error option) option" where
  "Simple_executeStageDryRun sr stageName steps =
     map_option
       (\<lambda>(out, res). (dry_header stageName # out @ (case res of Inl e \<Rightarrow> [] | Inr k \<Rightarrow> dry_summary stageName k (length steps)),
                      case res of Inl e \<Rightarrow> Some e | Inr k \<Rightarrow> None))
       (simple_dry_steps sr steps \<lparr>dc_executed = 0, dc_skipped = 0\<rparr>)"

section \<open>Stages\<close>

text \<open>A sequence of calls to a callback; \<open>None\<close> is a nil pointer.\<close>

fun run_events :: "(cb_event \<Rightarrow> 'c \<Rightarrow> 'c option) \<Rightarrow> cb_event list \<Rightarrow> 'c \<Rightarrow> 'c option" where
  "run_events f [] c = Some c"
| "run_events f (e # es) c = (case f e c of None \<Rightarrow> None | Some c' \<Rightarrow> run_events f es c')"

abbreviation Ordered_run :: "cb_event list \<Rightarrow> ordered_cb \<Rightarrow> ordered_cb option" where
  "Ordered_run \<equiv> run_events Ordered_event"

fun outcome_events :: "stage_outcome \<Rightarrow> cb_event list" where
  "outcome_events (Finished s warnings err) = xs_events s"
| "outcome_events out = []"

fun outcome_cancelled :: "stage_outcome \<Rightarrow> bool" where
  "outcome_cancelled (Finished s warnings err) = xs_cancelled s"
| "outcome_cancelled out = False"

definition skip_events :: "string list \<Rightarrow> cb_event list" where
  "skip_events ns =
     concat (map (\<lambda>n. [OnStepStart n, OnStepComplete n StepStatusSkipped ''skipped (dependency failed)'' 0]) ns)"

definition stage_callback :: "simple_runner \<Rightarrow> step list \<Rightarrow> ordered_cb" where
  "stage_callback sr steps =
     NewOrderedStepCallback steps (so_Verbose (sn_opts sr)) (so_Debug (sn_opts sr)) (Some (sn_config sr))"

text \<open>
  How \<open>SimpleRunner.RunStage\<close> can end: what it wrote to \<open>Output\<close>, the callback, whose log is
  what was written to \<open>ErrorOutput\<close>, and the error. The steps that no callback has heard of and
  that require a failed step are reported as skipped after the run. \<open>d\<close> is the duration; the
  context may be cancelled between the end of the run and the summary.
\<close>

record simple_outcome =
  sm_output :: "string list"
  sm_cb :: "ordered_cb option"
  sm_error :: "go_error option"

inductive Simple_RunStage ::
  "simple_runner \<Rightarrow> world \<Rightarrow> (dag \<Rightarrow> string list) \<Rightarrow> (dag \<Rightarrow> string list) \<Rightarrow> string \<Rightarrow> simple_outcome \<Rightarrow> bool"
  for sr w lo co where
  simple_unknown:
    "GetStage (sn_config sr) stageName = None \<Longrightarrow>
     Simple_RunStage sr w lo co stageName
       \<lparr>sm_output = [], sm_cb = None, sm_error = Some (StageNotFound stageName)\<rparr>"
| simple_dry:
    "GetStage (sn_config sr) stageName = Some stg \<Longrightarrow> so_DryRun (sn_opts sr) \<Longrightarrow>
     Simple_executeStageDryRun sr stageName (stage_Steps stg) = Some (out, err) \<Longrightarrow>
     Simple_RunStage sr w lo co stageName \<lparr>sm_output = out, sm_cb = None, sm_error = err\<rparr>"
| simple_run:
    "GetStage (sn_config sr) stageName = Some stg \<Longrightarrow> \<not> so_DryRun (sn_opts sr) \<Longrightarrow>
     RunStage (inner_runner sr) w lo co stageName out \<Longrightarrow>
     Ordered_run (outcome_events out) (stage_callback sr (stage_Steps stg)) = Some cb \<Longrightarrow>
     skipped = getSkippedSteps (sn_config sr) stageName (Ordered_GetResults cb) \<Longrightarrow>
     Ordered_run (skip_events skipped) cb = Some cb' \<Longrightarrow>
     (outcome_cancelled out \<Longrightarrow> terminated) \<Longrightarrow>
     Simple_RunStage sr w lo co stageName
       \<lparr>sm_output = (icon_play @ ''  Running stage: '' @ stageName @ [newline, newline])
          # (if terminated then printTerminatedSummary stageName (Ordered_GetResults cb') d
             else printSummary stageName (outcome_error out = None \<and> \<not> terminated) (Ordered_GetResults cb') d),
        sm_cb = Some cb', sm_error = outcome_error out\<rparr>"

end
