(* ===== verification/Validation.thy ===== *)
theory Validation
  imports Step_Correct
begin

text \<open>
  \<open>Config.Validate\<close> of \<open>pkg/buildfab/buildfab.go\<close>, with a declarative description of the
  configurations it accepts, and what validation guarantees to the graph builder and the action
  runner. The result is \<open>None\<close> for a nil error.
\<close>

section \<open>Actions\<close>

text \<open>One variant; \<open>i\<close> counts from 0.\<close>

fun validateVariants :: "string \<Rightarrow> nat \<Rightarrow> action_variant list \<Rightarrow> go_error option" where
  "validateVariants name i [] = None"
| "validateVariants name i (v # vs) =
     (if var_When v = [] then Some (VariantNoWhen name i)
      else if var_Run v = [] \<and> var_Uses v = [] then Some (VariantNoRunUses name i)
      else if var_Run v \<noteq> [] \<and> var_Uses v \<noteq> [] then Some (VariantBoth name i)
      else validateVariants name (i + 1) vs)"

definition validateAction :: "action \<Rightarrow> go_error option" where
  "validateAction a =
     (if act_Name a = [] then Some ActionNameRequired
      else if 0 < length (act_Variants a) then validateVariants (act_Name a) 0 (act_Variants a)
      else if act_Run a = [] \<and> act_Uses a = [] then Some (ActionNoRunUses (act_Name a))
      else if act_Run a \<noteq> [] \<and> act_Uses a \<noteq> [] then Some (ActionBoth (act_Name a))
      else None)"

text \<open>The loop over the actions collects their names.\<close>

fun validateActions :: "action list \<Rightarrow> string set \<Rightarrow> go_error + string set" where
  "validateActions [] actionNames = Inr actionNames"
| "validateActions (a # as) actionNames =
     (case validateAction a of
        Some e \<Rightarrow> Inl e
      | None \<Rightarrow>
          if act_Name a \<in> actionNames then Inl (DuplicateAction (act_Name a))
          else validateActions as (insert (act_Name a) actionNames))"

section \<open>Stages\<close>

definition only_values :: "string list" where
  "only_values = [''release'', ''prerelease'', ''patch'', ''minor'', ''major'']"

text \<open>The steps of a stage; \<open>i\<close> counts from 1 in the messages.\<close>

definition validateStep :: "string \<Rightarrow> string set \<Rightarrow> nat \<Rightarrow> step \<Rightarrow> go_error option" where
  "validateStep stageName actionNames i st =
     (if step_Action st = [] then Some (StepNoAction (i + 1) stageName)
      else if step_Action st \<notin> actionNames then Some (StepUnknownAction (i + 1) stageName (step_Action st))
      else if step_OnError st \<noteq> [] \<and> step_OnError st \<noteq> ''stop'' \<and> step_OnError st \<noteq> ''warn''
        then Some (StepBadOnError (i + 1) stageName (step_OnError st))
      else map_option (StepBadOnly (i + 1) stageName)
             (find (\<lambda>v. v \<notin> set only_values) (step_Only st)))"

fun validateSteps :: "string \<Rightarrow> string set \<Rightarrow> nat \<Rightarrow> step list \<Rightarrow> go_error option" where
  "validateSteps stageName actionNames i [] = None"
| "validateSteps stageName actionNames i (st # sts) =
     (case validateStep stageName actionNames i st of
        Some e \<Rightarrow> Some e
      | None \<Rightarrow> validateSteps stageName actionNames (i + 1) sts)"

fun validateStages :: "string set \<Rightarrow> (string \<times> stage) list \<Rightarrow> go_error option" where
  "validateStages actionNames [] = None"
| "validateStages actionNames ((stageName, stg) # rest) =
     (if length (stage_Steps stg) = 0 then Some (StageNoSteps stageName)
      else case validateSteps stageName actionNames 0 (stage_Steps stg) of
             Some e \<Rightarrow> Some e
           | None \<Rightarrow> validateStages actionNames rest)"

text \<open>\<open>Config.Validate\<close>; \<open>ord\<close> is the order in which it ranges over the stages.\<close>

definition Validate :: "config \<Rightarrow> (string \<times> stage) list \<Rightarrow> go_error option" where
  "Validate c ord =
     (if proj_Name c = [] then Some ProjectNameRequired
      else if length (cfg_Actions c) = 0 then Some NoActions
      else case validateActions (cfg_Actions c) {} of
             Inl e \<Rightarrow> Some e
           | Inr actionNames \<Rightarrow> validateStages actionNames ord)"

section \<open>What a valid configuration is\<close>

definition one_of :: "string \<Rightarrow> string \<Rightarrow> bool" where
  "one_of run uses = ((run = []) \<noteq> (uses = []))"

definition valid_variant :: "action_variant \<Rightarrow> bool" where
  "valid_variant v = (var_When v \<noteq> [] \<and> one_of (var_Run v) (var_Uses v))"

definition valid_action :: "action \<Rightarrow> bool" where
  "valid_action a =
     (act_Name a \<noteq> []
      \<and> (if act_Variants a = [] then one_of (act_Run a) (act_Uses a)
         else (\<forall>v \<in> set (act_Variants a). valid_variant v)))"

definition valid_step :: "config \<Rightarrow> step \<Rightarrow> bool" where
  "valid_step c st =
     (step_Action st \<noteq> [] \<and> GetAction c (step_Action st) \<noteq> None
      \<and> step_OnError st \<in> {[], ''stop'', ''warn''} \<and> set (step_Only st) \<subseteq> set only_values)"

definition valid_config :: "config \<Rightarrow> bool" where
  "valid_config c =
     (proj_Name c \<noteq> [] \<and> cfg_Actions c \<noteq> []
      \<and> (\<forall>a \<in> set (cfg_Actions c). valid_action a) \<and> distinct (map act_Name (cfg_Actions c))
      \<and> (\<forall>(n, stg) \<in> set (cfg_Stages c).
           stage_Steps stg \<noteq> [] \<and> (\<forall>st \<in> set (stage_Steps stg). valid_step c st)))"

section \<open>The loops\<close>

lemma validateVariants_None:
  "validateVariants name i vs = None \<longleftrightarrow> (\<forall>v \<in> set vs. valid_variant v)"
  by (induction name i vs rule: validateVariants.induct) (auto simp: valid_variant_def one_of_def)

lemma validateAction_None: "validateAction a = None \<longleftrightarrow> valid_action a"
  by (auto simp: validateAction_def valid_action_def validateVariants_None one_of_def)

lemma validateActions_Inr:
  "validateActions as names = Inr names' \<longleftrightarrow>
     (\<forall>a \<in> set as. valid_action a) \<and> distinct (map act_Name as)
     \<and> act_Name ` set as \<inter> names = {} \<and> names' = act_Name ` set as \<union> names"
proof (induction as arbitrary: names)
  case (Cons a as)
  show ?case
    by (cases "validateAction a") (auto simp: Cons.IH validateAction_None [symmetric])
qed auto

lemma validateSteps_None:
  "validateSteps s names i sts = None \<longleftrightarrow> (\<forall>st \<in> set sts. \<forall>j. validateStep s names j st = None)"
proof (induction s names i sts rule: validateSteps.induct)
  case (2 s names i st sts)
  have "validateStep s names i st = None \<longleftrightarrow> (\<forall>j. validateStep s names j st = None)"
    by (auto simp: validateStep_def)
  with 2 show ?case by (auto split: option.splits)
qed simp

lemma validateStep_None:
  "validateStep s (act_Name ` set (cfg_Actions c)) i st = None \<longleftrightarrow> valid_step c st"
  by (auto simp: validateStep_def valid_step_def GetAction_None find_None_iff)

lemma validateStages_None:
  "validateStages names ord = None \<longleftrightarrow>
     (\<forall>(n, stg) \<in> set ord. stage_Steps stg \<noteq> [] \<and> validateSteps n names 0 (stage_Steps stg) = None)"
  by (induction names ord rule: validateStages.induct) (auto split: option.splits)

lemma Validate_None:
  assumes "set ord = set (cfg_Stages c)"
  shows "Validate c ord = None \<longleftrightarrow> valid_config c"
proof (cases "validateActions (cfg_Actions c) {}")
  case (Inl e)
  then have "\<not> ((\<forall>a \<in> set (cfg_Actions c). valid_action a) \<and> distinct (map act_Name (cfg_Actions c)))"
    using validateActions_Inr [of "cfg_Actions c" "{}"] by force
  with Inl show ?thesis by (auto simp: Validate_def valid_config_def)
next
  case (Inr names)
  then have h: "\<forall>a \<in> set (cfg_Actions c). valid_action a" "distinct (map act_Name (cfg_Actions c))"
    and n: "names = act_Name ` set (cfg_Actions c)"
    by (simp_all add: validateActions_Inr)
  have "validateStages names ord = None \<longleftrightarrow>
     (\<forall>(n, stg) \<in> set (cfg_Stages c). stage_Steps stg \<noteq> [] \<and> (\<forall>st \<in> set (stage_Steps stg). valid_step c st))"
    by (simp add: validateStages_None validateSteps_None n validateStep_None assms)
  with Inr h show ?thesis by (simp add: Validate_def valid_config_def)
qed

lemma distinct_GetAction:
  "distinct (map act_Name (cfg_Actions c)) \<Longrightarrow> a \<in> set (cfg_Actions c) \<Longrightarrow> GetAction c (act_Name a) = Some a"
proof (unfold GetAction_def)
  show "distinct (map act_Name as) \<Longrightarrow> a \<in> set as \<Longrightarrow> find (\<lambda>b. act_Name b = act_Name a) as = Some a" for as
    by (induction as) (auto simp: image_iff)
qed

section \<open>Properties\<close>

text \<open>A project with one stage of two steps, the second requiring \<open>req\<close>.\<close>

definition two_step_config :: "string \<Rightarrow> config" where
  "two_step_config req =
     \<lparr>proj_Name = ''p'', proj_Modules = [], proj_BinDir = [], cfg_Include = [],
      cfg_Actions =
        [sample_action ''build'' ''go build'' [],
         sample_action ''test'' []
           [\<lparr>var_When = ''os == linux'', var_Run = ''go test'', var_Uses = [], var_Shell = []\<rparr>]],
      cfg_Stages = [(''ci'', \<lparr>stage_Steps = [plain_step ''build'' [], plain_step ''test'' [req]]\<rparr>)]\<rparr>"

text \<open>C19: Validate accepts a configuration exactly when it is valid: a project name, at least one
  action, distinct action names, every action (or each of its variants) with exactly one of run
  and uses, a condition on every variant, no empty stage, and steps that name actions and have
  known onerror and only values. The order in which the stages are ranged over does not matter.\<close>

theorem validate_accepts_valid:
  assumes "set ord = set (cfg_Stages c)"
  shows "Validate c ord = None \<longleftrightarrow> valid_config c"
  by (rule Validate_None [OF assms])

theorem validate_accepts_valid_witness:
  "valid_config (two_step_config ''build'') \<and> Validate (two_step_config ''build'') (cfg_Stages (two_step_config ''build'')) = None"
proof -
  have "Validate (two_step_config ''build'') (cfg_Stages (two_step_config ''build'')) = None"
    by code_simp
  then show ?thesis using validate_accepts_valid [OF refl, of "two_step_config ''build''"] by simp
qed

lemma valid_actions_exist:
  "valid_config c \<Longrightarrow> (n, stg) \<in> set (cfg_Stages c) \<Longrightarrow> actions_exist c (stage_Steps stg)"
  by (fastforce simp: valid_config_def valid_step_def actions_exist_def)

text \<open>C23: What validation leaves to the run: a stage of a validated configuration never fails for
  an unknown action, but it still may for a requirement that is no step of the stage, or for a
  cycle; it is accepted exactly when neither is there.\<close>

theorem validated_stage_builds:
  assumes "Validate c ord = None" "set ord = set (cfg_Stages c)" "GetStage c n = Some stg"
    and "range_order lo" "range_order co"
  shows "case buildDAG c lo co (stage_Steps stg) of
      Ok dag \<Rightarrow> requires_exist (stage_Steps stg) \<and> acyclic (require_edge (stage_Steps stg))
    | Err e \<Rightarrow> (\<exists>u d. e = DependencyNotFound d \<and> (u, d) \<in> require_edge (stage_Steps stg)
                  \<and> d \<notin> step_Action ` set (stage_Steps stg))
        \<or> (\<exists>m. e = CircularDependency (CycleDetected m)
              \<and> (m, m) \<in> (require_edge (stage_Steps stg))\<^sup>+)
    | Panic \<Rightarrow> False"
proof -
  have "valid_config c" using assms(1,2) by (simp add: Validate_None)
  moreover have "(n, stg) \<in> set (cfg_Stages c)" using assms(3) by (auto simp: GetStage_def dest: map_of_SomeD)
  ultimately have "actions_exist c (stage_Steps stg)" by (rule valid_actions_exist)
  then show ?thesis
    using buildDAG_cases [OF assms(4,5), of c "stage_Steps stg"]
    by (fastforce simp: actions_exist_def split: res.split)
qed

theorem validated_stage_builds_witness:
  "Validate (two_step_config ''lint'') (cfg_Stages (two_step_config ''lint'')) = None
   \<and> buildDAG (two_step_config ''lint'') (map fst) (map fst)
        [plain_step ''build'' [], plain_step ''test'' [''lint'']] = Err (DependencyNotFound ''lint'')
   \<and> ''lint'' \<notin> {''build'', ''test''}"
proof -
  let ?c = "two_step_config ''lint''" and ?st = "[plain_step ''build'' [], plain_step ''test'' [''lint'']]"
  have v: "Validate ?c (cfg_Stages ?c) = None" by code_simp
  have g: "GetStage ?c ''ci'' = Some \<lparr>stage_Steps = ?st\<rparr>" by code_simp
  have e: "buildDAG ?c (map fst) (map fst) ?st = Err (DependencyNotFound ''lint'')" by code_simp
  show ?thesis
    using validated_stage_builds [OF v refl g range_order_fst range_order_fst] v e
    by (auto simp: plain_step_def)
qed

text \<open>What a step of a validated configuration runs is a command or a built-in action, not both.\<close>

lemma select_variants_in: "select_variants env name vars vs = Ok (Some v) \<Longrightarrow> v \<in> set vs"
  by (induction vs) (auto split: res.splits if_splits)

lemma validated_action_runnable:
  assumes "valid_config c" "GetAction c n = Some a"
    and "SelectVariant env a vars = Ok v" "v = None \<longrightarrow> act_Variants a = []"
  shows "one_of (act_Run (effective_action a v)) (act_Uses (effective_action a v))"
proof -
  have a: "valid_action a" using assms(1,2) GetAction_in by (auto simp: valid_config_def)
  show ?thesis
  proof (cases v)
    case None
    with a assms(4) show ?thesis by (simp add: valid_action_def effective_action_def)
  next
    case (Some w)
    then have "w \<in> set (act_Variants a)"
      using assms(3) by (auto simp: SelectVariant_def split: if_splits intro: select_variants_in)
    with a Some show ?thesis
      by (auto simp: valid_action_def valid_variant_def effective_action_def split: if_splits)
  qed
qed

text \<open>The third step of the example of labels in the documentation is not valid.\<close>

lemma documented_label_rejected:
  "validateStep ''release'' {''build'', ''test'', ''deploy''} 2
     \<lparr>step_Action = ''deploy'', step_Require = [], step_OnError = [], step_If = [],
      step_Only = [''release'', ''production'']\<rparr>
   = Some (StepBadOnly 3 ''release'' ''production'')"
  by (simp add: validateStep_def only_values_def)

end
