(* ===== verification/Config_Load.thy ===== *)
theory Config_Load
  imports Validation
begin

text \<open>
  \<open>pkg/buildfab/config.go\<close>: finding, reading and parsing the project file, processing its
  includes, and validation. The file system and the YAML library are the parameter
  \<open>file_env\<close>; paths are those of Unix.
\<close>

section \<open>path/filepath on Unix\<close>

text \<open>
  \<open>Clean\<close> works through the elements with a stack of those kept: empty ones and \<open>.\<close> go,
  \<open>..\<close> takes the last kept one away, stays when there is none or it is \<open>..\<close> itself, and
  goes at the root.
\<close>

fun clean_elems :: "bool \<Rightarrow> string list \<Rightarrow> string list \<Rightarrow> string list" where
  "clean_elems rooted out [] = rev out"
| "clean_elems rooted out (x # xs) =
     (if x = [] \<or> x = ''.'' then clean_elems rooted out xs
      else if x = ''..'' then
        (case out of
           y # ys \<Rightarrow> if y \<noteq> ''..'' then clean_elems rooted ys xs else clean_elems rooted (x # out) xs
         | [] \<Rightarrow> if rooted then clean_elems rooted [] xs else clean_elems rooted [x] xs)
      else clean_elems rooted (x # out) xs)"

definition isAbs :: "string \<Rightarrow> bool" where
  "isAbs path = hasPrefix path ''/''"

definition path_clean :: "string \<Rightarrow> string" where
  "path_clean path =
     (let rooted = isAbs path;
          body = join_str ''/'' (clean_elems rooted [] (split_str ''/'' path))
      in if rooted then ''/'' @ body else if body = [] then ''.'' else body)"

definition path_join :: "string \<Rightarrow> string \<Rightarrow> string" where
  "path_join a b =
     (if a \<noteq> [] then path_clean (a @ ''/'' @ b) else if b \<noteq> [] then path_clean b else [])"

definition path_dir :: "string \<Rightarrow> string" where
  "path_dir path = path_clean (rev (dropWhile (\<lambda>c. c \<noteq> CHR ''/'') (rev path)))"

section \<open>Files\<close>

text \<open>
  What the loader finds outside: \<open>os.Stat\<close> (present, missing, or another error),
  \<open>os.ReadFile\<close>, \<open>filepath.Glob\<close>, and the YAML library's \<open>Unmarshal\<close> into a \<open>Config\<close>;
  an error is its text.
\<close>

datatype stat_result = Present | Missing | StatFailed

record file_env =
  fe_stat :: "string \<Rightarrow> stat_result"
  fe_read :: "string \<Rightarrow> string + string"
  fe_glob :: "string \<Rightarrow> string + string list"
  fe_yaml :: "string \<Rightarrow> string + config"

section \<open>Merging\<close>

text \<open>An included action replaces the first one of its name, or goes to the end.\<close>

fun merge_action :: "action list \<Rightarrow> action \<Rightarrow> action list" where
  "merge_action [] a = [a]"
| "merge_action (b # bs) a = (if act_Name b = act_Name a then a # bs else b # merge_action bs a)"

definition merge_stages :: "(string \<times> stage) list \<Rightarrow> (string \<times> stage) list \<Rightarrow> (string \<times> stage) list" where
  "merge_stages stages included = fold (\<lambda>(name, stg). AList.update name stg) included stages"

definition merge_file :: "config \<Rightarrow> config \<Rightarrow> config" where
  "merge_file config included =
     config\<lparr>cfg_Actions := foldl merge_action (cfg_Actions config) (cfg_Actions included),
            cfg_Stages := merge_stages (cfg_Stages config) (cfg_Stages included)\<rparr>"

section \<open>Includes\<close>

text \<open>
  A load ends with an error or the changed configuration; \<open>None\<close> means that the bound on the
  nesting was reached. A loop over names stops at the first error.
\<close>

type_synonym load_result = "(go_error + config) option"

fun each :: "('a \<Rightarrow> config \<Rightarrow> load_result) \<Rightarrow> 'a list \<Rightarrow> config \<Rightarrow> load_result" where
  "each f [] config = Some (Inr config)"
| "each f (x # xs) config =
     (case f x config of
        Some (Inr config') \<Rightarrow> each f xs config'
      | r \<Rightarrow> r)"

definition yaml_name :: "string \<Rightarrow> bool" where
  "yaml_name p = (hasSuffix (to_lower p) ''.yml'' \<or> hasSuffix (to_lower p) ''.yaml'')"

text \<open>
  \<open>visited\<close> holds the files that are being loaded; \<open>processExactFile\<close> takes its file out
  again at the end, so the set is the same after every call. \<open>load\<close> is \<open>loadAndMergeFile\<close>.
\<close>

definition processExactFile ::
  "'x file_env_scheme \<Rightarrow> (string \<Rightarrow> string set \<Rightarrow> config \<Rightarrow> load_result) \<Rightarrow> string set \<Rightarrow> string \<Rightarrow> config \<Rightarrow> load_result" where
  "processExactFile env load visited path config =
     (if path \<in> visited then Some (Inl (CircularInclude path))
      else if fe_stat env path = Missing then Some (Inl (IncludeNotExist path))
      else load path (insert path visited) config)"

definition processGlobPattern ::
  "'x file_env_scheme \<Rightarrow> (string \<Rightarrow> string set \<Rightarrow> config \<Rightarrow> load_result) \<Rightarrow> string set \<Rightarrow> string \<Rightarrow> config \<Rightarrow> load_result" where
  "processGlobPattern env load visited pattern config =
     (let dir = path_dir pattern
      in if fe_stat env dir = Missing then Some (Inl (IncludeDirNotExist dir))
         else case fe_glob env pattern of
                Inl e \<Rightarrow> Some (Inl (BadGlob pattern (ExternalError e)))
              | Inr matches \<Rightarrow>
                  each (processExactFile env load visited) (filter yaml_name matches) config)"

definition abs_pattern :: "string \<Rightarrow> string \<Rightarrow> string" where
  "abs_pattern baseDir pattern = (if isAbs pattern then pattern else path_join baseDir pattern)"

definition processIncludePattern ::
  "'x file_env_scheme \<Rightarrow> (string \<Rightarrow> string set \<Rightarrow> config \<Rightarrow> load_result) \<Rightarrow> string \<Rightarrow> string set \<Rightarrow> string \<Rightarrow> config \<Rightarrow> load_result" where
  "processIncludePattern env load baseDir visited pattern config =
     (if contains pattern ''*''
      then processGlobPattern env load visited (abs_pattern baseDir pattern) config
      else processExactFile env load visited (abs_pattern baseDir pattern) config)"

text \<open>One file, its own includes first; the number bounds the nesting.\<close>

primrec loadAndMergeFile :: "'x file_env_scheme \<Rightarrow> nat \<Rightarrow> string \<Rightarrow> string set \<Rightarrow> config \<Rightarrow> load_result" where
  "loadAndMergeFile env 0 path visited config = None"
| "loadAndMergeFile env (Suc k) path visited config =
     (case fe_read env path of
        Inl e \<Rightarrow> Some (Inl (ReadFileFailed path (ExternalError e)))
      | Inr content \<Rightarrow>
          (case fe_yaml env content of
             Inl e \<Rightarrow> Some (Inl (ParseFileFailed path (ExternalError e)))
           | Inr included \<Rightarrow>
               (case each (processIncludePattern env (loadAndMergeFile env k) (path_dir path) visited)
                       (cfg_Include included) config of
                  Some (Inr config') \<Rightarrow> Some (Inr (merge_file config' included))
                | r \<Rightarrow> r)))"

definition processIncludes :: "'x file_env_scheme \<Rightarrow> nat \<Rightarrow> config \<Rightarrow> string \<Rightarrow> load_result" where
  "processIncludes env k config baseDir =
     each (processIncludePattern env (loadAndMergeFile env k) baseDir {}) (cfg_Include config) config"

section \<open>Loading\<close>

definition default_paths :: "string list" where
  "default_paths = [''.project.yml'', ''project.yml'', ''.buildfab.yml'', ''buildfab.yml'']"

definition config_path :: "'x file_env_scheme \<Rightarrow> string \<Rightarrow> string option" where
  "config_path env path =
     (if path \<noteq> [] then Some path else find (\<lambda>p. fe_stat env p = Present) default_paths)"

text \<open>\<open>ord\<close> is the order in which validation ranges over the stages.\<close>

definition LoadConfig ::
  "'x file_env_scheme \<Rightarrow> nat \<Rightarrow> (config \<Rightarrow> (string \<times> stage) list) \<Rightarrow> string \<Rightarrow> load_result" where
  "LoadConfig env k ord path0 =
     (case config_path env path0 of
        None \<Rightarrow> Some (Inl NoDefaultConfig)
      | Some path \<Rightarrow>
          if fe_stat env path = Missing then Some (Inl (ConfigNotFound path))
          else case fe_read env path of
            Inl e \<Rightarrow> Some (Inl (ReadConfigFailed (ExternalError e)))
          | Inr data \<Rightarrow>
              (case fe_yaml env data of
                 Inl e \<Rightarrow> Some (Inl (ParseConfigFileFailed (ExternalError e)))
               | Inr config0 \<Rightarrow>
                   (let config = (if proj_BinDir config0 = []
                                  then config0\<lparr>proj_BinDir := path_dir path\<rparr> else config0)
                    in case (if 0 < length (cfg_Include config)
                             then processIncludes env k config (path_dir path)
                             else Some (Inr config)) of
                         None \<Rightarrow> None
                       | Some (Inl e) \<Rightarrow> Some (Inl (ProcessIncludesFailed e))
                       | Some (Inr c) \<Rightarrow>
                           (case Validate c (ord c) of
                              Some e \<Rightarrow> Some (Inl e)
                            | None \<Rightarrow> Some (Inr c)))))"

definition LoadConfigFromBytes :: "'x file_env_scheme \<Rightarrow> string \<Rightarrow> go_error + config" where
  "LoadConfigFromBytes env data =
     (case fe_yaml env data of
        Inl e \<Rightarrow> Inl (ParseConfigFailed (ExternalError e))
      | Inr config \<Rightarrow> Inr config)"

section \<open>Termination\<close>

text \<open>The files an include pattern leads to.\<close>

definition include_targets :: "'x file_env_scheme \<Rightarrow> string \<Rightarrow> string \<Rightarrow> string list" where
  "include_targets env baseDir pattern =
     (if contains pattern ''*''
      then (case fe_glob env (abs_pattern baseDir pattern) of
              Inl _ \<Rightarrow> [] | Inr matches \<Rightarrow> filter yaml_name matches)
      else [abs_pattern baseDir pattern])"

definition closed_under_includes :: "'x file_env_scheme \<Rightarrow> string set \<Rightarrow> bool" where
  "closed_under_includes env S =
     (\<forall>p \<in> S. case fe_read env p of Inl _ \<Rightarrow> True | Inr content \<Rightarrow>
        (case fe_yaml env content of Inl _ \<Rightarrow> True | Inr included \<Rightarrow>
           (\<forall>pattern \<in> set (cfg_Include included). set (include_targets env (path_dir p) pattern) \<subseteq> S)))"

lemma each_Some:
  "(\<And>x c. x \<in> set xs \<Longrightarrow> f x c \<noteq> None) \<Longrightarrow> each f xs c \<noteq> None"
proof (induction xs arbitrary: c)
  case (Cons x xs)
  have x: "f x c \<noteq> None" by (rule Cons.prems) simp
  have xs: "each f xs c' \<noteq> None" for c' by (rule Cons.IH) (rule Cons.prems, simp)
  show ?case
  proof (cases "f x c")
    case None
    with x show ?thesis by blast
  next
    case (Some r)
    with xs show ?thesis by (cases r) auto
  qed
qed simp

text \<open>A pattern returns when loading every file it leads to does.\<close>

lemma exact_Some:
  "(path \<notin> visited \<Longrightarrow> load path (insert path visited) c \<noteq> None) \<Longrightarrow>
     processExactFile env load visited path c \<noteq> None"
  by (auto simp: processExactFile_def)

lemma pattern_Some:
  assumes "\<And>t c. t \<in> set (include_targets env baseDir pattern) \<Longrightarrow> t \<notin> visited \<Longrightarrow>
             load t (insert t visited) c \<noteq> None"
  shows "processIncludePattern env load baseDir visited pattern c \<noteq> None"
proof (cases "contains pattern ''*''")
  case False
  have "processExactFile env load visited (abs_pattern baseDir pattern) c \<noteq> None"
    using assms False by (intro exact_Some) (simp add: include_targets_def)
  with False show ?thesis by (simp add: processIncludePattern_def)
next
  case True
  have "each (processExactFile env load visited) (filter yaml_name ms) c \<noteq> None"
    if "fe_glob env (abs_pattern baseDir pattern) = Inr ms" for ms
    using assms True that by (intro each_Some exact_Some) (auto simp: include_targets_def)
  with True show ?thesis
    by (auto simp: processIncludePattern_def processGlobPattern_def Let_def split: sum.split)
qed

lemma load_Some:
  assumes "finite S" "closed_under_includes env S"
  shows "path \<in> S \<Longrightarrow> path \<in> visited \<Longrightarrow> card (S - visited) < k \<Longrightarrow>
    loadAndMergeFile env k path visited c \<noteq> None"
proof (induction k arbitrary: path visited c)
  case (Suc k)
  show ?case
  proof (cases "fe_read env path")
    case (Inr content)
    note r = Inr
    show ?thesis
    proof (cases "fe_yaml env content")
      case (Inr included)
      have sub: "set (include_targets env (path_dir path) pattern) \<subseteq> S"
        if "pattern \<in> set (cfg_Include included)" for pattern
        using assms(2) Suc.prems(1) r Inr that by (fastforce simp: closed_under_includes_def)
      have "each (processIncludePattern env (loadAndMergeFile env k) (path_dir path) visited)
          (cfg_Include included) c \<noteq> None"
      proof (intro each_Some pattern_Some)
        fix pattern c' t c''
        assume "pattern \<in> set (cfg_Include included)" "t \<in> set (include_targets env (path_dir path) pattern)"
          and "t \<notin> visited"
        then have t: "t \<in> S - visited" using sub by blast
        then have "card (S - insert t visited) < card (S - visited)"
          using assms(1) by (intro psubset_card_mono) auto
        with Suc.prems(3) have "card (S - insert t visited) < k" by simp
        then show "loadAndMergeFile env k t (insert t visited) c'' \<noteq> None"
          using t by (intro Suc.IH) auto
      qed
      with r Inr show ?thesis by (auto split: option.split sum.split)
    qed (simp add: r)
  qed simp
qed simp

text \<open>A larger bound changes nothing.\<close>

lemma each_mono:
  assumes "\<And>x c r. f x c = Some r \<Longrightarrow> g x c = Some r"
  shows "each f xs c = Some r \<Longrightarrow> each g xs c = Some r"
proof (induction xs arbitrary: c)
  case (Cons x xs)
  then obtain q where q: "f x c = Some q" by (cases "f x c") auto
  then have "g x c = Some q" by (rule assms)
  with q Cons show ?case by (cases q) auto
qed simp

lemma pattern_mono:
  assumes "\<And>p v c r. f p v c = Some r \<Longrightarrow> g p v c = Some r"
  shows "processIncludePattern env f b v p c = Some r \<Longrightarrow> processIncludePattern env g b v p c = Some r"
proof -
  have e: "processExactFile env f v p c = Some r \<Longrightarrow> processExactFile env g v p c = Some r" for p c r
    using assms by (auto simp: processExactFile_def split: if_splits)
  have "each (processExactFile env f v) xs c = Some r \<Longrightarrow> each (processExactFile env g v) xs c = Some r" for xs
    by (rule each_mono) (rule e)
  with e show "processIncludePattern env f b v p c = Some r \<Longrightarrow> processIncludePattern env g b v p c = Some r"
    by (auto simp: processIncludePattern_def processGlobPattern_def Let_def split: if_splits sum.splits)
qed

lemma load_unfold:
  "fe_read env p = Inr content \<Longrightarrow> fe_yaml env content = Inr included \<Longrightarrow>
     loadAndMergeFile env (Suc k) p v c =
       (case each (processIncludePattern env (loadAndMergeFile env k) (path_dir p) v) (cfg_Include included) c of
          Some (Inr c') \<Rightarrow> Some (Inr (merge_file c' included)) | r \<Rightarrow> r)"
  by simp

lemma load_Suc: "loadAndMergeFile env k p v c = Some r \<Longrightarrow> loadAndMergeFile env (Suc k) p v c = Some r"
proof (induction k arbitrary: p v c r)
  case (Suc k)
  have inner: "each (processIncludePattern env (loadAndMergeFile env k) b v) ps c = Some q \<Longrightarrow>
      each (processIncludePattern env (loadAndMergeFile env (Suc k)) b v) ps c = Some q" for b ps q
    by (rule each_mono) (rule pattern_mono, rule Suc.IH)
  show ?case
  proof (cases "fe_read env p")
    case (Inr content)
    note rd = Inr
    show ?thesis
    proof (cases "fe_yaml env content")
      case (Inr included)
      let ?e = "\<lambda>k. each (processIncludePattern env (loadAndMergeFile env k) (path_dir p) v) (cfg_Include included) c"
      obtain q where q: "?e k = Some q"
        using Suc.prems rd Inr by (cases "?e k") auto
      then have q': "?e (Suc k) = Some q" by (rule inner)
      show ?thesis
        using Suc.prems q q' rd Inr by (simp del: loadAndMergeFile.simps add: load_unfold)
    qed (use Suc.prems rd in simp)
  qed (use Suc.prems in simp)
qed simp

lemma load_mono: "k \<le> k' \<Longrightarrow> loadAndMergeFile env k p v c = Some r \<Longrightarrow> loadAndMergeFile env k' p v c = Some r"
  by (induction k' rule: dec_induct) (auto simp: load_Suc simp del: loadAndMergeFile.simps)

lemma processIncludes_mono:
  assumes "k \<le> k'"
  shows "processIncludes env k config b = Some r \<Longrightarrow> processIncludes env k' config b = Some r"
  unfolding processIncludes_def by (rule each_mono) (rule pattern_mono, rule load_mono [OF assms])

section \<open>What merging does\<close>

lemma find_merge_action:
  "find (\<lambda>a. act_Name a = n) (merge_action as b)
     = (if act_Name b = n then Some b else find (\<lambda>a. act_Name a = n) as)"
  by (induction as) auto

lemma find_merge_actions:
  "find (\<lambda>a. act_Name a = n) (foldl merge_action as bs)
     = (case find (\<lambda>a. act_Name a = n) (rev bs) of Some a \<Rightarrow> Some a | None \<Rightarrow> find (\<lambda>a. act_Name a = n) as)"
  by (induction bs rule: rev_induct) (simp_all add: find_merge_action)

lemma map_of_merge_stages: "map_of (merge_stages ss inc) = map_of ss ++ map_of (rev inc)"
  unfolding merge_stages_def by (induction inc arbitrary: ss) (auto simp: map_add_def fun_eq_iff split: option.split)

lemma merge_files_actions:
  "cfg_Actions (foldl merge_file c incs) = foldl merge_action (cfg_Actions c) (concat (map cfg_Actions incs))"
  by (induction incs arbitrary: c) (simp_all add: merge_file_def)

lemma merge_files_stages:
  "map_of (cfg_Stages (foldl merge_file c incs))
     = map_of (cfg_Stages c) ++ map_of (rev (concat (map cfg_Stages incs)))"
  by (induction incs arbitrary: c) (simp_all add: merge_file_def map_of_merge_stages)

section \<open>Included files that include nothing\<close>

definition flat_file :: "'x file_env_scheme \<Rightarrow> string \<Rightarrow> config \<Rightarrow> bool" where
  "flat_file env p included =
     (fe_stat env p \<noteq> Missing \<and> cfg_Include included = []
      \<and> (case fe_read env p of Inl _ \<Rightarrow> False | Inr content \<Rightarrow> fe_yaml env content = Inr included))"

definition pattern_ok :: "'x file_env_scheme \<Rightarrow> string \<Rightarrow> string \<Rightarrow> bool" where
  "pattern_ok env baseDir pattern =
     (contains pattern ''*'' \<longrightarrow>
        fe_stat env (path_dir (abs_pattern baseDir pattern)) \<noteq> Missing
        \<and> (case fe_glob env (abs_pattern baseDir pattern) of Inl _ \<Rightarrow> False | Inr _ \<Rightarrow> True))"

definition included_files :: "'x file_env_scheme \<Rightarrow> string \<Rightarrow> string list \<Rightarrow> string list" where
  "included_files env baseDir patterns = concat (map (include_targets env baseDir) patterns)"

lemma load_flat:
  "flat_file env p inc \<Longrightarrow>
     processExactFile env (loadAndMergeFile env (Suc k)) {} p c = Some (Inr (merge_file c inc))"
  by (auto simp: flat_file_def processExactFile_def split: sum.splits)

lemma each_flat:
  "\<forall>p \<in> set ps. flat_file env p (f p) \<Longrightarrow>
     each (processExactFile env (loadAndMergeFile env (Suc k)) {}) ps c
       = Some (Inr (foldl merge_file c (map f ps)))"
proof (induction ps arbitrary: c)
  case (Cons p ps)
  then have "flat_file env p (f p)" by simp
  from load_flat [OF this] Cons show ?case by (simp del: loadAndMergeFile.simps)
qed simp

lemma pattern_flat:
  assumes "pattern_ok env baseDir pattern" "\<forall>p \<in> set (include_targets env baseDir pattern). flat_file env p (f p)"
  shows "processIncludePattern env (loadAndMergeFile env (Suc k)) baseDir {} pattern c
     = Some (Inr (foldl merge_file c (map f (include_targets env baseDir pattern))))"
proof (cases "contains pattern ''*''")
  case True
  then obtain ms where ms: "fe_glob env (abs_pattern baseDir pattern) = Inr ms"
      and d: "fe_stat env (path_dir (abs_pattern baseDir pattern)) \<noteq> Missing"
    using assms(1) by (auto simp: pattern_ok_def split: sum.splits)
  then have t: "include_targets env baseDir pattern = filter yaml_name ms"
    using True by (simp add: include_targets_def)
  show ?thesis
    using each_flat [OF assms(2), of k c] True ms d
    by (simp add: processIncludePattern_def processGlobPattern_def Let_def t del: loadAndMergeFile.simps)
next
  case False
  then have "flat_file env (abs_pattern baseDir pattern) (f (abs_pattern baseDir pattern))"
    using assms(2) by (simp add: include_targets_def)
  from load_flat [OF this] False show ?thesis
    by (simp add: processIncludePattern_def include_targets_def del: loadAndMergeFile.simps)
qed

lemma patterns_flat:
  "\<forall>pattern \<in> set ps. pattern_ok env baseDir pattern \<Longrightarrow>
   \<forall>p \<in> set (included_files env baseDir ps). flat_file env p (f p) \<Longrightarrow>
     each (processIncludePattern env (loadAndMergeFile env (Suc k)) baseDir {}) ps c
       = Some (Inr (foldl merge_file c (map f (included_files env baseDir ps))))"
proof (induction ps arbitrary: c)
  case (Cons p ps)
  have h: "pattern_ok env baseDir p" "\<forall>q \<in> set (include_targets env baseDir p). flat_file env q (f q)"
    using Cons.prems by (simp_all add: included_files_def)
  have "each (processIncludePattern env (loadAndMergeFile env (Suc k)) baseDir {}) (p # ps) c
      = each (processIncludePattern env (loadAndMergeFile env (Suc k)) baseDir {}) ps
          (foldl merge_file c (map f (include_targets env baseDir p)))"
    by (simp add: pattern_flat [OF h] del: loadAndMergeFile.simps)
  also have "\<dots> = Some (Inr (foldl merge_file c (map f (included_files env baseDir (p # ps)))))"
    using Cons.prems by (subst Cons.IH) (simp_all add: included_files_def)
  finally show ?case .
qed (simp add: included_files_def)

lemma includes_flat:
  assumes "\<forall>pattern \<in> set (cfg_Include config). pattern_ok env baseDir pattern"
    and "\<forall>p \<in> set (included_files env baseDir (cfg_Include config)). flat_file env p (f p)"
  shows "processIncludes env (Suc k) config baseDir
     = Some (Inr (foldl merge_file config (map f (included_files env baseDir (cfg_Include config)))))"
  unfolding processIncludes_def by (rule patterns_flat [OF assms])

section \<open>Properties\<close>

text \<open>A directory of three files: one that includes itself, and two that define an action.\<close>

definition part :: "string list \<Rightarrow> action list \<Rightarrow> config" where
  "part incs as = \<lparr>proj_Name = ''p'', proj_Modules = [], proj_BinDir = [], cfg_Include = incs,
     cfg_Actions = as, cfg_Stages = []\<rparr>"

definition sample_files :: file_env where
  "sample_files =
     \<lparr>fe_stat = (\<lambda>p. if p \<in> {''w'', ''w/ring.yml'', ''w/a.yml'', ''w/b.yml''} then Present else Missing),
      fe_read = (\<lambda>p. Inr p),
      fe_glob = (\<lambda>_. Inr [''w/a.yml'', ''w/b.yml'', ''w/b.txt'']),
      fe_yaml = (\<lambda>t. if t = ''w/ring.yml'' then Inr (part [''ring.yml''] [])
                     else if t = ''w/a.yml'' then Inr (part [] [sample_action ''build'' ''make'' []])
                     else Inr (part [] [sample_action ''build'' ''ninja'' []]))\<rparr>"





end
