(* ===== verification/Cli_Run.thy ===== *)
theory Cli_Run
  imports Simple_Run Config_Load
begin

text \<open>
  \<open>cmd/buildfab/main.go\<close>: the commands, over \<open>Config_Load\<close> and \<open>Simple_Run\<close>, and the calls
  for embedding them, \<open>RunCLI\<close> of \<open>buildfab.go\<close>, \<open>RunStageSimple\<close> and \<open>RunActionSimple\<close> of
  \<open>simple.go\<close>. A command that runs a stage is a relation, the others are functions; \<open>None\<close> is
  a panic in a condition or the bound on nested includes.
\<close>

section \<open>Texts\<close>

text \<open>\<open>strings.Fields\<close>: the parts between runs of white space.\<close>

function fields_from :: "string \<Rightarrow> string \<Rightarrow> string list" where
  "fields_from cur [] = (if cur = [] then [] else [rev cur])"
| "fields_from cur (c # s) =
     (if space_len (c # s) = 0 then fields_from (c # cur) s
      else (if cur = [] then [] else [rev cur]) @ fields_from [] (drop (space_len (c # s) - 1) s))"
  by pat_completeness auto
termination by (relation "measure (length \<circ> snd)") auto

definition fields :: "string \<Rightarrow> string list" where
  "fields s = fields_from [] s"

text \<open>
  \<open>fmt.Sscanf\<close> with \<open>%d\<close> into an \<open>int\<close>: a sign and the digits after it; without digits, or
  beyond 64 bits, the variable keeps its 0.
\<close>

definition digits_value :: "string \<Rightarrow> int" where
  "digits_value ds = foldl (\<lambda>v d. 10 * v + (int (of_char d) - 48)) 0 ds"

definition sscanf_d :: "string \<Rightarrow> int" where
  "sscanf_d s =
     (let neg = (s \<noteq> [] \<and> hd s = CHR ''-'');
          body = (if s \<noteq> [] \<and> hd s \<in> {CHR ''-'', CHR ''+''} then tl s else s);
          v = (if neg then -1 else 1) * digits_value (takeWhile is_digit body)
      in if - (2 ^ 63) \<le> v \<and> v < 2 ^ 63 then v else 0)"

text \<open>\<open>%-20s\<close> counts characters: the bytes that do not continue one in UTF-8.\<close>

definition rune_count :: "string \<Rightarrow> nat" where
  "rune_count s = length (filter (\<lambda>c. \<not> (0x80 \<le> (of_char c :: nat) \<and> (of_char c :: nat) < 0xC0)) s)"

definition pad_name :: "string \<Rightarrow> string" where
  "pad_name s = s @ replicate (20 - rune_count s) (CHR '' '')"

definition println :: "string \<Rightarrow> string" where
  "println s = s @ [newline]"

definition quote1 :: "string \<Rightarrow> string" where
  "quote1 s = [CHR 0x27] @ s @ [CHR 0x27]"

section \<open>Validation errors with a line\<close>

definition is_validation_error :: "string \<Rightarrow> bool" where
  "is_validation_error t =
     (contains t ''step'' \<and> contains t ''must have an action''
      \<or> contains t ''duplicate action name''
      \<or> contains t ''stage'' \<and> contains t ''must have at least one step'')"

text \<open>The number after the first word \<open>step\<close> that is not the last.\<close>

fun step_number :: "string list \<Rightarrow> int" where
  "step_number (p # q # ps) = (if p = ''step'' then sscanf_d q else step_number (q # ps))"
| "step_number ps = 0"

text \<open>
  The scan for the step: \<open>i\<close> is the number of the line from 0. The lines are trimmed first, so
  the test for the end of the section never succeeds.
\<close>

fun find_step_line :: "int \<Rightarrow> string list \<Rightarrow> nat \<Rightarrow> bool \<Rightarrow> int \<Rightarrow> nat option" where
  "find_step_line stepNum [] i inBuild count = None"
| "find_step_line stepNum (l # ls) i inBuild count =
     (let line = trim_space l in
      if hasPrefix line ''build:'' \<or> hasPrefix line ''test:'' then find_step_line stepNum ls (i + 1) True count
      else if \<not> inBuild then find_step_line stepNum ls (i + 1) inBuild count
      else if hasPrefix line ''  '' \<and> \<not> hasPrefix line ''    ''
              \<and> \<not> (\<not> hasPrefix line ''  '' \<or> hasPrefix line ''    '') then None
      else if hasPrefix line ''- action:'' then
        (if count + 1 = stepNum then Some i else find_step_line stepNum ls (i + 1) inBuild (count + 1))
      else if hasPrefix line ''- require:'' \<and> count = stepNum - 1 then Some i
      else find_step_line stepNum ls (i + 1) inBuild count)"

text \<open>The word after the first \<open>duplicate action name:\<close>.\<close>

fun duplicate_name :: "string list \<Rightarrow> string" where
  "duplicate_name (p # q # r # n # ps) =
     (if p = ''duplicate'' \<and> q = ''action'' \<and> r = ''name:'' then n else duplicate_name (q # r # n # ps))"
| "duplicate_name ps = []"

fun find_line :: "(string \<Rightarrow> bool) \<Rightarrow> string list \<Rightarrow> nat \<Rightarrow> nat option" where
  "find_line P [] i = None"
| "find_line P (l # ls) i = (if P l then Some i else find_line P ls (i + 1))"

definition located :: "string \<Rightarrow> nat \<Rightarrow> string \<Rightarrow> string" where
  "located configPath i t = configPath @ '':'' @ show_nat (i + 1) @ '': '' @ t"

definition enhanceValidationError :: "'x file_env_scheme \<Rightarrow> string \<Rightarrow> string \<Rightarrow> string" where
  "enhanceValidationError env configPath errorStr =
     (case fe_read env configPath of
        Inl _ \<Rightarrow> errorStr
      | Inr content \<Rightarrow>
          let lines = split_str [newline] content;
              stepLine = (if contains errorStr ''step'' \<and> contains errorStr ''must have an action''
                          then let stepNum = step_number (fields errorStr)
                               in if 0 < stepNum then find_step_line stepNum lines 0 False 0 else None
                          else None);
              nameLine = (if contains errorStr ''duplicate action name''
                          then let n = duplicate_name (fields errorStr)
                               in if n \<noteq> [] then find_line (\<lambda>l. contains l (''name: '' @ n)) lines 0 else None
                          else None)
          in case stepLine of
               Some i \<Rightarrow> located configPath i errorStr
             | None \<Rightarrow> (case nameLine of Some i \<Rightarrow> located configPath i errorStr | None \<Rightarrow> errorStr))"

section \<open>The command line\<close>

text \<open>
  The flags are parsed by the library cobra; \<open>cli_env\<close> is what a command finds around it, with
  the bound on nested includes and the orders of the ranges over maps.
\<close>

record cli_flags =
  fl_verbose :: bool
  fl_quiet :: bool
  fl_debug :: bool
  fl_dryRun :: bool
  fl_configPath :: string
  fl_maxParallel :: int
  fl_workingDir :: string
  fl_only :: "string list"
  fl_withRequires :: bool
  fl_env :: "string list"
  fl_graph :: bool
  fl_version :: bool
  fl_versionOnly :: bool

record cli_env =
  ce_files :: file_env
  ce_fuel :: nat
  ce_ord :: "config \<Rightarrow> (string \<times> stage) list"
  ce_go :: go_env
  ce_goos :: string
  ce_lookpath :: "string \<Rightarrow> bool"
  ce_ncpu :: int
  ce_sys :: sys
  ce_world :: world
  ce_lo :: "dag \<Rightarrow> string list"
  ce_co :: "dag \<Rightarrow> string list"
  ce_appVersion :: string

text \<open>What a command writes, what the runner's callback has shown, and how it ends.\<close>

datatype shown = Nothing | StageShown "ordered_cb option" | StepShown simple_cb

datatype cli_end = Return "go_error option" | ExitWith nat | ShowHelp

record cli_run =
  cr_out :: "string list"
  cr_errout :: "string list"
  cr_shown :: shown
  cr_end :: cli_end

definition quiet_run :: "string list \<Rightarrow> cli_end \<Rightarrow> cli_run" where
  "quiet_run out e = \<lparr>cr_out = out, cr_errout = [], cr_shown = Nothing, cr_end = e\<rparr>"

definition cli_load :: "cli_env \<Rightarrow> cli_flags \<Rightarrow> load_result" where
  "cli_load env fl = LoadConfig (ce_files env) (ce_fuel env) (ce_ord env) (fl_configPath fl)"

text \<open>A validation error is printed with its line and ends the program, others are returned.\<close>

definition load_failure :: "cli_env \<Rightarrow> cli_flags \<Rightarrow> (go_error \<Rightarrow> go_error) \<Rightarrow> go_error \<Rightarrow> cli_run" where
  "load_failure env fl wrap e =
     (if is_validation_error (error_text e)
      then \<lparr>cr_out = [],
            cr_errout = [println (colorRed @ ''Error: ''
              @ enhanceValidationError (ce_files env) (fl_configPath fl) (error_text e) @ colorReset)],
            cr_shown = Nothing, cr_end = ExitWith 1\<rparr>
      else quiet_run [] (Return (Some (wrap e))))"

definition handleConfigLoadError :: "cli_env \<Rightarrow> cli_flags \<Rightarrow> go_error \<Rightarrow> cli_run" where
  "handleConfigLoadError env fl e = load_failure env fl LoadFailed e"

definition env_variables :: "string list \<Rightarrow> string \<Rightarrow> string option" where
  "env_variables vars =
     fold (\<lambda>v m. case index_of v ''='' of None \<Rightarrow> m | Some i \<Rightarrow> m(take i v \<mapsto> drop (i + 1) v)) vars Map.empty"

definition cli_options :: "cli_env \<Rightarrow> cli_flags \<Rightarrow> bool \<Rightarrow> simple_options" where
  "cli_options env fl withRequires =
     \<lparr>so_ConfigPath = fl_configPath fl, so_MaxParallel = fl_maxParallel fl,
      so_Verbose = fl_verbose fl \<and> \<not> fl_quiet fl, so_Debug = fl_debug fl, so_DryRun = fl_dryRun fl,
      so_Variables = Some (AddPlatformVariables (ce_go env) (Some (env_variables (fl_env fl)))),
      so_WorkingDir = fl_workingDir fl, so_Only = fl_only fl, so_WithRequires = withRequires\<rparr>"

definition cli_runner :: "cli_env \<Rightarrow> cli_flags \<Rightarrow> bool \<Rightarrow> config \<Rightarrow> simple_runner" where
  "cli_runner env fl withRequires cfg =
     NewSimpleRunner (ce_go env) (ce_goos env) (ce_lookpath env) (ce_ncpu env) cfg
       (Some (cli_options env fl withRequires)) (ce_sys env)"

definition hints :: "go_error \<Rightarrow> string list" where
  "hints e =
     [println (''Error: '' @ error_text e),
      println ''To see available stages run: buildfab list-stages'',
      println ''To see available actions run: buildfab list-actions'']"

text \<open>What is printed after a failed step, stage or action.\<close>

definition step_error_text :: "go_error \<Rightarrow> string list" where
  "step_error_text e =
     (if contains (error_text e) ''stage not found'' \<or> contains (error_text e) ''step not found''
      then hints e else [println (''Error: '' @ error_text e)])"

definition stage_error_text :: "go_error \<Rightarrow> string list" where
  "stage_error_text e = (if contains (error_text e) ''stage not found'' then hints e else [])"

definition action_error_text :: "go_error \<Rightarrow> string list" where
  "action_error_text e = (if contains (error_text e) ''action not found'' then hints e else [])"

definition ended :: "string list \<Rightarrow> shown \<Rightarrow> (go_error \<Rightarrow> string list) \<Rightarrow> go_error option \<Rightarrow> cli_run" where
  "ended out sh errtext err =
     (case err of
        None \<Rightarrow> \<lparr>cr_out = out, cr_errout = [], cr_shown = sh, cr_end = Return None\<rparr>
      | Some e \<Rightarrow> \<lparr>cr_out = out, cr_errout = errtext e, cr_shown = sh, cr_end = ExitWith 1\<rparr>)"

inductive runStageDirect :: "cli_env \<Rightarrow> cli_flags \<Rightarrow> string list \<Rightarrow> cli_run \<Rightarrow> bool" for env fl where
  stage_load_error:
    "cli_load env fl = Some (Inl e) \<Longrightarrow> runStageDirect env fl args (load_failure env fl LoadFailed e)"
| stage_step:
    "cli_load env fl = Some (Inr cfg) \<Longrightarrow>
     Simple_RunStageStep (cli_runner env fl (fl_withRequires fl) cfg) (ce_world env) stageName stepName
       = Some d \<Longrightarrow>
     runStageDirect env fl [stageName, stepName]
       (ended (dn_output d) (StepShown (dn_cb d)) step_error_text (dn_error d))"
| whole_stage:
    "cli_load env fl = Some (Inr cfg) \<Longrightarrow> length (stageName # rest) \<noteq> 2 \<Longrightarrow>
     Simple_RunStage (cli_runner env fl (fl_withRequires fl) cfg) (ce_world env) (ce_lo env) (ce_co env)
       stageName out \<Longrightarrow>
     runStageDirect env fl (stageName # rest)
       (ended (sm_output out) (StageShown (sm_cb out)) stage_error_text (sm_error out))"

text \<open>\<open>terminated\<close>: the context was cancelled before the summary.\<close>

inductive runActionDirect :: "cli_env \<Rightarrow> cli_flags \<Rightarrow> string list \<Rightarrow> cli_run \<Rightarrow> bool" for env fl where
  action_load_error:
    "cli_load env fl = Some (Inl e) \<Longrightarrow> runActionDirect env fl args (load_failure env fl LoadFailed e)"
| action_run:
    "cli_load env fl = Some (Inr cfg) \<Longrightarrow>
     Simple_RunAction (cli_runner env fl False cfg) (ce_world env) terminated name = Some d \<Longrightarrow>
     runActionDirect env fl (name # rest)
       (ended (dn_output d) (StepShown (dn_cb d)) action_error_text (dn_error d))"

definition getVersion :: "cli_env \<Rightarrow> string" where
  "getVersion env = (if ce_appVersion env \<noteq> [] then ce_appVersion env else ''unknown'')"

text \<open>\<open>ListBuiltInActions\<close> of a runner: the map from names to descriptions.\<close>

definition ListBuiltInActions :: "runner \<Rightarrow> string \<Rightarrow> string option" where
  "ListBuiltInActions r =
     (case rn_registry r of None \<Rightarrow> Map.empty | Some reg \<Rightarrow> (\<lambda>n. map_option fst (reg n)))"

definition default_runner :: "cli_env \<Rightarrow> config \<Rightarrow> runner" where
  "default_runner env cfg =
     NewRunner (ce_go env) (ce_goos env) (ce_lookpath env) (ce_ncpu env) cfg
       (Some (DefaultRunOptions (ce_go env) (ce_ncpu env))) (ce_sys env)"

inductive runRoot :: "cli_env \<Rightarrow> cli_flags \<Rightarrow> string list \<Rightarrow> cli_run \<Rightarrow> bool" for env fl where
  root_version:
    "fl_version fl \<Longrightarrow>
     runRoot env fl args (quiet_run [println (''buildfab version '' @ getVersion env)] (Return None))"
| root_versionOnly:
    "\<not> fl_version fl \<Longrightarrow> fl_versionOnly fl \<Longrightarrow>
     runRoot env fl args (quiet_run [println (getVersion env)] (Return None))"
| root_help:
    "\<not> fl_version fl \<Longrightarrow> \<not> fl_versionOnly fl \<Longrightarrow> runRoot env fl [] (quiet_run [] ShowHelp)"
| root_invalid:
    "\<not> fl_version fl \<Longrightarrow> \<not> fl_versionOnly fl \<Longrightarrow> cli_load env fl = Some (Inl e) \<Longrightarrow>
     is_validation_error (error_text e) \<Longrightarrow>
     runRoot env fl (name # rest) (load_failure env fl LoadFailed e)"
| root_unloaded:
    "\<not> fl_version fl \<Longrightarrow> \<not> fl_versionOnly fl \<Longrightarrow> cli_load env fl = Some (Inl e) \<Longrightarrow>
     \<not> is_validation_error (error_text e) \<Longrightarrow> runStageDirect env fl (name # rest) run \<Longrightarrow>
     runRoot env fl (name # rest) run"
| root_action:
    "\<not> fl_version fl \<Longrightarrow> \<not> fl_versionOnly fl \<Longrightarrow> cli_load env fl = Some (Inr cfg) \<Longrightarrow>
     GetStage cfg name = None \<Longrightarrow>
     GetAction cfg name \<noteq> None \<or> ListBuiltInActions (default_runner env cfg) name \<noteq> None \<Longrightarrow>
     runActionDirect env fl (name # rest) run \<Longrightarrow> runRoot env fl (name # rest) run"
| root_stage:
    "\<not> fl_version fl \<Longrightarrow> \<not> fl_versionOnly fl \<Longrightarrow> cli_load env fl = Some (Inr cfg) \<Longrightarrow>
     GetStage cfg name \<noteq> None
       \<or> GetAction cfg name = None \<and> ListBuiltInActions (default_runner env cfg) name = None \<Longrightarrow>
     runStageDirect env fl (name # rest) run \<Longrightarrow> runRoot env fl (name # rest) run"

text \<open>\<open>main\<close> after the command: an error that was returned is printed and the status is 1.\<close>

fun exit_status :: "cli_end \<Rightarrow> nat" where
  "exit_status (Return None) = 0"
| "exit_status (Return (Some e)) = 1"
| "exit_status (ExitWith n) = n"
| "exit_status ShowHelp = 0"

section \<open>The other commands\<close>

text \<open>\<open>names\<close> is the order in which the map of the built-in actions is ranged over.\<close>

definition action_kind :: "action \<Rightarrow> string" where
  "action_kind a =
     (if act_Uses a \<noteq> [] then ''Uses: '' @ act_Uses a
      else if act_Run a \<noteq> [] then ''Custom run command'' else ''Custom action'')"

definition list_line :: "string \<Rightarrow> string \<Rightarrow> string" where
  "list_line name description = println (''  '' @ pad_name name @ '' '' @ description)"

definition runListActions :: "cli_env \<Rightarrow> cli_flags \<Rightarrow> string list \<Rightarrow> cli_run option" where
  "runListActions env fl names =
     (case cli_load env fl of
        None \<Rightarrow> None
      | Some (Inl e) \<Rightarrow> Some (handleConfigLoadError env fl e)
      | Some (Inr cfg) \<Rightarrow>
          let builtins = ListBuiltInActions (default_runner env cfg)
          in Some (quiet_run
               ([println ''Available actions:'', [newline]]
                @ (if 0 < length (cfg_Actions cfg)
                   then [println ''Defined actions in project configuration:'']
                     @ map (\<lambda>a. list_line (act_Name a) (action_kind a)) (cfg_Actions cfg) @ [[newline]]
                   else [])
                @ [println ''Built-in actions:'']
                @ map (\<lambda>n. list_line n (case builtins n of Some d \<Rightarrow> d | None \<Rightarrow> [])) names)
               (Return None)))"

definition runValidate :: "cli_env \<Rightarrow> cli_flags \<Rightarrow> cli_run option" where
  "runValidate env fl =
     (case cli_load env fl of
        None \<Rightarrow> None
      | Some (Inl e) \<Rightarrow> Some (load_failure env fl ConfigInvalid e)
      | Some (Inr cfg) \<Rightarrow>
          Some (quiet_run
            [println (''Configuration is valid: '' @ fl_configPath fl),
             println (''Project: '' @ proj_Name cfg),
             println (''Actions: '' @ show_nat (length (cfg_Actions cfg))),
             println (''Stages: '' @ show_nat (length (cfg_Stages cfg)))] (Return None)))"

text \<open>\<open>ord\<close> is the order in which the stages are ranged over.\<close>

definition runListStages :: "cli_env \<Rightarrow> cli_flags \<Rightarrow> (config \<Rightarrow> (string \<times> stage) list) \<Rightarrow> cli_run option" where
  "runListStages env fl ord =
     (case cli_load env fl of
        None \<Rightarrow> None
      | Some (Inl e) \<Rightarrow> Some (handleConfigLoadError env fl e)
      | Some (Inr cfg) \<Rightarrow>
          Some (quiet_run
            ([println ''Defined stages in project configuration:'', [newline]]
             @ (if length (cfg_Stages cfg) = 0 then [println ''  No stages defined'']
                else map (\<lambda>(n, stg). list_line n (show_nat (length (stage_Steps stg)) @ '' step(s)'')) (ord cfg)))
            (Return None)))"

definition tree_line :: string where "tree_line = [CHR 0xE2, CHR 0x94, CHR 0x80, CHR 0xE2, CHR 0x94, CHR 0x80]"
definition tree_last :: string where "tree_last = [CHR 0xE2, CHR 0x94, CHR 0x94] @ tree_line"
definition tree_mid :: string where "tree_mid = [CHR 0xE2, CHR 0x94, CHR 0x9C] @ tree_line"

definition pad2 :: "nat \<Rightarrow> string" where
  "pad2 n = pad_left 2 (CHR '' '') (show_nat n)"

text \<open>The lines of a step: of two steps with one name both show the requirements of the last.\<close>

definition graph_step :: "step list \<Rightarrow> nat \<Rightarrow> string list" where
  "graph_step steps i =
     (let name = step_Action (steps ! i);
          deps = (case last_step steps name of Some st \<Rightarrow> step_Require st | None \<Rightarrow> [])
      in [''  '' @ pad2 (i + 1) @ ''. '' @ name]
         @ (if deps \<noteq> [] then ['' (depends on: '' @ join_str '', '' deps @ '')''] else [])
         @ [[newline]]
         @ map (\<lambda>j. println (''      '' @ (if j = length deps - 1 then tree_last else tree_mid) @ '' '' @ deps ! j))
             [0..<length deps]
         @ (if i < length steps - 1 then [[newline]] else []))"

definition printStepsGraph :: "string \<Rightarrow> stage \<Rightarrow> string list" where
  "printStepsGraph stageName stg =
     [println (''Dependency graph for stage '' @ quote1 stageName @ '':''), [newline]]
     @ (if length (stage_Steps stg) = 0 then [println ''  No steps defined'']
        else concat (map (graph_step (stage_Steps stg)) [0..<length (stage_Steps stg)]))"

definition runListSteps :: "cli_env \<Rightarrow> cli_flags \<Rightarrow> string \<Rightarrow> cli_run option" where
  "runListSteps env fl stageName =
     (case cli_load env fl of
        None \<Rightarrow> None
      | Some (Inl e) \<Rightarrow> Some (handleConfigLoadError env fl e)
      | Some (Inr cfg) \<Rightarrow>
          (case GetStage cfg stageName of
             None \<Rightarrow> Some (quiet_run [] (Return (Some (StageNotInConfig stageName))))
           | Some stg \<Rightarrow>
               if fl_graph fl then Some (quiet_run (printStepsGraph stageName stg) (Return None))
               else Some (quiet_run
                 ([println (''Steps for stage '' @ quote1 stageName @ '':''), [newline]]
                  @ (if length (stage_Steps stg) = 0 then [println ''  No steps defined'']
                     else map (\<lambda>i. println (''  '' @ pad2 (i + 1) @ ''. '' @ step_Action (stage_Steps stg ! i)))
                            [0..<length (stage_Steps stg)]))
                 (Return None))))"

section \<open>Calls for embedding\<close>

fun cli_config_path :: "string list \<Rightarrow> string" where
  "cli_config_path [] = ''.project.yml''"
| "cli_config_path (a # as) =
     (if a = ''-c'' \<or> a = ''--config'' then (case as of p # _ \<Rightarrow> p | [] \<Rightarrow> ''.project.yml'')
      else cli_config_path as)"

definition cli_args_error :: "string list \<Rightarrow> go_error option" where
  "cli_args_error args =
     (case args of
        [] \<Rightarrow> Some NoArguments
      | command # rest \<Rightarrow>
          if command = ''run'' then (if length args < 2 then Some RunNeedsStage else None)
          else if command = ''action'' then (if length args < 2 then Some ActionNeedsName else None)
          else Some (UnknownCommand command))"

datatype api_outcome = ApiError go_error | ApiStage stage_outcome | ApiAction op_run

inductive RunCLI :: "cli_env \<Rightarrow> string list \<Rightarrow> api_outcome \<Rightarrow> bool" for env where
  bad_args:
    "cli_args_error args = Some e \<Longrightarrow> RunCLI env args (ApiError e)"
| not_loaded:
    "cli_args_error args = None \<Longrightarrow>
     LoadConfig (ce_files env) (ce_fuel env) (ce_ord env) (cli_config_path args) = Some (Inl e) \<Longrightarrow>
     RunCLI env args (ApiError (LoadFailed e))"
| run_stage:
    "cli_args_error (''run'' # name # rest) = None \<Longrightarrow>
     LoadConfig (ce_files env) (ce_fuel env) (ce_ord env) (cli_config_path (''run'' # name # rest))
       = Some (Inr cfg) \<Longrightarrow>
     r = NewRunner (ce_go env) (ce_goos env) (ce_lookpath env) (ce_ncpu env) cfg
       (Some ((DefaultRunOptions (ce_go env) (ce_ncpu env))
         \<lparr>ro_ConfigPath := cli_config_path (''run'' # name # rest)\<rparr>)) (ce_sys env) \<Longrightarrow>
     RunStage r (ce_world env) (ce_lo env) (ce_co env) name out \<Longrightarrow>
     RunCLI env (''run'' # name # rest) (ApiStage out)"
| run_action:
    "cli_args_error (''action'' # name # rest) = None \<Longrightarrow>
     LoadConfig (ce_files env) (ce_fuel env) (ce_ord env) (cli_config_path (''action'' # name # rest))
       = Some (Inr cfg) \<Longrightarrow>
     r = NewRunner (ce_go env) (ce_goos env) (ce_lookpath env) (ce_ncpu env) cfg
       (Some ((DefaultRunOptions (ce_go env) (ce_ncpu env))
         \<lparr>ro_ConfigPath := cli_config_path (''action'' # name # rest)\<rparr>)) (ce_sys env) \<Longrightarrow>
     RunAction r (ce_world env) name = Some run \<Longrightarrow>
     RunCLI env (''action'' # name # rest) (ApiAction run)"

text \<open>The runner of \<open>RunStageSimple\<close> and \<open>RunActionSimple\<close>: the options not set are zero.\<close>

definition minimal_runner :: "cli_env \<Rightarrow> string \<Rightarrow> bool \<Rightarrow> config \<Rightarrow> simple_runner" where
  "minimal_runner env configPath verbose cfg =
     NewSimpleRunner (ce_go env) (ce_goos env) (ce_lookpath env) (ce_ncpu env) cfg
       (Some \<lparr>so_ConfigPath = configPath, so_MaxParallel = 0, so_Verbose = verbose, so_Debug = False,
              so_DryRun = False, so_Variables = None, so_WorkingDir = [], so_Only = [],
              so_WithRequires = False\<rparr>) (ce_sys env)"

inductive RunStageSimple ::
  "cli_env \<Rightarrow> string \<Rightarrow> string \<Rightarrow> bool \<Rightarrow> go_error + simple_outcome \<Rightarrow> bool" for env where
  simple_stage_unloaded:
    "LoadConfig (ce_files env) (ce_fuel env) (ce_ord env) path = Some (Inl e) \<Longrightarrow>
     RunStageSimple env path name verbose (Inl (LoadFailed e))"
| simple_stage:
    "LoadConfig (ce_files env) (ce_fuel env) (ce_ord env) path = Some (Inr cfg) \<Longrightarrow>
     Simple_RunStage (minimal_runner env path verbose cfg) (ce_world env) (ce_lo env) (ce_co env) name out \<Longrightarrow>
     RunStageSimple env path name verbose (Inr out)"

definition RunActionSimple ::
  "cli_env \<Rightarrow> bool \<Rightarrow> string \<Rightarrow> string \<Rightarrow> bool \<Rightarrow> (go_error + simple_done) option" where
  "RunActionSimple env terminated path name verbose =
     (case LoadConfig (ce_files env) (ce_fuel env) (ce_ord env) path of
        None \<Rightarrow> None
      | Some (Inl e) \<Rightarrow> Some (Inl (LoadFailed e))
      | Some (Inr cfg) \<Rightarrow>
          map_option Inr (Simple_RunAction (minimal_runner env path verbose cfg) (ce_world env) terminated name))"

end
