(* ===== verification/Simple_Correct.thy ===== *)
theory Simple_Correct
  imports Simple_Run
begin

text \<open>
  What the user of \<open>SimpleRunner\<close> sees: both callbacks meet the contract \<open>result_collector\<close>,
  so that \<open>getSkippedSteps\<close> finds the steps skipped for a dependency; after a run the screen holds
  one complete block per step, in the order of the file, and the summary counts every step once.
\<close>

section \<open>What a callback collects\<close>

text \<open>
  The contract of both callbacks: a completion of a step not yet reported adds the step with its
  status, other calls change no result.
\<close>

definition reported :: "step_result list \<Rightarrow> (string \<times> step_status) set" where
  "reported rs = (\<lambda>r. (sr_StepName r, sr_Status r)) ` set rs"

fun is_complete :: "cb_event \<Rightarrow> bool" where
  "is_complete (OnStepComplete n st msg d) = True"
| "is_complete e = False"

locale result_collector =
  fixes call :: "cb_event \<Rightarrow> 'c \<Rightarrow> 'c option" and results :: "'c \<Rightarrow> step_result list"
  assumes completed: "call (OnStepComplete n st msg d) c = Some c' \<Longrightarrow> n \<notin> fst ` reported (results c) \<Longrightarrow>
      reported (results c') = insert (n, st) (reported (results c))"
    and unchanged: "call e c = Some c' \<Longrightarrow> \<not> is_complete e \<Longrightarrow> results c' = results c"
begin

lemma collected:
  "run_events call es c = Some c' \<Longrightarrow> wf_events N S C es \<Longrightarrow> fst ` reported (results c) = C \<Longrightarrow>
     reported (results c') = reported (results c) \<union> {(n, st). n \<notin> C \<and> status_of n es = Some st}"
proof (induction es arbitrary: c S C)
  case (Cons e es)
  obtain c1 where c1: "call e c = Some c1" "run_events call es c1 = Some c'"
    using Cons.prems(1) by (auto split: option.splits)
  show ?case
  proof (cases e)
    case (OnStepComplete m s msg d)
    then have m: "m \<notin> C" "wf_events N S (insert m C) es" using Cons.prems(2) by auto
    then have r: "reported (results c1) = insert (m, s) (reported (results c))"
      using completed [of m s msg d c c1] c1(1) OnStepComplete Cons.prems(3) by simp
    then have "fst ` reported (results c1) = insert m C" using Cons.prems(3) by simp
    from Cons.IH [OF c1(2) m(2) this] r m(1) show ?thesis
      using OnStepComplete by (auto split: if_splits)
  next
    case (OnStepStart m)
    then have r: "results c1 = results c" using unchanged [OF c1(1)] by simp
    from Cons.IH [OF c1(2), of "insert m S" C] Cons.prems(2,3) OnStepStart show ?thesis by (simp add: r)
  next
    case (OnStepOutput m l)
    then have r: "results c1 = results c" using unchanged [OF c1(1)] by simp
    from Cons.IH [OF c1(2), of S C] Cons.prems(2,3) OnStepOutput show ?thesis by (simp add: r)
  next
    case (OnStepError m x)
    then have r: "results c1 = results c" using unchanged [OF c1(1)] by simp
    from Cons.IH [OF c1(2), of S C] Cons.prems(2,3) OnStepError show ?thesis by (simp add: r)
  qed
qed simp

end

interpretation ordered: result_collector Ordered_event Ordered_GetResults
proof
  show "reported (Ordered_GetResults c') = insert (n, st) (reported (Ordered_GetResults c))"
    if "Ordered_event (OnStepComplete n st msg d) c = Some c'" for n st msg d c c'
    using that by (auto simp: Ordered_GetResults_def reported_def mk_step_result_def split: option.splits)
  show "Ordered_GetResults c' = Ordered_GetResults c" if "Ordered_event e c = Some c'" "\<not> is_complete e" for e c c'
    using that by (cases e) (auto simp: Ordered_GetResults_def split: option.splits)
qed

lemma reported_put:
  "sr_StepName r \<notin> fst ` reported rs \<Longrightarrow> reported (put_result r rs) = insert (sr_StepName r, sr_Status r) (reported rs)"
  by (induction rs) (auto simp: reported_def)

interpretation single: result_collector "\<lambda>e c. Some (Simple_event e c)" Simple_GetResults
proof
  show "reported (Simple_GetResults c') = insert (n, st) (reported (Simple_GetResults c))"
    if "Some (Simple_event (OnStepComplete n st msg d) c) = Some c'"
      "n \<notin> fst ` reported (Simple_GetResults c)" for n st msg d c c'
  proof -
    have "c' = Simple_OnStepComplete n st msg d c" using that(1) by simp
    then have "sc_results c' = put_result (mk_step_result n st d) (sc_results c)"
      by (simp add: Simple_OnStepComplete_def Let_def)
    then show ?thesis using that(2) reported_put [of "mk_step_result n st d" "sc_results c"]
      by (simp add: Simple_GetResults_def mk_step_result_def)
  qed
  show "Simple_GetResults c' = Simple_GetResults c" if "Some (Simple_event e c) = Some c'" "\<not> is_complete e" for e c c'
    using that by (cases e) (auto simp: Simple_GetResults_def Simple_OnStepStart_def Simple_OnStepOutput_def)
qed

section \<open>The ordered callback over a run\<close>

fun completions :: "cb_event list \<Rightarrow> step_result list" where
  "completions [] = []"
| "completions (OnStepComplete n st msg d # es) = mk_step_result n st d # completions es"
| "completions (e # es) = completions es"

lemma Ordered_run_manager:
  "Manager_run es (oc_manager c) = Some m \<Longrightarrow>
     Ordered_run es c = Some (c\<lparr>oc_manager := m, oc_results := oc_results c @ completions es\<rparr>)"
proof (induction es arbitrary: c)
  case (Cons e es)
  then obtain m1 where m1: "Manager_event e (oc_manager c) = Some m1" "Manager_run es m1 = Some m"
    by (auto split: option.splits)
  then show ?case using Cons.IH [of "c\<lparr>oc_manager := m1\<rparr>"]
    Cons.IH [of "c\<lparr>oc_manager := m1, oc_results := oc_results c @ completions [e]\<rparr>"]
    by (cases e) simp_all
qed simp

lemma run_events_append:
  "run_events f (es @ fs) c = (case run_events f es c of None \<Rightarrow> None | Some c' \<Rightarrow> run_events f fs c')"
  by (induction es arbitrary: c) (auto split: option.split)

lemma Manager_run_append:
  "Manager_run (es @ fs) m = (case Manager_run es m of None \<Rightarrow> None | Some m' \<Rightarrow> Manager_run fs m')"
  by (induction es arbitrary: m) (auto split: option.split)

section \<open>The skipped steps\<close>

lemma getSkippedSteps_reported:
  assumes "GetStage c stageName = Some stg"
  shows "getSkippedSteps c stageName rs = map step_Action (filter (\<lambda>st. step_Action st \<notin> fst ` reported rs
     \<and> (\<exists>d \<in> set (step_Require st). (d, StepStatusError) \<in> reported rs)) (stage_Steps stg))"
proof -
  have "sr_StepName ` set rs = fst ` reported rs"
    by (simp add: reported_def image_image)
  moreover have "sr_StepName ` set (filter (\<lambda>r. sr_Status r = StepStatusError) rs)
      = {d. (d, StepStatusError) \<in> reported rs}"
    by (auto simp: reported_def)
  ultimately show ?thesis by (simp add: getSkippedSteps_def assms Let_def)
qed

text \<open>The setting of the following lemmas: a stage with distinct step names was run to the end.\<close>

definition finished_run :: "simple_runner \<Rightarrow> world \<Rightarrow> step list \<Rightarrow> dag \<Rightarrow> exec_state \<Rightarrow> bool" where
  "finished_run sr w steps dag s =
     (built (inner_runner sr) steps dag \<and> distinct (map step_Action steps)
      \<and> exec_reach (stage_env (inner_runner sr) w dag steps) s \<and> exec_finished s \<and> \<not> xs_cancelled s)"

lemma inner_runner_simps [simp]:
  "rn_config (inner_runner sr) = sn_config sr" "rn_registry (inner_runner sr) = Some (default_view (sn_sys sr))"
  "ro_StepCallback (rn_opts (inner_runner sr))" "rn_env (inner_runner sr) = sn_env sr"
  "ro_DryRun (rn_opts (inner_runner sr)) = so_DryRun (sn_opts sr)"
  "ro_Verbose (rn_opts (inner_runner sr)) = so_Verbose (sn_opts sr)"
  by (simp_all add: inner_runner_def NewRunner_def NewRunnerWithRegistry_def complex_options_def)

lemma finished_result:
  assumes "finished_run sr w steps dag s" "n \<in> step_Action ` set steps"
  obtains res where "final_result s n = Some res"
proof -
  have b: "built (inner_runner sr) steps dag" using assms(1) by (simp add: finished_run_def)
  then have "exec_inv (stage_env (inner_runner sr) w dag steps) s"
    using assms(1) exec_reach_inv built_keys by (simp add: finished_run_def)
  from final_result_total [OF this, of n] assms built_graph(2) [OF b] that show thesis
    by (auto simp: finished_run_def)
qed

lemma finished_trace_wf:
  assumes "finished_run sr w steps dag s"
  shows "wf_events (step_Action ` set steps) {} {} (proj n (xs_events s))"
    and "wf_events (step_Action ` set steps) {} {} (xs_events s)"
proof -
  have b: "built (inner_runner sr) steps dag" "exec_reach (stage_env (inner_runner sr) w dag steps) s"
    using assms by (simp_all add: finished_run_def)
  have k: "distinct (map fst (xe_dag (stage_env (inner_runner sr) w dag steps)))"
    "runs_ok (stage_env (inner_runner sr) w dag steps)"
    using built_keys [OF b(1)] stage_runs_ok [OF b(1)] by simp_all
  show "wf_events (step_Action ` set steps) {} {} (proj n (xs_events s))"
    "wf_events (step_Action ` set steps) {} {} (xs_events s)"
    using trace_wf_proj [OF b(2) k] trace_wf [OF b(2) k] built_graph(2) [OF b(1)] by simp_all
qed

lemma finished_told:
  assumes "finished_run sr w steps dag s" "final_result s n = Some res"
  shows "status_of n (xs_events s)
     = (if failed_deps (stage_env (inner_runner sr) w dag steps) s n \<noteq> [] then None
        else Some (step_status_of (res_Status res)))"
  using assms by (intro final_told) (auto simp: finished_run_def)

lemma finished_reported:
  assumes "finished_run sr w steps dag s" "Ordered_run (xs_events s) (stage_callback sr steps) = Some cb"
  shows "reported (Ordered_GetResults cb) = {(n, st). status_of n (xs_events s) = Some st}"
proof -
  have "Ordered_GetResults (stage_callback sr steps) = []"
    by (simp add: stage_callback_def Ordered_GetResults_def NewOrderedStepCallback_def)
  with ordered.collected [OF assms(2) finished_trace_wf(2) [OF assms(1)]] show ?thesis
    by (simp add: reported_def)
qed

lemma fst_graph: "fst ` {(n, st). f n = Some st} = {n. f n \<noteq> None}"
  by force

lemma status_of_None: "wf_events N S C es \<Longrightarrow> n \<notin> N \<Longrightarrow> status_of n es = None"
proof (induction es arbitrary: S C)
  case (Cons e es)
  then show ?case by (cases e) auto
qed simp

lemma skipped_steps:
  assumes "finished_run sr w steps dag s" "GetStage (sn_config sr) stageName = Some stg" "steps = stage_Steps stg"
    and "Ordered_run (xs_events s) (stage_callback sr steps) = Some cb"
  shows "getSkippedSteps (sn_config sr) stageName (Ordered_GetResults cb)
     = filter (\<lambda>n. failed_deps (stage_env (inner_runner sr) w dag steps) s n \<noteq> []) (map step_Action steps)"
proof -
  let ?E = "stage_env (inner_runner sr) w dag steps"
  have b: "built (inner_runner sr) steps dag" "distinct (map step_Action steps)"
    using assms(1) by (simp_all add: finished_run_def)
  have failed: "status_of d (xs_events s) = Some StepStatusError \<longleftrightarrow>
      (\<exists>q. final_result s d = Some q \<and> res_Status q = StatusError)" if d: "d \<in> step_Action ` set steps" for d
  proof -
    obtain q where q: "final_result s d = Some q" by (rule finished_result [OF assms(1) d])
    have "failed_deps ?E s d \<noteq> [] \<Longrightarrow> res_Status q = StatusSkipped"
      using result_cases [of ?E s d q] q exec_reach_inv [of ?E s] built_keys [OF b(1)] assms(1)
      by (auto simp: finished_run_def skip_dep_result_def mk_result_def)
    with q finished_told [OF assms(1) q] show ?thesis by auto
  qed
  have "(step_Action st \<notin> fst ` reported (Ordered_GetResults cb)
        \<and> (\<exists>d \<in> set (step_Require st). (d, StepStatusError) \<in> reported (Ordered_GetResults cb)))
      \<longleftrightarrow> failed_deps ?E s (step_Action st) \<noteq> []" if st: "st \<in> set steps" for st
  proof -
    have "step_Action st \<in> step_Action ` set steps" using st by simp
    then obtain q where q: "final_result s (step_Action st) = Some q" by (rule finished_result [OF assms(1)])
    have unheard: "step_Action st \<notin> fst ` reported (Ordered_GetResults cb) \<longleftrightarrow> failed_deps ?E s (step_Action st) \<noteq> []"
      unfolding finished_reported [OF assms(1,4)] fst_graph using finished_told [OF assms(1) q] by simp
    have deps: "dag_deps dag (step_Action st) = step_Require st" by (rule built_deps [OF b st])
    have "d \<in> step_Action ` set steps" if "d \<in> set (step_Require st)" for d
    proof -
      have "set (dag_deps dag (step_Action st)) \<subseteq> dag_names dag"
        using built_graph(1) [OF b(1)] unfolding graph_ok_def dag_closed_def by blast
      then have "d \<in> dag_names dag" using that deps by auto
      then show ?thesis unfolding built_graph(2) [OF b(1)] .
    qed
    then have "(\<exists>d \<in> set (step_Require st). (d, StepStatusError) \<in> reported (Ordered_GetResults cb))
       \<longleftrightarrow> failed_deps ?E s (step_Action st) \<noteq> []"
      unfolding finished_reported [OF assms(1,4)] failed_deps_def using failed
      by (auto simp: deps filter_empty_conv)
    with unheard show ?thesis by blast
  qed
  then have "filter (\<lambda>st. step_Action st \<notin> fst ` reported (Ordered_GetResults cb)
        \<and> (\<exists>d \<in> set (step_Require st). (d, StepStatusError) \<in> reported (Ordered_GetResults cb))) steps
      = filter (\<lambda>st. failed_deps ?E s (step_Action st) \<noteq> []) steps"
    by (intro filter_cong) auto
  then show ?thesis
    unfolding getSkippedSteps_reported [OF assms(2)] assms(3) [symmetric] by (simp add: filter_map o_def)
qed


section \<open>The screen of a stage\<close>

lemma trace_outside:
  assumes "exec_reach E s" "distinct (map fst (xe_dag E))" "runs_ok E" "n \<notin> dag_names (xe_dag E)"
  shows "proj n (xs_events s) = []"
proof -
  have "n \<notin> started s"
    using exec_inv_parts(5) [OF exec_reach_inv [OF assms(1,2)]] assms(4) by (auto simp: started_def)
  then show ?thesis using trace_inv_reach [OF assms(1-3)] by (simp add: trace_inv_def)
qed

text \<open>The block of a step, from its result and its run: the start line, the lines its command sent
  if it was run (in verbose mode), the result line with the status of its result.\<close>

definition run_lines :: "exec_env \<Rightarrow> exec_state \<Rightarrow> string \<Rightarrow> string list" where
  "run_lines E s n =
     (if failed_deps E s n = [] \<and> xe_should E n = Some True
      then (case xe_run E n of None \<Rightarrow> [] | Some run \<Rightarrow> outputs_of n (ar_events run)) else [])"

definition stage_block :: "bool \<Rightarrow> exec_env \<Rightarrow> exec_state \<Rightarrow> string \<Rightarrow> display list" where
  "stage_block v E s n =
     ShowStart n # (if v then map ShowOutput (run_lines E s n) else [])
       @ [ShowResult n (step_status_of (res_Status (the (final_result s n)))) []]"

lemma proj_skip_events:
  assumes "distinct ns"
  shows "proj n (skip_events ns) = (if n \<in> set ns
    then [OnStepStart n, OnStepComplete n StepStatusSkipped ''skipped (dependency failed)'' 0] else [])"
  using assms by (induction ns) (auto simp: skip_events_def)

lemma outputs_of_append [simp]: "outputs_of n (es @ fs) = outputs_of n es @ outputs_of n fs"
proof (induction es)
  case (Cons e es)
  then show ?case by (cases e) auto
qed simp

text \<open>The calls about one step, those after the run included.\<close>

lemma step_calls:
  assumes "finished_run sr w steps dag s" "no_late (stage_env (inner_runner sr) w dag steps)"
    and "n \<in> step_Action ` set steps"
    and "sk = filter (\<lambda>n. failed_deps (stage_env (inner_runner sr) w dag steps) s n \<noteq> []) (map step_Action steps)"
    and "p = proj n (xs_events s @ skip_events sk)"
  shows "wf_events (step_Action ` set steps) {} {} p \<and> prompt {} p
    \<and> status_of n p = Some (step_status_of (res_Status (the (final_result s n))))
    \<and> outputs_of n p = run_lines (stage_env (inner_runner sr) w dag steps) s n
    \<and> settled (res_Status (the (final_result s n)))"
proof -
  let ?r = "inner_runner sr"
  let ?E = "stage_env ?r w dag steps"
  have b: "built ?r steps dag" "exec_reach ?E s" "\<not> xs_cancelled s" "distinct (map step_Action steps)"
    using assms(1) by (simp_all add: finished_run_def)
  obtain res where res: "final_result s n = Some res" by (rule finished_result [OF assms(1,3)])
  have "distinct sk" using b(4) assms(4) by simp
  then have p: "p = proj n (xs_events s) @ (if failed_deps ?E s n \<noteq> []
      then [OnStepStart n, OnStepComplete n StepStatusSkipped ''skipped (dependency failed)'' 0] else [])"
    using assms(3-5) by (simp add: proj_skip_events)
  note wf = finished_trace_wf(1) [OF assms(1), of n]
  show ?thesis
  proof (rule final_trace [OF b(1) inner_runner_simps(2,3) b(2,3) res])
    assume d: "failed_deps ?E s n \<noteq> []" "proj n (xs_events s) = []" "res = skip_dep_result n (failed_deps ?E s n)"
    then show ?thesis using p res assms(3)
      by (simp add: run_lines_def skip_dep_result_def mk_result_def settled_def)
  next
    assume c: "failed_deps ?E s n = []" "node_should ?r dag n = Some False"
      "proj n (xs_events s) = cond_events ?E n" "res = skip_cond_result n"
    then show ?thesis using p res assms(3)
      by (simp add: run_lines_def cond_events_def skip_cond_result_def mk_result_def settled_def)
  next
    fix run zs
    assume a: "failed_deps ?E s n = []" "node_should ?r dag n = Some True" "node_run ?r w dag steps n = Some run"
      "proj n (xs_events s) = ar_events run @ zs" "ar_late run = [] \<Longrightarrow> zs = []"
      "res_Status res = res_Status (ar_result run)"
    then have ev: "p = ar_events run" "p = proj n (xs_events s)"
      using p assms(2) by (auto simp: no_late_def)
    have "run_shape n run" using stage_runs_ok [OF b(1) inner_runner_simps(3)] a(3) by (simp add: runs_ok_def)
    then have "prompt {} p" using prompt_run ev(1) by simp
    moreover have "status_of n p = Some (step_status_of (res_Status res))"
      using node_run_told(1) [OF b(1) inner_runner_simps(2,3) a(3)] ev(1) a(6) by simp
    moreover have "outputs_of n p = run_lines ?E s n" using a(1-3) ev(1) by (simp add: run_lines_def)
    moreover have "settled (res_Status res)"
      using node_run_told(4) [OF b(1) inner_runner_simps(2,3) a(3)] a(6) by simp
    ultimately show ?thesis using wf ev(2) res by simp
  qed
qed

lemma stage_screen:
  assumes "finished_run sr w steps dag s" "no_late (stage_env (inner_runner sr) w dag steps)"
    and "[] \<notin> step_Action ` set steps"
    and "sk = filter (\<lambda>n. failed_deps (stage_env (inner_runner sr) w dag steps) s n \<noteq> []) (map step_Action steps)"
  obtains m where "Manager_run (xs_events s @ skip_events sk) (oc_manager (stage_callback sr steps)) = Some m"
    "visible m = concat (map (stage_block (so_Verbose (sn_opts sr)) (stage_env (inner_runner sr) w dag steps) s)
       (map step_Action steps))"
    "wf_events (step_Action ` set steps) {} {} (xs_events s @ skip_events sk)"
    "\<And>n. n \<in> step_Action ` set steps \<Longrightarrow> \<exists>st. settled st
       \<and> status_of n (xs_events s @ skip_events sk) = Some (step_status_of st)"
proof -
  let ?E = "stage_env (inner_runner sr) w dag steps" and ?es = "xs_events s @ skip_events sk"
  let ?N = "step_Action ` set steps"
  have calls: "wf_events ?N {} {} (proj n ?es) \<and> prompt {} (proj n ?es)
    \<and> status_of n ?es = Some (step_status_of (res_Status (the (final_result s n))))
    \<and> outputs_of n ?es = run_lines ?E s n \<and> settled (res_Status (the (final_result s n)))" if "n \<in> ?N" for n
    using step_calls [OF assms(1,2) that assms(4) refl] status_of_proj [of n ?es] outputs_of_proj [of n ?es] by simp
  have none: "proj n ?es = []" if "n \<notin> ?N" for n
  proof -
    have b: "built (inner_runner sr) steps dag" "exec_reach ?E s" "distinct (map step_Action steps)"
      using assms(1) by (simp_all add: finished_run_def)
    have "n \<notin> dag_names (xe_dag ?E)" using that built_graph(2) [OF b(1)] by simp
    then have "proj n (xs_events s) = []"
      using trace_outside [OF b(2)] built_keys [OF b(1)] stage_runs_ok [OF b(1) inner_runner_simps(3)] by simp
    moreover have "distinct sk" "n \<notin> set sk" using assms(4) b(3) that by auto
    ultimately show ?thesis by (simp add: proj_skip_events)
  qed
  have wf: "wf_events ?N {} {} ?es" by (rule wf_events_proj) (metis calls none wf_events.simps(1))
  have pr: "prompt {} ?es"
  proof (rule prompt_proj)
    show "prompt ({} \<inter> {n}) (proj n ?es)" for n by (cases "n \<in> ?N") (simp_all add: calls none del: proj_simps)
  qed
  have dist: "distinct (map step_Action steps)" using assms(1) by (simp add: finished_run_def)
  have "\<forall>st \<in> set steps. status_of (step_Action st) ?es \<noteq> None" using calls by simp
  from complete_display [OF dist assms(3) wf pr this, of "so_Verbose (sn_opts sr)" "so_Debug (sn_opts sr)"
      "Some (sn_config sr)"]
  obtain m where m: "Manager_run ?es (oc_manager (stage_callback sr steps)) = Some m"
    "visible m = concat (map (full_block (so_Verbose (sn_opts sr)) ?es) (map step_Action steps))"
    by (auto simp: stage_callback_def)
  have "full_block (so_Verbose (sn_opts sr)) ?es n = stage_block (so_Verbose (sn_opts sr)) ?E s n" if "n \<in> ?N" for n
    using calls [OF that] by (simp add: full_block_def stage_block_def)
  then have eq: "map (full_block (so_Verbose (sn_opts sr)) ?es) (map step_Action steps)
      = map (stage_block (so_Verbose (sn_opts sr)) ?E s) (map step_Action steps)" by simp
  show thesis
  proof (rule that [OF m(1) _ wf])
    show "visible m = concat (map (stage_block (so_Verbose (sn_opts sr)) ?E s) (map step_Action steps))"
      by (simp only: m(2) eq)
    show "\<exists>st. settled st \<and> status_of n ?es = Some (step_status_of st)" if "n \<in> ?N" for n
      using calls [OF that] by blast
  qed
qed

lemma completions_wf:
  "wf_events N S C es \<Longrightarrow> distinct (map sr_StepName (completions es))
     \<and> sr_StepName ` set (completions es) \<inter> C = {}
     \<and> (\<forall>r \<in> set (completions es). status_of (sr_StepName r) es = Some (sr_Status r))
     \<and> (\<forall>n. n \<in> sr_StepName ` set (completions es) \<longleftrightarrow> status_of n es \<noteq> None)"
proof (induction es arbitrary: S C)
  case (Cons e es)
  show ?case
  proof (cases e)
    case (OnStepComplete m st msg d)
    with Cons.IH [of S "insert m C"] Cons.prems show ?thesis by (auto simp: mk_step_result_def)
  next
    case (OnStepStart m)
    with Cons.IH [of "insert m S" C] Cons.prems show ?thesis by auto
  next
    case (OnStepOutput m l)
    with Cons.IH [of S C] Cons.prems show ?thesis by auto
  next
    case (OnStepError m x)
    with Cons.IH [of S C] Cons.prems show ?thesis by auto
  qed
qed simp

lemma statusCounts_total:
  "\<forall>r \<in> set rs. sr_Status r \<in> set statusOrder \<Longrightarrow> sum_list (map (statusCounts rs) statusOrder) = length rs"
  by (induction rs) (auto simp: statusOrder_def statusCounts_def)

lemma settled_in_order: "settled st \<Longrightarrow> step_status_of st \<in> set statusOrder"
  by (cases st) (simp_all add: settled_def statusOrder_def)

lemma Ordered_new: "oc_results (stage_callback sr steps) = []"
  by (simp add: stage_callback_def NewOrderedStepCallback_def)

text \<open>Everything \<open>SimpleRunner.RunStage\<close> does after the inner run.\<close>

lemma stage_shown:
  assumes "finished_run sr w steps dag s" "no_late (stage_env (inner_runner sr) w dag steps)"
    and "[] \<notin> step_Action ` set steps" "GetStage (sn_config sr) stageName = Some stg" "steps = stage_Steps stg"
  obtains cb cb' where "Ordered_run (xs_events s) (stage_callback sr steps) = Some cb"
    "Ordered_run (skip_events (getSkippedSteps (sn_config sr) stageName (Ordered_GetResults cb))) cb = Some cb'"
    "visible (oc_manager cb') = concat (map (stage_block (so_Verbose (sn_opts sr))
       (stage_env (inner_runner sr) w dag steps) s) (map step_Action steps))"
    "sum_list (map (statusCounts (Ordered_GetResults cb')) statusOrder) = length steps"
proof -
  define sk where "sk = filter (\<lambda>n. failed_deps (stage_env (inner_runner sr) w dag steps) s n \<noteq> [])
      (map step_Action steps)"
  let ?es = "xs_events s @ skip_events sk" and ?c = "stage_callback sr steps" and ?N = "step_Action ` set steps"
  obtain m where m: "Manager_run ?es (oc_manager ?c) = Some m"
    "visible m = concat (map (stage_block (so_Verbose (sn_opts sr))
       (stage_env (inner_runner sr) w dag steps) s) (map step_Action steps))"
    "wf_events ?N {} {} ?es"
    "\<And>n. n \<in> ?N \<Longrightarrow> \<exists>st. settled st \<and> status_of n ?es = Some (step_status_of st)"
    using stage_screen [OF assms(1-3) sk_def] by blast
  obtain m1 where m1: "Manager_run (xs_events s) (oc_manager ?c) = Some m1"
    using m(1) by (auto simp: Manager_run_append split: option.splits)
  define cb where "cb = ?c\<lparr>oc_manager := m1, oc_results := completions (xs_events s)\<rparr>"
  define cb' where "cb' = ?c\<lparr>oc_manager := m, oc_results := completions ?es\<rparr>"
  have run: "Ordered_run (xs_events s) ?c = Some cb" "Ordered_run ?es ?c = Some cb'"
    using Ordered_run_manager [OF m1] Ordered_run_manager [OF m(1)]
    by (simp_all add: cb_def cb'_def Ordered_new del: run_events.simps)
  have sk: "getSkippedSteps (sn_config sr) stageName (Ordered_GetResults cb) = sk"
    using skipped_steps [OF assms(1,4,5) run(1)] by (simp add: sk_def)
  have "Ordered_run (skip_events sk) cb = Some cb'" using run by (simp add: run_events_append)
  moreover have "sum_list (map (statusCounts (completions ?es)) statusOrder) = length steps"
  proof -
    note cw = completions_wf [OF m(3)]
    have names: "sr_StepName ` set (completions ?es) = ?N"
    proof (rule set_eqI)
      fix n
      have "n \<in> sr_StepName ` set (completions ?es) \<longleftrightarrow> status_of n ?es \<noteq> None" using cw by blast
      then show "n \<in> sr_StepName ` set (completions ?es) \<longleftrightarrow> n \<in> ?N"
        using m(4) [of n] status_of_None [OF m(3), of n] by (cases "n \<in> ?N") auto
    qed
    have "sr_Status r \<in> set statusOrder" if r: "r \<in> set (completions ?es)" for r
    proof -
      have "sr_StepName r \<in> ?N" using r names by blast
      then obtain st where "settled st" "status_of (sr_StepName r) ?es = Some (step_status_of st)"
        using m(4) by blast
      moreover have "status_of (sr_StepName r) ?es = Some (sr_Status r)" using cw r by blast
      ultimately show ?thesis using settled_in_order [of st] by simp
    qed
    then have "sum_list (map (statusCounts (completions ?es)) statusOrder) = length (completions ?es)"
      by (intro statusCounts_total) blast
    also have "\<dots> = card (set (map sr_StepName (completions ?es)))"
      using cw by (metis distinct_card length_map)
    also have "\<dots> = card (set (map step_Action steps))" using names by simp
    also have "\<dots> = length steps"
      using assms(1) distinct_card [of "map step_Action steps"] by (simp add: finished_run_def)
    finally show ?thesis .
  qed
  ultimately show thesis
    using that [OF run(1)] m(2) sk by (simp add: cb'_def Ordered_GetResults_def)
qed

section \<open>Properties\<close>

lemma inner_late: "(\<And>n cmd. po_late (w_proc w n cmd) = []) \<Longrightarrow> ar_late (inner_run r w a) = []"
  unfolding inner_run_def runBuiltInActionForDAG_def runCustomActionForDAG_def failed_run_def Let_def
    executeCommandWithStreaming_def buffered_run_def out_events_def
  by (auto split: option.splits sum.splits prod.splits)

lemma world_no_late:
  assumes "\<And>n cmd. po_late (w_proc w n cmd) = []"
  shows "no_late (stage_env r w dag steps)"
  unfolding no_late_def stage_env_simps
proof (intro allI impI)
  fix n run assume "node_run r w dag steps n = Some run"
  then obtain a st where "executeActionForDAGWithCallback r w a st = Some run"
    by (auto simp: node_run_def split: option.splits)
  then show "ar_late run = []" by (cases rule: node_run_cases) (simp_all add: inner_late [OF assms])
qed

lemma finished_runI:
  assumes "range_order lo" "range_order co" "distinct (map step_Action steps)" "\<not> xs_cancelled s"
    and "executeStageWithCallback (inner_runner sr) w lo co steps (Finished s warnings err)"
  obtains dag where "buildDAG (sn_config sr) lo co steps = Ok dag" "finished_run sr w steps dag s"
proof -
  obtain dag where dag: "buildDAG (sn_config sr) lo co steps = Ok dag"
    "exec_reach (stage_env (inner_runner sr) w dag steps) s" "exec_finished s"
    using assms(5) by (auto elim: executeStageWithCallback.cases)
  then have "built (inner_runner sr) steps dag" using assms(1,2) by (auto simp: built_def)
  with dag assms(3,4) show thesis using that [OF dag(1)] by (simp add: finished_run_def)
qed


text \<open>The stage of \<open>Stage_Correct\<close> with the simple runner.\<close>

definition three_simple :: simple_runner where
  "three_simple =
     \<lparr>sn_config = three_config,
      sn_opts = \<lparr>so_ConfigPath = [], so_MaxParallel = 1, so_Verbose = False, so_Debug = False,
        so_DryRun = False, so_Variables = Some [''bin'' \<mapsto> ''app''], so_WorkingDir = ''.'', so_Only = [],
        so_WithRequires = False\<rparr>,
      sn_registry = default_view (status_sys []), sn_env = sample_env, sn_goos = ''linux'',
      sn_lookpath = (\<lambda>_. True), sn_sys = status_sys []\<rparr>"

lemma three_inner: "inner_runner three_simple = three_runner"
  by (simp add: inner_runner_def three_simple_def NewRunner_def NewRunnerWithRegistry_def
      complex_options_def three_runner_def sample_runner_def)

lemma three_setting:
  "GetStage (sn_config three_simple) ''s'' = Some \<lparr>stage_Steps = three_steps\<rparr>"
  "distinct (map step_Action (stage_Steps \<lparr>stage_Steps = three_steps\<rparr>))"
  "[] \<notin> step_Action ` set (stage_Steps \<lparr>stage_Steps = three_steps\<rparr>)"
  "\<not> so_DryRun (sn_opts three_simple)" "po_late (w_proc sample_world n cmd) = []"
  by (simp_all add: three_simple_def three_config_def GetStage_def three_steps_def plain_step_def sample_world_def)




end
