(* ===== verification/Cli_Correct.thy ===== *)
theory Cli_Correct
  imports Cli_Run Simple_Correct
begin

text \<open>
  The exit status of the command line: what it says about the run of a stage, across the command
  line, the simple runner, the stage runner and the executor, and about configuration errors.
\<close>

inductive_cases runStageDirectE: "runStageDirect env fl args run"
inductive_cases runRootE: "runRoot env fl (name # rest) run"
inductive_cases Simple_RunStageE: "Simple_RunStage sr w lo co stageName out"

lemma ended_status [simp]: "exit_status (cr_end (ended out sh f err)) = (if err = None then 0 else 1)"
  by (cases err) (simp_all add: ended_def)

lemma load_failure_status [simp]: "exit_status (cr_end (load_failure env fl wrap e)) = 1"
  by (simp add: load_failure_def quiet_run_def)

lemma load_failure_out [simp]: "cr_out (load_failure env fl wrap e) = []"
  by (simp add: load_failure_def quiet_run_def)

lemma inner_flags [simp]:
  "ro_StepCallback (rn_opts (inner_runner sr))" "ro_DryRun (rn_opts (inner_runner sr)) = so_DryRun (sn_opts sr)"
  "rn_config (inner_runner sr) = sn_config sr"
  by (simp_all add: inner_runner_def NewRunner_def NewRunnerWithRegistry_def complex_options_def)

lemma cli_runner_simps [simp]:
  "sn_config (cli_runner env fl b cfg) = cfg" "so_DryRun (sn_opts (cli_runner env fl b cfg)) = fl_dryRun fl"
  by (simp_all add: cli_runner_def NewSimpleRunner_def cli_options_def)

text \<open>A stage that is really run is run by the executor with callbacks.\<close>

lemma inner_stage:
  assumes "RunStage r w lo co n out" "GetStage (rn_config r) n = Some stg"
    and "ro_StepCallback (rn_opts r)" "\<not> ro_DryRun (rn_opts r)"
  shows "executeStageWithCallback r w lo co (stage_Steps stg) out"
  using assms(1)
proof (cases rule: RunStage.cases)
  case (known stg')
  then show ?thesis using assms(2-4) by (auto elim: runStageInternal.cases)
qed (use assms(2) in simp)

lemma finished_error:
  assumes "executeStageWithCallback r w lo co steps (Finished s ws err)"
  shows "err = None \<longleftrightarrow> \<not> xs_cancelled s
    \<and> (\<forall>res \<in> set (xs_results s). res_Status res = StatusError \<longrightarrow> tolerated steps (res_Name res))"
  using assms
proof (cases rule: executeStageWithCallback.cases)
  case (executed dag policy)
  then show ?thesis using check_results_cases [where r = r and steps = steps and rs = "xs_results s"]
    by (cases policy) (auto simp: stage_error_def)
qed

fun stage_passed :: "step list \<Rightarrow> stage_outcome \<Rightarrow> bool" where
  "stage_passed steps (Finished s ws err) =
     (\<not> xs_cancelled s
      \<and> (\<forall>res \<in> set (xs_results s). res_Status res = StatusError \<longrightarrow> tolerated steps (res_Name res)))"
| "stage_passed steps out = False"

lemma stage_passed_error:
  "executeStageWithCallback r w lo co steps out \<Longrightarrow> outcome_error out = None \<longleftrightarrow> stage_passed steps out"
  by (cases out) (auto dest: finished_error elim: executeStageWithCallback.cases)

section \<open>Properties\<close>


text \<open>Every failure to load or validate the configuration ends with the status 1, and nothing is
  printed to the standard output.\<close>

theorem config_error_status:
  assumes "runRoot env fl (name # rest) run" "cli_load env fl = Some (Inl e)"
    and "\<not> fl_version fl" "\<not> fl_versionOnly fl"
  shows "exit_status (cr_end run) = 1 \<and> cr_out run = []"
  using assms(1)
proof (cases rule: runRoot.cases)
  case (root_unloaded e')
  from root_unloaded(5) show ?thesis
    by (cases rule: runStageDirect.cases) (use assms(2) in simp_all)
qed (use assms in simp_all)

text \<open>A project whose stage \<open>ci\<close> requires a step that does not exist, and a missing project file.\<close>

definition sample_flags :: cli_flags where
  "sample_flags =
     \<lparr>fl_verbose = True, fl_quiet = False, fl_debug = False, fl_dryRun = False, fl_configPath = ''project.yml'',
      fl_maxParallel = 0, fl_workingDir = ''.'', fl_only = [], fl_withRequires = False, fl_env = [''CI=1''],
      fl_graph = False, fl_version = False, fl_versionOnly = False\<rparr>"

definition sample_cli :: "stat_result \<Rightarrow> cli_env" where
  "sample_cli st =
     \<lparr>ce_files = \<lparr>fe_stat = (\<lambda>_. st), fe_read = (\<lambda>_. Inr []), fe_glob = (\<lambda>_. Inr []),
        fe_yaml = (\<lambda>_. Inr (two_step_config ''lint''))\<rparr>,
      ce_fuel = 0, ce_ord = cfg_Stages, ce_go = sample_env, ce_goos = ''linux'', ce_lookpath = (\<lambda>_. True),
      ce_ncpu = 4, ce_sys = status_sys [], ce_world = sample_world, ce_lo = map fst, ce_co = map fst,
      ce_appVersion = []\<rparr>"

definition lint_config :: config where
  "lint_config = (two_step_config ''lint'')\<lparr>proj_BinDir := ''.''\<rparr>"

lemma sample_loads: "cli_load (sample_cli Present) sample_flags = Some (Inr lint_config)"
  by code_simp

lemma sample_missing: "cli_load (sample_cli Missing) sample_flags = Some (Inl (ConfigNotFound ''project.yml''))"
  by code_simp

definition lint_stage :: stage where
  "lint_stage = \<lparr>stage_Steps = [plain_step ''build'' [], plain_step ''test'' [''lint'']]\<rparr>"

lemma lint_stage: "GetStage lint_config ''ci'' = Some lint_stage"
  by code_simp

lemma sample_stage_run: "\<exists>run. runStageDirect (sample_cli Present) sample_flags [''ci''] run"
proof -
  let ?sr = "cli_runner (sample_cli Present) sample_flags (fl_withRequires sample_flags) lint_config"
  let ?e = "BuildDAGFailed (DependencyNotFound ''lint'')"
  have fl: "ce_lo (sample_cli Present) = map fst" "ce_co (sample_cli Present) = map fst" "\<not> fl_dryRun sample_flags"
    by (simp_all add: sample_cli_def sample_flags_def)
  have g: "buildDAG (rn_config (inner_runner ?sr)) (map fst) (map fst) (stage_Steps lint_stage)
      = Err (DependencyNotFound ''lint'')"
    by simp code_simp
  have "RunStage (inner_runner ?sr) (ce_world (sample_cli Present)) (map fst) (map fst) ''ci'' (Refused ?e)"
    by (rule RunStage.known [OF _ runStageInternal.callback [OF _ _ executeStageWithCallback.no_graph [OF g]]])
      (simp_all add: lint_stage fl(3))
  note inner = this
  have skip: "getSkippedSteps lint_config ''ci'' (Ordered_GetResults (stage_callback ?sr (stage_Steps lint_stage))) = []"
    unfolding getSkippedSteps_def lint_stage option.case
    by (simp add: Let_def stage_callback_def NewOrderedStepCallback_def Ordered_GetResults_def)
  note run = Simple_RunStage.simple_run [where sr = ?sr, OF _ _ inner, where terminated = False and d = 0
      and skipped = "[]" and cb = "stage_callback ?sr (stage_Steps lint_stage)"
      and cb' = "stage_callback ?sr (stage_Steps lint_stage)" and stg = lint_stage]
  have "\<exists>out. Simple_RunStage ?sr (ce_world (sample_cli Present)) (map fst) (map fst) ''ci'' out"
    by (rule exI, rule run) (simp_all add: lint_stage skip fl(3) skip_events_def)
  then obtain out where "Simple_RunStage ?sr (ce_world (sample_cli Present)) (ce_lo (sample_cli Present))
      (ce_co (sample_cli Present)) ''ci'' out"
    using fl by auto
  from runStageDirect.whole_stage [OF sample_loads _ this, of "[]"] show ?thesis by auto
qed


theorem config_error_status_witness:
  "\<exists>run. runRoot (sample_cli Missing) sample_flags [''ci''] run \<and> exit_status (cr_end run) = 1"
proof -
  have v: "\<not> fl_version sample_flags" "\<not> fl_versionOnly sample_flags" by (simp_all add: sample_flags_def)
  have "\<not> is_validation_error (error_text (ConfigNotFound ''project.yml''))" by code_simp
  then have r: "runRoot (sample_cli Missing) sample_flags [''ci'']
      (load_failure (sample_cli Missing) sample_flags LoadFailed (ConfigNotFound ''project.yml''))"
    using v sample_missing runStageDirect.stage_load_error [OF sample_missing]
    by (intro runRoot.root_unloaded)
  show ?thesis using config_error_status [OF r sample_missing v] r by blast
qed

text \<open>The line of a validation error is looked for from the first section named \<open>build\<close> or
  \<open>test\<close>, whatever the stage: here the step without an action is in line 6, and line 3 is named.\<close>

lemma wrong_line_named:
  "enhanceValidationError
     (ce_files (sample_cli Present)\<lparr>fe_read := (\<lambda>_. Inr (join_str [newline]
        [''stages:'', ''  build:'', ''    - action: compile'', ''  deploy:'', ''    steps:'', ''    - if: x'']))\<rparr>)
     ''project.yml'' (error_text (StepNoAction 1 ''deploy''))
   = ''project.yml:3: step 1 in stage deploy must have an action''"
  by code_simp

end
