(* ===== verification/Cli_Commands.thy ===== *)
theory Cli_Commands
  imports Cli_Correct "HOL-Library.Multiset"
begin

text \<open>
  The commands \<open>main\<close> of \<open>cmd/buildfab/main.go\<close> adds, the defaults of its flags, and the exit
  status of the program. Parsing the line, choosing the command and checking the number of its
  arguments is the library cobra: \<open>accepts\<close> stands for the check.
\<close>

section \<open>The table of commands\<close>

text \<open>\<open>NoArgsRule\<close> is a command without the field \<open>Args\<close>.\<close>

datatype args_rule = ArbitraryArgs | RangeArgs nat nat | ExactArgs nat | NoArgsRule

text \<open>The function in \<open>RunE\<close>.\<close>

datatype handler =
    HRoot | HStage | HAction | HListActions | HValidate | HListStages | HListSteps

record cli_command =
  cc_Use :: string
  cc_Short :: string
  cc_Long :: string
  cc_Args :: args_rule
  cc_RunE :: handler

definition rootCmd :: cli_command where
  "rootCmd =
     \<lparr>cc_Use = ''buildfab [flags] [stage]'', cc_Short = ''Buildfab CLI tool for project automation'',
      cc_Long = join_str [newline]
        [''buildfab is a Go-based runner for project automations defined in a YAML file.'',
         ''It executes stages composed of steps (actions), supports parallel and sequential'',
         ''execution via dependencies, and provides a library API for embedding.'', [],
         ''When no command is specified, the first argument is treated as a stage name for the run command.'',
         ''For example: buildfab pre-push is equivalent to buildfab run pre-push''],
      cc_Args = ArbitraryArgs, cc_RunE = HRoot\<rparr>"

definition runCmd :: cli_command where
  "runCmd =
     \<lparr>cc_Use = ''run <stage> [step]'', cc_Short = ''Run a stage or specific step'',
      cc_Long = join_str [newline]
        [''Run a stage or specific step from the project configuration.'',
         ''If a step is specified, only that step will be run (with dependencies if --with-requires is set).''],
      cc_Args = RangeArgs 1 2, cc_RunE = HStage\<rparr>"

definition actionCmd :: cli_command where
  "actionCmd =
     \<lparr>cc_Use = ''action <action>'', cc_Short = ''Run a standalone action'',
      cc_Long = ''Run a standalone action directly without stage context.'',
      cc_Args = ExactArgs 1, cc_RunE = HAction\<rparr>"

definition listActionsCmd :: cli_command where
  "listActionsCmd =
     \<lparr>cc_Use = ''list-actions'', cc_Short = ''List available built-in actions'',
      cc_Long = ''List all available built-in actions that can be used in the 'uses' field.'',
      cc_Args = NoArgsRule, cc_RunE = HListActions\<rparr>"

definition validateCmd :: cli_command where
  "validateCmd =
     \<lparr>cc_Use = ''validate'', cc_Short = ''Validate project configuration'',
      cc_Long = ''Validate the project.yml configuration file for errors.'',
      cc_Args = NoArgsRule, cc_RunE = HValidate\<rparr>"

definition listStagesCmd :: cli_command where
  "listStagesCmd =
     \<lparr>cc_Use = ''list-stages'', cc_Short = ''List defined stages in project configuration'',
      cc_Long = ''List all stages defined in the project configuration file.'',
      cc_Args = NoArgsRule, cc_RunE = HListStages\<rparr>"

definition listStepsCmd :: cli_command where
  "listStepsCmd =
     \<lparr>cc_Use = ''list-steps <stage>'', cc_Short = ''List steps for a specific stage'',
      cc_Long = ''List all steps defined for a specific stage in the project configuration.'',
      cc_Args = ExactArgs 1, cc_RunE = HListSteps\<rparr>"

definition commands :: "cli_command list" where
  "commands = [rootCmd, runCmd, actionCmd, listActionsCmd, listStagesCmd, listStepsCmd, validateCmd]"

text \<open>What the flags are when the line does not set them.\<close>

definition default_flags :: cli_flags where
  "default_flags =
     \<lparr>fl_verbose = True, fl_quiet = False, fl_debug = False, fl_dryRun = False, fl_configPath = ''.project.yml'',
      fl_maxParallel = 0, fl_workingDir = ''.'', fl_only = [], fl_withRequires = False, fl_env = [],
      fl_graph = False, fl_version = False, fl_versionOnly = False\<rparr>"

section \<open>Running a command\<close>

text \<open>
  The functions in \<open>RunE\<close>; \<open>runStage\<close> and \<open>runAction\<close> only call the direct ones. The two
  listings range over a map in any order.
\<close>

inductive run_command :: "cli_env \<Rightarrow> cli_flags \<Rightarrow> handler \<Rightarrow> string list \<Rightarrow> cli_run \<Rightarrow> bool" for env fl where
  run_root: "runRoot env fl args run \<Longrightarrow> run_command env fl HRoot args run"
| run_stage: "runStageDirect env fl args run \<Longrightarrow> run_command env fl HStage args run"
| run_action: "runActionDirect env fl args run \<Longrightarrow> run_command env fl HAction args run"
| run_list_actions:
    "distinct names \<Longrightarrow>
     (\<And>cfg. cli_load env fl = Some (Inr cfg) \<Longrightarrow>
       set names = dom (ListBuiltInActions (default_runner env cfg))) \<Longrightarrow>
     runListActions env fl names = Some run \<Longrightarrow> run_command env fl HListActions args run"
| run_validate: "runValidate env fl = Some run \<Longrightarrow> run_command env fl HValidate args run"
| run_list_stages:
    "(\<And>cfg. mset (ord cfg) = mset (cfg_Stages cfg)) \<Longrightarrow> runListStages env fl ord = Some run \<Longrightarrow>
     run_command env fl HListStages args run"
| run_list_steps:
    "runListSteps env fl stageName = Some run \<Longrightarrow> run_command env fl HListSteps (stageName # rest) run"
| run_list_steps_unloaded:
    "cli_load env fl = Some (Inl e) \<Longrightarrow> run_command env fl HListSteps [] (handleConfigLoadError env fl e)"

text \<open>\<open>main\<close>: whatever the error, the status is 1. A command that is not accepted is not run.\<close>

inductive main_exit ::
  "(args_rule \<Rightarrow> nat \<Rightarrow> bool) \<Rightarrow> cli_env \<Rightarrow> cli_flags \<Rightarrow> cli_command \<Rightarrow> string list \<Rightarrow> nat \<Rightarrow> bool"
  for accepts env fl where
  rejected: "\<not> accepts (cc_Args c) (length args) \<Longrightarrow> main_exit accepts env fl c args 1"
| ran: "accepts (cc_Args c) (length args) \<Longrightarrow> run_command env fl (cc_RunE c) args run \<Longrightarrow>
     main_exit accepts env fl c args (exit_status (cr_end run))"

inductive_cases run_commandE: "run_command env fl h args run"
inductive_cases main_exitE: "main_exit accepts env fl c args n"

section \<open>Arguments and exit status\<close>

text \<open>What cobra documents of the rules.\<close>

definition documented_rules :: "(args_rule \<Rightarrow> nat \<Rightarrow> bool) \<Rightarrow> bool" where
  "documented_rules accepts \<longleftrightarrow>
     (\<forall>n. accepts ArbitraryArgs n) \<and> (\<forall>lo hi n. accepts (RangeArgs lo hi) n \<longleftrightarrow> lo \<le> n \<and> n \<le> hi)
     \<and> (\<forall>k n. accepts (ExactArgs k) n \<longleftrightarrow> n = k)"

text \<open>How many arguments the function reads without looking at their number.\<close>

fun needed_args :: "handler \<Rightarrow> nat" where
  "needed_args HStage = 1"
| "needed_args HAction = 1"
| "needed_args HListSteps = 1"
| "needed_args _ = 0"

lemma accepted_args_suffice:
  assumes "documented_rules accepts" "c \<in> set commands" "accepts (cc_Args c) n"
  shows "needed_args (cc_RunE c) \<le> n"
  using assms
  by (auto simp: documented_rules_def commands_def rootCmd_def runCmd_def actionCmd_def listActionsCmd_def
      validateCmd_def listStagesCmd_def listStepsCmd_def)

lemma direct_status:
  "runStageDirect env fl args run \<Longrightarrow> exit_status (cr_end run) \<le> 1"
  "runActionDirect env fl args run \<Longrightarrow> exit_status (cr_end run) \<le> 1"
  by (auto elim!: runStageDirect.cases runActionDirect.cases)

lemma root_status: "runRoot env fl args run \<Longrightarrow> exit_status (cr_end run) \<le> 1"
  by (auto elim!: runRoot.cases simp: quiet_run_def dest: direct_status)

lemma listing_status:
  "runListActions env fl names = Some run \<Longrightarrow> exit_status (cr_end run) \<le> 1"
  "runValidate env fl = Some run \<Longrightarrow> exit_status (cr_end run) \<le> 1"
  "runListStages env fl ord = Some run \<Longrightarrow> exit_status (cr_end run) \<le> 1"
  "runListSteps env fl n = Some run \<Longrightarrow> exit_status (cr_end run) \<le> 1"
  by (auto simp: runListActions_def runValidate_def runListStages_def runListSteps_def Let_def
      handleConfigLoadError_def quiet_run_def split: option.splits sum.splits if_splits)

lemma main_status: "main_exit accepts env fl c args n \<Longrightarrow> n \<le> 1"
  by (auto elim!: main_exitE run_commandE dest: direct_status root_status listing_status
      simp: handleConfigLoadError_def)

section \<open>Properties\<close>

lemma unloaded_run:
  assumes "run_command env fl h args run" "cli_load env fl = Some (Inl e)"
    and "h = HRoot \<Longrightarrow> args \<noteq> [] \<and> \<not> fl_version fl \<and> \<not> fl_versionOnly fl"
  shows "exit_status (cr_end run) = 1 \<and> cr_out run = []"
  using assms(1)
proof (cases rule: run_command.cases)
  case run_root
  then obtain name rest where "args = name # rest" using assms(3) by (cases args) auto
  then show ?thesis using config_error_status [of env fl name rest run e] run_root assms(2,3) by blast
next
  case run_stage
  from run_stage(2) assms(2) show ?thesis by (cases rule: runStageDirect.cases) simp_all
next
  case run_action
  from run_action(2) assms(2) show ?thesis by (cases rule: runActionDirect.cases) simp_all
qed (use assms(2) in \<open>auto simp: runListActions_def runValidate_def runListStages_def runListSteps_def
    handleConfigLoadError_def\<close>)

text \<open>C22: Whatever the command, a configuration that cannot be loaded or is not valid ends the
  program with the status 1 and nothing is printed to the standard output. Only the version flags
  and the help come before the configuration is read.\<close>

theorem load_error_status:
  assumes "cli_load env fl = Some (Inl e)"
    and "cc_RunE c = HRoot \<Longrightarrow> args \<noteq> [] \<and> \<not> fl_version fl \<and> \<not> fl_versionOnly fl"
  shows "(main_exit accepts env fl c args n \<longrightarrow> n = 1)
     \<and> (run_command env fl (cc_RunE c) args run \<longrightarrow> cr_out run = [])"
  using unloaded_run [OF _ assms] by (auto elim!: main_exitE)

theorem load_error_status_witness:
  "\<exists>run. run_command (sample_cli Missing) sample_flags HListStages [] run \<and> cr_out run = []
     \<and> \<not> main_exit (\<lambda>rule k. k \<le> 2) (sample_cli Missing) sample_flags listStagesCmd [] 0"
proof -
  obtain run where "runListStages (sample_cli Missing) sample_flags cfg_Stages = Some run"
    by (auto simp: runListStages_def sample_missing)
  then have r: "run_command (sample_cli Missing) sample_flags (cc_RunE listStagesCmd) [] run"
    unfolding listStagesCmd_def cli_command.simps by (rule run_list_stages [OF refl])
  show ?thesis
    using load_error_status [OF sample_missing, of listStagesCmd "[]" "\<lambda>rule k. k \<le> 2" 0 run] r
    by (auto simp: listStagesCmd_def)
qed

end
