(* ===== verification/Config_Include.thy ===== *)
theory Config_Include
  imports Config_Load
begin

text \<open>
  \<open>internal/config\<close>: the other loader (\<open>config.go\<close>) with its include resolver
  (\<open>include.go\<close>), and its own variable resolution, \<open>resolveString\<close>. The theory compares both
  with their counterparts in \<open>pkg/buildfab\<close>: \<open>Config_Load\<close> and \<open>Variables\<close>.
\<close>

section \<open>Data\<close>

text \<open>The types of \<open>include.go\<close>, which repeat those of the package \<open>buildfab\<close>.\<close>

record inc_variant =
  iv_When :: string
  iv_Run :: string
  iv_Uses :: string
  iv_Shell :: string

record inc_action =
  ia_Name :: string
  ia_Run :: string
  ia_Uses :: string
  ia_Shell :: string
  ia_Variants :: "inc_variant list"

record inc_step =
  is_Action :: string
  is_Require :: "string list"
  is_OnError :: string
  is_If :: string
  is_Only :: "string list"

record inc_stage =
  is_Steps :: "inc_step list"

record partial_config =
  pc_Actions :: "inc_action list"
  pc_Stages :: "(string \<times> inc_stage) list"

text \<open>The YAML library's \<open>Unmarshal\<close> into a \<open>PartialConfig\<close>, and \<open>os.Open\<close>.\<close>

record include_env = file_env +
  fe_partial :: "string \<Rightarrow> string + partial_config"
  fe_open :: "string \<Rightarrow> string option"

section \<open>include.go\<close>

record include_resolver =
  ir_baseDir :: string
  ir_visited :: "string set"

definition NewIncludeResolver :: "string \<Rightarrow> include_resolver" where
  "NewIncludeResolver baseDir = \<lparr>ir_baseDir = baseDir, ir_visited = {}\<rparr>"

definition resolveExactPath :: "include_env \<Rightarrow> string \<Rightarrow> go_error + string list" where
  "resolveExactPath env path =
     (if fe_stat env path = Missing then Inl (IncludeNotExist path) else Inr [path])"

definition resolveGlobPattern :: "include_env \<Rightarrow> string \<Rightarrow> go_error + string list" where
  "resolveGlobPattern env pattern =
     (let dir = path_dir pattern
      in if fe_stat env dir = Missing then Inl (IncludeDirNotExist dir)
         else case fe_glob env pattern of
                Inl e \<Rightarrow> Inl (BadGlob pattern (ExternalError e))
              | Inr matches \<Rightarrow> Inr (filter yaml_name matches))"

definition resolvePattern :: "include_env \<Rightarrow> include_resolver \<Rightarrow> string \<Rightarrow> go_error + string list" where
  "resolvePattern env ir pattern =
     (let absPattern = (if \<not> isAbs pattern then path_join (ir_baseDir ir) pattern else pattern)
      in if contains pattern ''*'' then resolveGlobPattern env absPattern
         else resolveExactPath env absPattern)"

text \<open>The two loops of \<open>ResolveIncludes\<close>: a file that was seen before is left out.\<close>

fun add_unseen :: "string list \<Rightarrow> string list \<Rightarrow> string list" where
  "add_unseen resolved [] = resolved"
| "add_unseen resolved (f # fs) =
     (if f \<in> set resolved then add_unseen resolved fs else add_unseen (resolved @ [f]) fs)"

fun resolve_loop ::
  "include_env \<Rightarrow> include_resolver \<Rightarrow> string list \<Rightarrow> string list \<Rightarrow> go_error + string list" where
  "resolve_loop env ir [] resolved = Inr resolved"
| "resolve_loop env ir (pattern # ps) resolved =
     (case resolvePattern env ir pattern of
        Inl e \<Rightarrow> Inl (ResolvePatternFailed pattern e)
      | Inr files \<Rightarrow> resolve_loop env ir ps (add_unseen resolved files))"

definition ResolveIncludes :: "include_env \<Rightarrow> include_resolver \<Rightarrow> string list \<Rightarrow> go_error + string list" where
  "ResolveIncludes env ir patterns = resolve_loop env ir patterns []"

definition loadIncludedFile :: "include_env \<Rightarrow> string \<Rightarrow> go_error + partial_config" where
  "loadIncludedFile env filePath =
     (case fe_read env filePath of
        Inl e \<Rightarrow> Inl (ReadFailed (ExternalError e))
      | Inr content \<Rightarrow>
          (case fe_partial env content of
             Inl e \<Rightarrow> Inl (ParseYamlFailed (ExternalError e))
           | Inr config \<Rightarrow> Inr config))"

fun merge_inc_action :: "inc_action list \<Rightarrow> inc_action \<Rightarrow> inc_action list" where
  "merge_inc_action [] a = [a]"
| "merge_inc_action (b # bs) a = (if ia_Name b = ia_Name a then a # bs else b # merge_inc_action bs a)"

definition Include_mergeConfig :: "partial_config \<Rightarrow> partial_config \<Rightarrow> partial_config" where
  "Include_mergeConfig merged included =
     merged\<lparr>pc_Actions := foldl merge_inc_action (pc_Actions merged) (pc_Actions included),
            pc_Stages := fold (\<lambda>(name, stg). AList.update name stg) (pc_Stages included) (pc_Stages merged)\<rparr>"

fun load_files ::
  "include_env \<Rightarrow> include_resolver \<Rightarrow> string list \<Rightarrow> partial_config \<Rightarrow> go_error + partial_config" where
  "load_files env ir [] mergedConfig = Inr mergedConfig"
| "load_files env ir (f # fs) mergedConfig =
     (if f \<in> ir_visited ir then Inl (CircularInclude f)
      else case loadIncludedFile env f of
             Inl e \<Rightarrow> Inl (LoadIncludedFileFailed f e)
           | Inr config \<Rightarrow>
               load_files env (ir\<lparr>ir_visited := insert f (ir_visited ir)\<rparr>) fs
                 (Include_mergeConfig mergedConfig config))"

definition LoadIncludedConfigs ::
  "include_env \<Rightarrow> include_resolver \<Rightarrow> string list \<Rightarrow> go_error + partial_config" where
  "LoadIncludedConfigs env ir filePaths = load_files env ir filePaths \<lparr>pc_Actions = [], pc_Stages = []\<rparr>"

section \<open>config.go\<close>

definition buildfab_variant :: "inc_variant \<Rightarrow> action_variant" where
  "buildfab_variant v =
     \<lparr>var_When = iv_When v, var_Run = iv_Run v, var_Uses = iv_Uses v, var_Shell = iv_Shell v\<rparr>"

definition buildfab_action :: "inc_action \<Rightarrow> action" where
  "buildfab_action a =
     \<lparr>act_Name = ia_Name a, act_Run = ia_Run a, act_Uses = ia_Uses a, act_Shell = ia_Shell a,
      act_Variants = map buildfab_variant (ia_Variants a)\<rparr>"

definition buildfab_step :: "inc_step \<Rightarrow> step" where
  "buildfab_step s =
     \<lparr>step_Action = is_Action s, step_Require = is_Require s, step_OnError = is_OnError s,
      step_If = is_If s, step_Only = is_Only s\<rparr>"

definition buildfab_stage :: "inc_stage \<Rightarrow> stage" where
  "buildfab_stage s = \<lparr>stage_Steps = map buildfab_step (is_Steps s)\<rparr>"

definition mergeConfig :: "config \<Rightarrow> partial_config \<Rightarrow> config" where
  "mergeConfig config included =
     config\<lparr>cfg_Actions :=
              foldl (\<lambda>as a. merge_action as (buildfab_action a)) (cfg_Actions config) (pc_Actions included),
            cfg_Stages :=
              fold (\<lambda>(name, stg). AList.update name (buildfab_stage stg)) (pc_Stages included)
                (cfg_Stages config)\<rparr>"

definition with_includes :: "include_env \<Rightarrow> string \<Rightarrow> config \<Rightarrow> go_error + config" where
  "with_includes env configPath config =
     (if 0 < length (cfg_Include config) then
        (let resolver = NewIncludeResolver (path_dir configPath)
         in case ResolveIncludes env resolver (cfg_Include config) of
              Inl e \<Rightarrow> Inl (ResolveIncludesFailed e)
            | Inr includedFiles \<Rightarrow>
                (case LoadIncludedConfigs env resolver includedFiles of
                   Inl e \<Rightarrow> Inl (LoadIncludedFailed e)
                 | Inr includedConfig \<Rightarrow> Inr (mergeConfig config includedConfig)))
      else Inr config)"

definition Loader_Load ::
  "include_env \<Rightarrow> (config \<Rightarrow> (string \<times> stage) list) \<Rightarrow> string \<Rightarrow> go_error + config" where
  "Loader_Load env ord configPath =
     (if fe_stat env configPath = Missing then Inl (ConfigNotFound configPath)
      else case fe_open env configPath of
        Some e \<Rightarrow> Inl (OpenConfigFailed (ExternalError e))
      | None \<Rightarrow>
          (case fe_read env configPath of
             Inl e \<Rightarrow> Inl (ReadConfigFailed (ExternalError e))
           | Inr content \<Rightarrow>
               (case fe_yaml env content of
                  Inl e \<Rightarrow> Inl (ParseYamlConfigFailed (ExternalError e))
                | Inr config0 \<Rightarrow>
                    (case with_includes env configPath config0 of
                       Inl e \<Rightarrow> Inl e
                     | Inr config \<Rightarrow>
                         (case Validate config (ord config) of Some e \<Rightarrow> Inl e | None \<Rightarrow> Inr config)))))"

definition LoadFromDir ::
  "include_env \<Rightarrow> (config \<Rightarrow> (string \<times> stage) list) \<Rightarrow> string \<Rightarrow> go_error + config" where
  "LoadFromDir env ord dir =
     (case find (\<lambda>f. fe_stat env (path_join dir f) = Present)
             [''.project.yml'', ''.project.yaml'', ''project.yml'', ''project.yaml'', ''buildfab.yml'',
              ''buildfab.yaml''] of
        Some filename \<Rightarrow> Loader_Load env ord (path_join dir filename)
      | None \<Rightarrow> Inl (NoConfigInDir dir))"

section \<open>Variables in commands\<close>

text \<open>
  \<open>resolveString\<close> replaces the first reference and starts again with the whole text, so a
  value is looked through as well: the loop need not end, and then the value is \<open>None\<close>.
\<close>

partial_function (option) resolveString ::
  "(string \<Rightarrow> string option) \<Rightarrow> string \<Rightarrow> (go_error + string) option" where
  "resolveString variables result =
     (case index_of result ''${{'' of
        None \<Rightarrow> Some (Inr result)
      | Some start \<Rightarrow>
          (case index_of (drop start result) ''}}'' of
             None \<Rightarrow> Some (Inl (UnclosedReference (drop start result)))
           | Some end0 \<Rightarrow>
               (let end1 = end0 + start + 2;
                    variableName = trim_space (take (end1 - 2 - (start + 3)) (drop (start + 3) result))
                in case variables variableName of
                     None \<Rightarrow> Some (Inl (UndefinedVariable variableName))
                   | Some value \<Rightarrow>
                       resolveString variables (take start result @ value @ drop end1 result))))"

fun resolve_actions ::
  "(string \<Rightarrow> string option) \<Rightarrow> action list \<Rightarrow> (go_error option \<times> action list) option" where
  "resolve_actions variables [] = Some (None, [])"
| "resolve_actions variables (a # as) =
     (if act_Run a = [] then map_option (map_prod id ((#) a)) (resolve_actions variables as)
      else case resolveString variables (act_Run a) of
             None \<Rightarrow> None
           | Some (Inl e) \<Rightarrow> Some (Some (ResolveVariablesFailed (act_Name a) e), a # as)
           | Some (Inr resolved) \<Rightarrow>
               map_option (map_prod id ((#) (a\<lparr>act_Run := resolved\<rparr>))) (resolve_actions variables as))"

text \<open>\<open>ResolveVariables\<close> changes the configuration in place, also when it fails half way.\<close>

definition ResolveVariables ::
  "config \<Rightarrow> (string \<Rightarrow> string option) \<Rightarrow> (go_error option \<times> config) option" where
  "ResolveVariables config variables =
     map_option (\<lambda>(e, as). (e, config\<lparr>cfg_Actions := as\<rparr>)) (resolve_actions variables (cfg_Actions config))"

definition GetDefaultVariables :: "string \<Rightarrow> string option" where
  "GetDefaultVariables = [''tag'' \<mapsto> [], ''branch'' \<mapsto> []]"

text \<open>\<open>exec\<close> runs a command and gives its output or an error.\<close>

definition detectGitTag :: "(string list \<Rightarrow> string + string) \<Rightarrow> string + string" where
  "detectGitTag exec =
     map_sum id trim_space (exec [''git'', ''describe'', ''--tags'', ''--abbrev=0''])"

definition detectGitBranch :: "(string list \<Rightarrow> string + string) \<Rightarrow> string + string" where
  "detectGitBranch exec =
     map_sum id trim_space (exec [''git'', ''rev-parse'', ''--abbrev-ref'', ''HEAD''])"

definition DetectGitVariables :: "(string list \<Rightarrow> string + string) \<Rightarrow> string \<Rightarrow> string option" where
  "DetectGitVariables exec =
     (let variables = (case detectGitTag exec of Inr tag \<Rightarrow> [''tag'' \<mapsto> tag] | Inl _ \<Rightarrow> Map.empty)
      in case detectGitBranch exec of Inr branch \<Rightarrow> variables(''branch'' \<mapsto> branch) | Inl _ \<Rightarrow> variables)"

section \<open>Merging in two stages\<close>

lemma merge_action_names: "set (map act_Name (merge_action as b)) = insert (act_Name b) (set (map act_Name as))"
  by (induction as) auto

lemma merge_action_distinct: "distinct (map act_Name as) \<Longrightarrow> distinct (map act_Name (merge_action as b))"
proof (induction as)
  case (Cons a as)
  then show ?case using merge_action_names [of as b] by auto
qed simp

lemma merge_actions_distinct: "distinct (map act_Name as) \<Longrightarrow> distinct (map act_Name (foldl merge_action as bs))"
  by (induction bs arbitrary: as) (simp_all add: merge_action_distinct)

lemma merge_actions_names:
  "set (map act_Name (foldl merge_action as bs)) = set (map act_Name as) \<union> set (map act_Name bs)"
  by (induction bs arbitrary: as) (auto simp: merge_action_names [simplified])

lemma merge_action_same: "act_Name a = act_Name b \<Longrightarrow> merge_action (merge_action as a) b = merge_action as b"
  by (induction as) auto

lemma merge_action_commute:
  "act_Name a \<in> act_Name ` set as \<Longrightarrow> act_Name a \<noteq> act_Name b \<Longrightarrow>
     merge_action (merge_action as b) a = merge_action (merge_action as a) b"
  by (induction as) auto

lemma merge_actions_commute:
  "act_Name a \<in> act_Name ` set as \<Longrightarrow> act_Name a \<notin> act_Name ` set bs \<Longrightarrow>
     foldl merge_action (merge_action as a) bs = merge_action (foldl merge_action as bs) a"
proof (induction bs arbitrary: as)
  case (Cons b bs)
  have "act_Name a \<in> act_Name ` set (merge_action as b)"
    using Cons.prems(1) merge_action_names [of as b] by auto
  with Cons.IH [of "merge_action as b"] Cons.prems show ?case
    using merge_action_commute [of a as b] by simp
qed simp

lemma merge_action_split:
  "act_Name b \<in> act_Name ` set as \<Longrightarrow> distinct (map act_Name as) \<Longrightarrow>
     \<exists>pre a post. as = pre @ a # post \<and> act_Name a = act_Name b \<and> merge_action as b = pre @ b # post
       \<and> act_Name b \<notin> act_Name ` set post"
proof (induction as)
  case (Cons a as)
  show ?case
  proof (cases "act_Name a = act_Name b")
    case True
    with Cons.prems show ?thesis by (intro exI [of _ "[]"]) auto
  next
    case False
    with Cons obtain pre c post where "as = pre @ c # post" "act_Name c = act_Name b"
        "merge_action as b = pre @ b # post" "act_Name b \<notin> act_Name ` set post"
      by auto
    with False show ?thesis by (intro exI [of _ "a # pre"] exI [of _ c] exI [of _ post]) simp
  qed
qed simp

lemma merge_action_new: "act_Name b \<notin> act_Name ` set as \<Longrightarrow> merge_action as b = as @ [b]"
  by (induction as) auto

lemma merge_merged:
  assumes "distinct (map act_Name bs)"
  shows "foldl merge_action as (merge_action bs b) = merge_action (foldl merge_action as bs) b"
proof (cases "act_Name b \<in> act_Name ` set bs")
  case True
  from merge_action_split [OF this assms] obtain pre a post where s: "bs = pre @ a # post"
    "act_Name a = act_Name b" "merge_action bs b = pre @ b # post" "act_Name b \<notin> act_Name ` set post"
    by blast
  let ?l = "foldl merge_action as pre"
  have "foldl merge_action (merge_action (merge_action ?l a) b) post
      = merge_action (foldl merge_action (merge_action ?l a) post) b"
    using s(2,4) merge_action_names [of ?l a] by (intro merge_actions_commute) auto
  with s show ?thesis by (simp add: merge_action_same)
qed (simp add: merge_action_new)

text \<open>Merging the included actions among themselves first makes no difference.\<close>

lemma merge_actions_staged:
  "foldl merge_action as (foldl merge_action [] bs) = foldl merge_action as bs"
  by (induction bs rule: rev_induct) (simp_all add: merge_merged merge_actions_distinct)

lemma buildfab_merge:
  "map buildfab_action (merge_inc_action as b) = merge_action (map buildfab_action as) (buildfab_action b)"
  by (induction as) (simp_all add: buildfab_action_def)

lemma buildfab_merges:
  "map buildfab_action (foldl merge_inc_action as bs)
     = foldl merge_action (map buildfab_action as) (map buildfab_action bs)"
  by (induction bs arbitrary: as) (simp_all add: buildfab_merge)

abbreviation update_all :: "('a \<times> 'b) list \<Rightarrow> ('a \<times> 'b) list \<Rightarrow> ('a \<times> 'b) list" where
  "update_all \<equiv> fold (\<lambda>(k, v). AList.update k v)"

lemma map_of_update_all: "map_of (update_all xs al) = map_of al ++ map_of (rev xs)"
  by (induction xs arbitrary: al) (auto simp: map_add_def fun_eq_iff split: option.split)

lemma distinct_update_all: "distinct (map fst al) \<Longrightarrow> distinct (map fst (update_all xs al))"
  by (induction xs arbitrary: al) (auto simp: distinct_update)

definition map_vals :: "('b \<Rightarrow> 'c) \<Rightarrow> ('a \<times> 'b) list \<Rightarrow> ('a \<times> 'c) list" where
  "map_vals g xs = map (\<lambda>(k, v). (k, g v)) xs"

lemma map_vals_simps [simp]:
  "map_vals g [] = []" "map_vals g (x # xs) = (fst x, g (snd x)) # map_vals g xs"
  "map_vals g (xs @ ys) = map_vals g xs @ map_vals g ys" "map_vals g (rev xs) = rev (map_vals g xs)"
  by (auto simp: map_vals_def rev_map split: prod.split)

lemma fold_update_map:
  "fold (\<lambda>(k, v). AList.update k (g v)) xs al = update_all (map_vals g xs) al"
  by (induction xs arbitrary: al) auto

lemma map_vals_update: "map_vals g (AList.update k v al) = AList.update k (g v) (map_vals g al)"
  by (induction al) auto

lemma map_vals_update_all: "map_vals g (update_all xs al) = update_all (map_vals g xs) (map_vals g al)"
  by (induction xs arbitrary: al) (auto simp: map_vals_update)

lemma update_all_staged: "map_of (update_all (update_all xs []) al) = map_of al ++ map_of (rev xs)"
proof -
  have "map_of (rev (update_all xs [])) = map_of (update_all xs [])"
    using distinct_update_all [of "[]" xs] by (intro map_of_inject_set [THEN iffD2]) (auto simp: rev_map [symmetric])
  then show ?thesis by (simp add: map_of_update_all)
qed

section \<open>The accumulated configuration\<close>

text \<open>Parsing a file as a \<open>PartialConfig\<close> gives the actions and stages that parsing it as a
  \<open>Config\<close> gives.\<close>

definition partial_agrees :: "include_env \<Rightarrow> string \<Rightarrow> config \<Rightarrow> bool" where
  "partial_agrees env p included =
     (case fe_read env p of Inl _ \<Rightarrow> False | Inr content \<Rightarrow>
        (case fe_partial env content of Inl _ \<Rightarrow> False | Inr pc \<Rightarrow>
           map buildfab_action (pc_Actions pc) = cfg_Actions included
           \<and> map_vals buildfab_stage (pc_Stages pc) = cfg_Stages included))"

lemma load_files_flat:
  assumes "\<forall>p \<in> set ps. partial_agrees env p (f p)" "distinct ps" "set ps \<inter> ir_visited ir = {}"
  shows "\<exists>pc'. load_files env ir ps pc = Inr pc'
     \<and> map buildfab_action (pc_Actions pc')
         = foldl merge_action (map buildfab_action (pc_Actions pc)) (concat (map (cfg_Actions \<circ> f) ps))
     \<and> map_vals buildfab_stage (pc_Stages pc')
         = update_all (concat (map (cfg_Stages \<circ> f) ps)) (map_vals buildfab_stage (pc_Stages pc))"
  using assms
proof (induction ps arbitrary: ir pc)
  case (Cons p ps)
  from Cons.prems(1) obtain content inc where c: "fe_read env p = Inr content" "fe_partial env content = Inr inc"
      "map buildfab_action (pc_Actions inc) = cfg_Actions (f p)"
      "map_vals buildfab_stage (pc_Stages inc) = cfg_Stages (f p)"
    by (auto simp: partial_agrees_def split: sum.splits)
  have l: "load_files env ir (p # ps) pc
      = load_files env (ir\<lparr>ir_visited := insert p (ir_visited ir)\<rparr>) ps (Include_mergeConfig pc inc)"
    using Cons.prems(3) c by (simp add: loadIncludedFile_def)
  have m: "map buildfab_action (pc_Actions (Include_mergeConfig pc inc))
        = foldl merge_action (map buildfab_action (pc_Actions pc)) (cfg_Actions (f p))"
      "map_vals buildfab_stage (pc_Stages (Include_mergeConfig pc inc))
        = update_all (cfg_Stages (f p)) (map_vals buildfab_stage (pc_Stages pc))"
    using c by (simp_all add: Include_mergeConfig_def buildfab_merges map_vals_update_all)
  show ?case
    using Cons.IH [of "ir\<lparr>ir_visited := insert p (ir_visited ir)\<rparr>" "Include_mergeConfig pc inc"] Cons.prems
    unfolding l m by simp
qed simp

lemma add_unseen_new: "distinct (xs @ fs) \<Longrightarrow> add_unseen xs fs = xs @ fs"
  by (induction xs fs rule: add_unseen.induct) auto

lemma resolvePattern_ok:
  assumes "pattern_ok env base pattern"
    and "\<forall>p \<in> set (include_targets env base pattern). fe_stat env p \<noteq> Missing"
  shows "resolvePattern env (NewIncludeResolver base) pattern
    = Inr (include_targets env base pattern)"
  using assms
  by (auto simp: resolvePattern_def NewIncludeResolver_def pattern_ok_def include_targets_def
      abs_pattern_def resolveGlobPattern_def resolveExactPath_def split: sum.splits)

lemma resolve_loop_ok:
  assumes "\<forall>pattern \<in> set ps. pattern_ok env base pattern"
    and "\<forall>p \<in> set (included_files env base ps). fe_stat env p \<noteq> Missing"
    and "distinct (acc @ included_files env base ps)"
  shows "resolve_loop env (NewIncludeResolver base) ps acc
    = Inr (acc @ included_files env base ps)"
  using assms
proof (induction ps arbitrary: acc)
  case (Cons p ps)
  let ?t = "include_targets env base p"
  have "resolvePattern env (NewIncludeResolver base) p = Inr ?t"
    using Cons.prems by (intro resolvePattern_ok) (auto simp: included_files_def)
  moreover have "add_unseen acc ?t = acc @ ?t"
    using Cons.prems(3) by (intro add_unseen_new) (auto simp: included_files_def)
  moreover have "resolve_loop env (NewIncludeResolver base) ps (acc @ ?t)
      = Inr ((acc @ ?t) @ included_files env base ps)"
    using Cons.prems by (intro Cons.IH) (auto simp: included_files_def)
  ultimately show ?case by (simp add: included_files_def)
qed (simp add: included_files_def)

lemma with_includes_flat:
  assumes ne: "cfg_Include config \<noteq> []"
    and ok: "\<forall>pattern \<in> set (cfg_Include config). pattern_ok env (path_dir path) pattern"
    and flat: "\<forall>p \<in> set (included_files env (path_dir path) (cfg_Include config)). flat_file env p (f p)"
    and part: "\<forall>p \<in> set (included_files env (path_dir path) (cfg_Include config)). partial_agrees env p (f p)"
    and dist: "distinct (included_files env (path_dir path) (cfg_Include config))"
  shows "\<exists>config'. with_includes env path config = Inr config'
     \<and> cfg_Actions config' = cfg_Actions (foldl merge_file config
         (map f (included_files env (path_dir path) (cfg_Include config))))
     \<and> map_of (cfg_Stages config') = map_of (cfg_Stages (foldl merge_file config
         (map f (included_files env (path_dir path) (cfg_Include config)))))"
proof -
  let ?base = "path_dir path"
  let ?fs = "included_files env ?base (cfg_Include config)"
  let ?ir = "NewIncludeResolver ?base"
  have r: "ResolveIncludes env ?ir (cfg_Include config) = Inr ?fs"
    unfolding ResolveIncludes_def
    using resolve_loop_ok [OF ok, of "[]"] flat dist by (simp add: flat_file_def)
  obtain pc where l: "LoadIncludedConfigs env ?ir ?fs = Inr pc"
    and a: "map buildfab_action (pc_Actions pc) = foldl merge_action [] (concat (map (cfg_Actions \<circ> f) ?fs))"
    and s: "map_vals buildfab_stage (pc_Stages pc) = update_all (concat (map (cfg_Stages \<circ> f) ?fs)) []"
    using load_files_flat [OF part dist, of ?ir "\<lparr>pc_Actions = [], pc_Stages = []\<rparr>"]
    by (auto simp: LoadIncludedConfigs_def NewIncludeResolver_def)
  have "cfg_Actions (mergeConfig config pc)
      = foldl merge_action (cfg_Actions config) (map buildfab_action (pc_Actions pc))"
    by (simp add: mergeConfig_def foldl_map)
  then have "cfg_Actions (mergeConfig config pc) = cfg_Actions (foldl merge_file config (map f ?fs))"
    by (simp add: a merge_actions_staged merge_files_actions o_def)
  moreover have "map_of (cfg_Stages (mergeConfig config pc))
      = map_of (update_all (map_vals buildfab_stage (pc_Stages pc)) (cfg_Stages config))"
    by (simp add: mergeConfig_def fold_update_map [where g = buildfab_stage])
  then have "map_of (cfg_Stages (mergeConfig config pc)) = map_of (cfg_Stages (foldl merge_file config (map f ?fs)))"
    unfolding s update_all_staged by (simp add: merge_files_stages o_def)
  moreover have "with_includes env path config = Inr (mergeConfig config pc)"
    using ne by (simp add: with_includes_def r l Let_def)
  ultimately show ?thesis by blast
qed

section \<open>resolveString\<close>

lemma index_of_Some: "index_of s sub = Some i \<Longrightarrow> hasPrefix (drop i s) sub \<and> i \<le> length s"
  by (induction s sub arbitrary: i rule: index_of.induct) (auto split: if_splits)

lemma index_of_skip:
  "c \<notin> set p \<Longrightarrow> index_of (p @ s) (c # sub) = map_option (\<lambda>i. length p + i) (index_of s (c # sub))"
proof (induction p)
  case (Cons x p)
  then show ?case by (cases "index_of s (c # sub)") (auto simp: hasPrefix_def)
qed (cases "index_of s (c # sub)"; simp)

lemma index_of_here [simp]: "index_of (sub @ s) sub = Some 0"
  using hasPrefix_append [of sub s] by (cases "sub @ s") auto

text \<open>One round of the loop takes a closing brace pair away.\<close>

definition braces :: "string \<Rightarrow> nat" where
  "braces s = length (filter (\<lambda>c. c = CHR ''}'') s)"

lemma braces_append [simp]: "braces (s @ t) = braces s + braces t"
  by (simp add: braces_def)

lemma braces_zero: "CHR ''}'' \<notin> set s \<Longrightarrow> braces s = 0"
  by (auto simp: braces_def filter_empty_conv)

lemma round_braces:
  assumes "index_of (drop start s) ''}}'' = Some e" "CHR ''}'' \<notin> set v"
  shows "braces (take start s @ v @ drop (e + start + 2) s) < braces s"
proof -
  obtain t where t: "drop e (drop start s) = ''}}'' @ t"
    using index_of_Some [OF assms(1)] by (auto simp: hasPrefix_iff)
  then have r: "drop (e + start + 2) s = t"
    by (metis add.commute drop_drop append_eq_conv_conj length_Cons list.size(3) numeral_2_eq_2)
  have "s = take start s @ take e (drop start s) @ ''}}'' @ t"
    using t by (metis append_take_drop_id)
  then have "braces s = braces (take start s) + braces (take e (drop start s)) + braces ''}}'' + braces t"
    by (metis braces_append add.assoc)
  moreover have "braces ''}}'' = 2" by (simp add: braces_def)
  ultimately show ?thesis using assms(2) r by (simp add: braces_zero)
qed

lemma resolveString_terminates:
  assumes "\<forall>v \<in> ran m. CHR ''}'' \<notin> set v"
  shows "resolveString m s \<noteq> None"
proof (induction "braces s" arbitrary: s rule: less_induct)
  case less
  show ?case
  proof (cases "index_of s ''${{''")
    case None
    then show ?thesis by (subst resolveString.simps) simp
  next
    case (Some start)
    note st = Some
    show ?thesis
    proof (cases "index_of (drop start s) ''}}''")
      case None
      with st show ?thesis by (subst resolveString.simps) simp
    next
      case (Some e)
      let ?n = "trim_space (take (e + start + 2 - 2 - (start + 3)) (drop (start + 3) s))"
      show ?thesis
      proof (cases "m ?n")
        case None
        with st Some show ?thesis by (subst resolveString.simps) (simp add: Let_def)
      next
        case (Some v)
        then have "CHR ''}'' \<notin> set v" using assms by (auto simp: ran_def)
        then have "resolveString m (take start s @ v @ drop (e + start + 2) s) \<noteq> None"
          using \<open>index_of (drop start s) ''}}'' = Some e\<close> by (intro less) (rule round_braces)
        with st \<open>index_of (drop start s) ''}}'' = Some e\<close> Some show ?thesis
          by (subst resolveString.simps) (simp add: Let_def)
      qed
    qed
  qed
qed

lemma resolve_ref:
  assumes "CHR ''$'' \<notin> set p" "ref_body b" "m (trim_space b) = Some v"
  shows "resolveString m (p @ ''${{'' @ b @ ''}}'' @ s) = resolveString m (p @ v @ s)"
proof -
  let ?s = "p @ ''${{'' @ b @ ''}}'' @ s"
  have st: "index_of ?s ''${{'' = Some (length p)"
    using index_of_skip [OF assms(1), of "''${{'' @ b @ ''}}'' @ s" "''{{''"]
      index_of_here [of "''${{''" "b @ ''}}'' @ s"] by simp
  have d: "drop (length p) ?s = (''${{'' @ b) @ ''}}'' @ s" by simp
  have en: "index_of (drop (length p) ?s) ''}}'' = Some (length b + 3)"
    unfolding d using assms(2) by (subst index_of_skip) (simp_all add: ref_body_def hasPrefix_def)
  have e: "5 + length b = Suc (Suc (Suc (length b + 2)))" by simp
  have "drop (5 + length b) (CHR ''$'' # CHR ''{'' # CHR ''{'' # b @ CHR ''}'' # CHR ''}'' # s) = s"
    unfolding e by simp
  then show ?thesis
    unfolding resolveString.simps [of m ?s] st option.case en
    by (simp add: Let_def assms(3) del: index_of.simps)
qed

lemma resolve_literal: "CHR ''$'' \<notin> set p \<Longrightarrow> resolveString m p = Some (Inr p)"
  using index_of_skip [of "CHR ''$''" p "[]" "''{{''"] by (subst resolveString.simps) simp

lemma resolve_pieces:
  assumes "CHR ''$'' \<notin> set p" "\<forall>q \<in> set ps. piece_ok q"
    and "\<forall>q \<in> set ps. case q of Lit _ \<Rightarrow> True
           | Ref b \<Rightarrow> (case m (trim_space b) of None \<Rightarrow> False | Some v \<Rightarrow> CHR ''$'' \<notin> set v)"
  shows "resolveString m (p @ concat (map piece_text ps)) = Some (Inr (p @ concat (map (piece_value m) ps)))"
  using assms
proof (induction ps arbitrary: p)
  case (Cons q ps)
  show ?case
  proof (cases q)
    case (Lit t)
    with Cons.IH [of "p @ t"] Cons.prems show ?thesis by simp
  next
    case (Ref b)
    then obtain v where v: "m (trim_space b) = Some v" "CHR ''$'' \<notin> set v" and b: "ref_body b"
      using Cons.prems by (auto split: option.splits)
    have "resolveString m (p @ concat (map piece_text (q # ps)))
        = resolveString m ((p @ v) @ concat (map piece_text ps))"
      using resolve_ref [where m = m, OF Cons.prems(1) b v(1), of "concat (map piece_text ps)"] Ref by simp
    also have "\<dots> = Some (Inr ((p @ v) @ concat (map (piece_value m) ps)))"
      using Cons.IH [of "p @ v"] Cons.prems v by simp
    finally show ?thesis using Ref v by simp
  qed
qed (simp add: resolve_literal)

text \<open>A value that refers to its own variable keeps the loop going for ever.\<close>

lemma self_reference_diverges:
  "resolveString [''x'' \<mapsto> ''${{x}}''] ''${{x}}'' = None"
proof -
  have "\<not> (m = [''x'' \<mapsto> ''${{x}}''] \<and> s = ''${{x}}'')" if "resolveString m s = Some r" for m s r
  proof (rule resolveString.raw_induct
      [where P = "\<lambda>m s r. \<not> (m = [''x'' \<mapsto> ''${{x}}''] \<and> s = ''${{x}}'')", OF _ that])
    fix f :: "(string \<Rightarrow> string option) \<Rightarrow> string \<Rightarrow> (go_error + string) option" and m s r
    assume IH: "\<And>m s r. f m s = Some r \<Longrightarrow> \<not> (m = [''x'' \<mapsto> ''${{x}}''] \<and> s = ''${{x}}'')"
    assume step: "(case index_of s ''${{'' of None \<Rightarrow> Some (Inr s)
      | Some start \<Rightarrow> (case index_of (drop start s) ''}}'' of
          None \<Rightarrow> Some (Inl (UnclosedReference (drop start s)))
        | Some end0 \<Rightarrow>
            (let end1 = end0 + start + 2;
                 variableName = trim_space (take (end1 - 2 - (start + 3)) (drop (start + 3) s))
             in case m variableName of None \<Rightarrow> Some (Inl (UndefinedVariable variableName))
                | Some value \<Rightarrow> f m (take start s @ value @ drop end1 s)))) = Some r"
    have i: "index_of ''${{x}}'' ''${{'' = Some 0" "index_of ''${{x}}'' ''}}'' = Some 4" "trim_space ''x'' = ''x''"
      by code_simp+
    show "\<not> (m = [''x'' \<mapsto> ''${{x}}''] \<and> s = ''${{x}}'')"
    proof
      assume ms: "m = [''x'' \<mapsto> ''${{x}}''] \<and> s = ''${{x}}''"
      then have "f m s = Some r" using step i by (simp add: Let_def del: index_of.simps)
      with IH ms show False by blast
    qed
  qed
  then show ?thesis by (cases "resolveString [''x'' \<mapsto> ''${{x}}''] ''${{x}}''") auto
qed

section \<open>Properties\<close>

text \<open>The same three files, parsed as partial configurations as well.\<close>

definition sample_include_env :: include_env where
  "sample_include_env =
     file_env.extend sample_files
       \<lparr>fe_partial = (\<lambda>t. let a = (\<lambda>run. \<lparr>ia_Name = ''build'', ia_Run = run, ia_Uses = [], ia_Shell = [], ia_Variants = []\<rparr>)
          in if t = ''w/a.yml'' then Inr \<lparr>pc_Actions = [a ''make''], pc_Stages = []\<rparr>
             else if t = ''w/b.yml'' then Inr \<lparr>pc_Actions = [a ''ninja''], pc_Stages = []\<rparr>
             else Inl ''none''),
        fe_open = (\<lambda>_. None)\<rparr>"

text \<open>C26: The two loaders agree on included files that include nothing themselves and are named
  once: the library, which merges file by file into the main configuration, and the internal
  package, which merges the files among themselves first, end with the same actions in the same
  order and the same stages.\<close>

theorem loaders_agree:
  assumes "cfg_Include config \<noteq> []"
    and "\<forall>pattern \<in> set (cfg_Include config). pattern_ok env (path_dir path) pattern"
    and "\<forall>p \<in> set (included_files env (path_dir path) (cfg_Include config)). flat_file env p (f p)"
    and "\<forall>p \<in> set (included_files env (path_dir path) (cfg_Include config)). partial_agrees env p (f p)"
    and "distinct (included_files env (path_dir path) (cfg_Include config))"
  shows "\<exists>c1 c2. processIncludes env (Suc k) config (path_dir path) = Some (Inr c1)
    \<and> with_includes env path config = Inr c2
    \<and> cfg_Actions c1 = cfg_Actions c2 \<and> map_of (cfg_Stages c1) = map_of (cfg_Stages c2)"
  using with_includes_flat [OF assms] includes_flat [OF assms(2,3), of k] by metis

theorem loaders_agree_witness:
  "\<exists>c1 c2. processIncludes sample_include_env 1 (part [''*.yml''] [sample_action ''build'' ''cmake'' []]) ''w'' = Some (Inr c1)
    \<and> with_includes sample_include_env ''w/main.yml'' (part [''*.yml''] [sample_action ''build'' ''cmake'' []]) = Inr c2
    \<and> cfg_Actions c1 = cfg_Actions c2"
proof -
  let ?c = "part [''*.yml''] [sample_action ''build'' ''cmake'' []]"
  let ?f = "\<lambda>p. if p = ''w/a.yml'' then part [] [sample_action ''build'' ''make'' []]
                else part [] [sample_action ''build'' ''ninja'' []]"
  have d: "path_dir ''w/main.yml'' = ''w''" by code_simp
  have fs: "included_files sample_include_env ''w'' (cfg_Include ?c) = [''w/a.yml'', ''w/b.yml'']" by code_simp
  have ok: "\<forall>pattern \<in> set (cfg_Include ?c). pattern_ok sample_include_env ''w'' pattern" by code_simp
  have "flat_file sample_include_env ''w/a.yml'' (?f ''w/a.yml'')" "flat_file sample_include_env ''w/b.yml'' (?f ''w/b.yml'')"
       "partial_agrees sample_include_env ''w/a.yml'' (?f ''w/a.yml'')" "partial_agrees sample_include_env ''w/b.yml'' (?f ''w/b.yml'')"
    by code_simp+
  then have flat: "\<forall>p \<in> set [''w/a.yml'', ''w/b.yml'']. flat_file sample_include_env p (?f p)"
    and part: "\<forall>p \<in> set [''w/a.yml'', ''w/b.yml'']. partial_agrees sample_include_env p (?f p)"
    by simp_all
  have "cfg_Include ?c \<noteq> []" by (simp add: part_def)
  then show ?thesis
    using loaders_agree [where config = ?c and env = sample_include_env and path = "''w/main.yml''" and f = ?f and k = 0,
        unfolded d fs, OF _ ok flat part] by auto
qed

text \<open>C27: Resolving variables in a command returns unless a value contains a closing brace.\<close>

theorem resolve_returns:
  assumes "\<forall>v \<in> ran m. CHR ''}'' \<notin> set v"
  shows "resolveString m s \<noteq> None"
  by (rule resolveString_terminates [OF assms])

theorem resolve_returns_witness:
  "resolveString [''x'' \<mapsto> ''${{x''] ''a ${{x}}'' \<noteq> None"
  by (rule resolve_returns) simp



end
