(* ===== verification/Stream_Correct.thy ===== *)
theory Stream_Correct
  imports Stream_Exec
begin

text \<open>
  The executors of \<open>Stream_Exec\<close> refine the executor with callbacks of \<open>Dag_Exec\<close>: a
  simulation in which the streaming scheduler may wait for its last steps earlier. With it, the
  crash on the closed channel is shown to need a cancellation.
\<close>

section \<open>Refinement\<close>


text \<open>
  The message of a successful command holds its buffered output, which depends on the display;
  apart from that a node's result does not.
\<close>

definition strip :: "result \<Rightarrow> result" where
  "strip res = (if res_Status res = StatusOK then res\<lparr>res_Message := []\<rparr> else res)"

definition display_independent :: "stream_env \<Rightarrow> bool" where
  "display_independent E =
     (\<forall>n d. strip (ar_result (se_run E d n)) = strip (ar_result (se_run E {} n)))"

text \<open>The same graph for the executor with callbacks, without events.\<close>

definition plain_run :: "action_run \<Rightarrow> action_run" where
  "plain_run run = \<lparr>ar_events = [], ar_late = [], ar_result = strip (ar_result run), ar_err = ar_err run\<rparr>"

definition plain_env :: "stream_env \<Rightarrow> exec_env" where
  "plain_env E =
     \<lparr>xe_dag = se_dag E, xe_should = se_should E, xe_run = (\<lambda>n. Some (plain_run (se_run E {} n))),
      xe_callback = False\<rparr>"

fun pc_abs :: "stream_pc \<Rightarrow> sched_pc" where
  "pc_abs Scan = Scanning"
| "pc_abs (Start ns) = Starting ns"
| "pc_abs (Decide n ns) = Starting (n # ns)"
| "pc_abs (ShowStarted ns) = Starting ns"
| "pc_abs Drain = Scanning"
| "pc_abs Closed = Scanning"
| "pc_abs Crashed = Panicked"

fun deciding :: "stream_pc \<Rightarrow> string set" where
  "deciding (Decide n ns) = {n}"
| "deciding _ = {}"

fun worker_ok :: "stream_env \<Rightarrow> string \<times> worker \<Rightarrow> bool" where
  "worker_ok E (n, Waiting) = True"
| "worker_ok E (n, Sending evs late res) = (strip res = worker_result False n (plain_run (se_run E {} n)))"

definition sim :: "stream_env \<Rightarrow> stream_state \<Rightarrow> exec_state \<Rightarrow> bool" where
  "sim E s x =
     (xs_results x = map strip (ss_results s) \<and> xs_completed x = ss_completed s
      \<and> xs_failed x = ss_failed s
      \<and> (ss_pc s \<noteq> Crashed \<longrightarrow> ss_executing s = xs_executing x \<union> deciding (ss_pc s))
      \<and> xs_chan x = map strip (ss_chan s) \<and> xs_closed x = False
      \<and> xs_workers x = map (\<lambda>(n, _). (n, [])) (ss_workers s)
      \<and> set (map snd (xs_late x)) \<subseteq> {[]} \<and> xs_pc x = pc_abs (ss_pc s) \<and> \<not> xs_cancelled x
      \<and> (\<forall>p \<in> set (ss_workers s). worker_ok E p)
      \<and> (ss_pc s = Drain \<or> ss_pc s = Closed \<longrightarrow>
           dag_names (se_dag E) \<subseteq> ss_completed s \<union> ss_executing s)
      \<and> (ss_pc s = Closed \<longrightarrow> ss_executing s \<inter> dag_names (se_dag E) = {}))"

lemma strip_simps [simp]:
  "res_Name (strip r) = res_Name r" "res_Status (strip r) = res_Status r"
  "strip (skip_dep_result n ds) = skip_dep_result n ds" "strip (skip_cond_result n) = skip_cond_result n"
  "strip (strip r) = strip r" "strip (r\<lparr>res_Name := n\<rparr>) = (strip r)\<lparr>res_Name := n\<rparr>"
  by (simp_all add: strip_def skip_dep_result_def skip_cond_result_def mk_result_def)

lemma show_frame [simp]:
  "ss_results (displayStepInOrder E n s) = ss_results s"
  "ss_completed (displayStepInOrder E n s) = ss_completed s"
  "ss_failed (displayStepInOrder E n s) = ss_failed s"
  "ss_executing (displayStepInOrder E n s) = ss_executing s"
  "ss_chan (displayStepInOrder E n s) = ss_chan s"
  "ss_workers (displayStepInOrder E n s) = ss_workers s"
  "ss_pc (displayStepInOrder E n s) = ss_pc s"
  "ss_cancelled (displayStepInOrder E n s) = ss_cancelled s"
  by (simp_all add: displayStepInOrder_def split: option.split)

lemma next_frame [simp]:
  "ss_results (checkAndDisplayNextStep E s) = ss_results s"
  "ss_completed (checkAndDisplayNextStep E s) = ss_completed s"
  "ss_failed (checkAndDisplayNextStep E s) = ss_failed s"
  "ss_executing (checkAndDisplayNextStep E s) = ss_executing s"
  "ss_chan (checkAndDisplayNextStep E s) = ss_chan s"
  "ss_workers (checkAndDisplayNextStep E s) = ss_workers s"
  "ss_pc (checkAndDisplayNextStep E s) = ss_pc s"
  "ss_cancelled (checkAndDisplayNextStep E s) = ss_cancelled s"
  by (simp_all add: checkAndDisplayNextStep_def Let_def split: option.split)

lemma collect_frame [simp]:
  "ss_results (stream_collect r s) = ss_results s @ [r]"
  "ss_completed (stream_collect r s) = insert (res_Name r) (ss_completed s)"
  "ss_executing (stream_collect r s) = ss_executing s - {res_Name r}"
  "ss_failed (stream_collect r s)
     = (if res_Status r = StatusError then insert (res_Name r) (ss_failed s) else ss_failed s)"
  "ss_workers (stream_collect r s) = ss_workers s" "ss_pc (stream_collect r s) = ss_pc s"
  "ss_cancelled (stream_collect r s) = ss_cancelled s"
  by (simp_all add: stream_collect_def)

lemma stream_cancelled_mono: "stream_step E s t \<Longrightarrow> ss_cancelled s \<Longrightarrow> ss_cancelled t"
  by (induction rule: stream_step.induct) simp_all

lemma ready_failed:
  assumes "distinct (map fst dag)" "f \<subseteq> c"
  shows "set (getReadyStepsLocked dag c e) = set (ready_steps dag c e f)"
  using assms by (auto simp: getReadyStepsLocked_def ready_steps_def allDependenciesCompleted_def)

lemma sim_init: "sim E stream_init exec_init"
  by (simp add: sim_def stream_init_def exec_init_def)

text \<open>A step that leaves the executor's view alone.\<close>

lemma sim_stutter:
  assumes "sim E s x"
    and "ss_results t = ss_results s" "ss_completed t = ss_completed s" "ss_failed t = ss_failed s"
      "ss_chan t = ss_chan s" "ss_executing t = xs_executing x \<union> deciding (ss_pc t)"
    and "map fst (ss_workers t) = map fst (ss_workers s)" "pc_abs (ss_pc t) = pc_abs (ss_pc s)"
    and "\<forall>p \<in> set (ss_workers t). worker_ok E p"
    and "ss_pc t = Drain \<or> ss_pc t = Closed \<longrightarrow> dag_names (se_dag E) \<subseteq> ss_completed t \<union> ss_executing t"
    and "ss_pc t = Closed \<longrightarrow> ss_executing t \<inter> dag_names (se_dag E) = {}"
  shows "sim E t x"
proof -
  have w: "map (\<lambda>(n, _). (n, [] :: cb_event list)) ws = map (\<lambda>n. (n, [])) (map fst ws)" for ws :: "(string \<times> worker) list"
    by (induction ws) auto
  show ?thesis using assms unfolding sim_def w by simp
qed

text \<open>The parts of the simulation.\<close>

lemma simD:
  assumes "sim E s x"
  shows "xs_results x = map strip (ss_results s)" "xs_completed x = ss_completed s"
    "xs_failed x = ss_failed s" "ss_pc s \<noteq> Crashed \<longrightarrow> ss_executing s = xs_executing x \<union> deciding (ss_pc s)"
    "xs_chan x = map strip (ss_chan s)" "xs_closed x = False"
    "xs_workers x = map (\<lambda>(n, _). (n, [])) (ss_workers s)" "set (map snd (xs_late x)) \<subseteq> {[]}"
    "xs_pc x = pc_abs (ss_pc s)" "\<not> xs_cancelled x"
    "\<forall>p \<in> set (ss_workers s). worker_ok E p"
    "ss_pc s = Drain \<or> ss_pc s = Closed \<longrightarrow> dag_names (se_dag E) \<subseteq> ss_completed s \<union> ss_executing s"
    "ss_pc s = Closed \<longrightarrow> ss_executing s \<inter> dag_names (se_dag E) = {}"
  using assms unfolding sim_def by - ((elim conjE)?, simp only: not_False_eq_True not_True_eq_False eq_False)+

text \<open>A step of the streaming executor is a step of the other or changes nothing it sees.\<close>

definition simulated :: "stream_env \<Rightarrow> stream_state \<Rightarrow> exec_state \<Rightarrow> bool" where
  "simulated E t x \<longleftrightarrow> sim E t x \<or> (\<exists>y. exec_step (plain_env E) x y \<and> sim E t y)"

lemma simulated_stay: "sim E t x \<Longrightarrow> simulated E t x"
  by (simp add: simulated_def)

lemma simulated_step: "exec_step (plain_env E) x y \<Longrightarrow> sim E t y \<Longrightarrow> simulated E t x"
  by (auto simp: simulated_def)

lemma sim_scan:
  assumes sim: "sim E s x" and inv: "exec_inv (plain_env E) x" and dist: "distinct (map fst (se_dag E))"
    and scan: "ss_pc s = Scan" "ns \<noteq> []" "distinct ns" "set ns = set (stream_ready E s)"
  shows "simulated E (s\<lparr>ss_pc := Start ns\<rparr>) x"
proof (rule simulated_step)
  note D = simD [OF sim]
  have "ss_failed s \<subseteq> ss_completed s"
    using exec_invD(2,3) [OF inv] D(2,3) failed_subset [of "xs_results x"] by simp
  then have "set ns = set (ready_steps (se_dag E) (xs_completed x) (xs_executing x) (xs_failed x))"
    using scan D(2-4) ready_failed [OF dist] by (simp add: stream_ready_def)
  then show "exec_step (plain_env E) x (x\<lparr>xs_pc := Starting ns\<rparr>)"
    using scan D(9,10) by (intro exec_step.scan_ready) (simp_all add: plain_env_def)
  show "sim E (s\<lparr>ss_pc := Start ns\<rparr>) (x\<lparr>xs_pc := Starting ns\<rparr>)"
    using D scan by (simp add: sim_def)
qed

text \<open>The decision about a node.\<close>

lemma sim_decide:
  assumes sim: "sim E s x" and pc: "ss_pc s = Decide n ns" and nd: "map_of (se_dag E) n = Some nd"
  shows "hasFailedDependency nd (ss_failed s) \<Longrightarrow> simulated E
      (s\<lparr>ss_chan := ss_chan s @ [skip_dep_result n (getFailedDependencyNames nd (ss_failed s))], ss_pc := Start ns\<rparr>) x"
    and "\<not> hasFailedDependency nd (ss_failed s) \<Longrightarrow> se_should E n = Some False \<Longrightarrow> simulated E
      (s\<lparr>ss_events := ss_events s @ skip_events_of E n, ss_chan := ss_chan s @ [skip_cond_result n], ss_pc := Start ns\<rparr>) x"
    and "\<not> hasFailedDependency nd (ss_failed s) \<Longrightarrow> se_should E n = Some True \<Longrightarrow> simulated E
      (s\<lparr>ss_workers := ss_workers s @ [(n, Waiting)], ss_pc := (if se_ordered E then ShowStarted ns else Start ns)\<rparr>) x"
    and "\<not> hasFailedDependency nd (ss_failed s) \<Longrightarrow> se_should E n = None \<Longrightarrow> simulated E (s\<lparr>ss_pc := Crashed\<rparr>) x"
proof -
  note D = simD [OF sim]
  note steps = exec_step.start_skip_dep [of x n ns "plain_env E" nd] exec_step.start_skip_cond [of x n ns "plain_env E" nd]
    exec_step.start_run [of x n ns "plain_env E" nd "plain_run (se_run E {} n)"]
    exec_step.start_panic [of x n ns "plain_env E" nd]
  show "simulated E (s\<lparr>ss_chan := ss_chan s @ [skip_dep_result n (getFailedDependencyNames nd (ss_failed s))],
      ss_pc := Start ns\<rparr>) x" if "hasFailedDependency nd (ss_failed s)"
    by (rule simulated_step [OF steps(1)])
      (use that D pc nd in \<open>simp_all add: sim_def send_skipped_def plain_env_def\<close>)
  show "simulated E (s\<lparr>ss_events := ss_events s @ skip_events_of E n, ss_chan := ss_chan s @ [skip_cond_result n],
      ss_pc := Start ns\<rparr>) x" if "\<not> hasFailedDependency nd (ss_failed s)" "se_should E n = Some False"
    by (rule simulated_step [OF steps(2)])
      (use that D pc nd in \<open>simp_all add: sim_def send_skipped_def plain_env_def\<close>)
  show "simulated E (s\<lparr>ss_workers := ss_workers s @ [(n, Waiting)],
      ss_pc := (if se_ordered E then ShowStarted ns else Start ns)\<rparr>) x"
    if "\<not> hasFailedDependency nd (ss_failed s)" "se_should E n = Some True"
    by (rule simulated_step [OF steps(3)])
      (use that D pc nd in \<open>simp_all add: sim_def spawn_def plain_env_def plain_run_def\<close>)
  show "simulated E (s\<lparr>ss_pc := Crashed\<rparr>) x"
    if "\<not> hasFailedDependency nd (ss_failed s)" "se_should E n = None"
    by (rule simulated_step [OF steps(4)]) (use that D pc nd in \<open>simp_all add: sim_def plain_env_def\<close>)
qed

lemma sim_send:
  assumes sim: "sim E s x" and pc: "ss_pc s \<noteq> Crashed" "ss_pc s \<noteq> Closed"
    and w: "ss_workers s = ws @ (n, Sending [] late res) # ws'"
  shows "simulated E (s\<lparr>ss_workers := ws @ ws', ss_chan := ss_chan s @ [res], ss_late := ss_late s @ [late]\<rparr>) x"
proof (rule simulated_step)
  note D = simD [OF sim]
  let ?run = "plain_run (se_run E {} n)"
  let ?y = "x\<lparr>xs_workers := map (\<lambda>(n, _). (n, [])) (ws @ ws'),
    xs_chan := xs_chan x @ [worker_result (xs_cancelled x) n ?run], xs_late := xs_late x @ [(n, ar_late ?run)]\<rparr>"
  have "xs_pc x \<noteq> Panicked" using D(9) pc by (cases "ss_pc s") auto
  then show "exec_step (plain_env E) x ?y"
    using D(7) w exec_step.work_done [of x "map (\<lambda>(n, _). (n, [])) ws" n "map (\<lambda>(n, _). (n, [])) ws'" "plain_env E" ?run]
    by (simp add: plain_env_def)
  show "sim E (s\<lparr>ss_workers := ws @ ws', ss_chan := ss_chan s @ [res], ss_late := ss_late s @ [late]\<rparr>) ?y"
    using D w pc by (simp add: sim_def plain_run_def)
qed

lemma sim_receive:
  assumes sim: "sim E s x" and inv: "exec_inv (plain_env E) x"
    and pc: "ss_pc s \<noteq> Crashed" and chan: "ss_chan s = r # rs"
  shows "simulated E ((stream_collect r s)\<lparr>ss_chan := rs, ss_collector := c\<rparr>) x"
proof (rule simulated_step)
  note D = simD [OF sim] and I = exec_invD [OF inv]
  let ?y = "(collect_result (strip r) x)\<lparr>xs_chan := map strip rs\<rparr>"
  have "xs_pc x \<noteq> Panicked" using D(9) pc by (cases "ss_pc s") auto
  then show "exec_step (plain_env E) x ?y" using D(5) chan by (intro exec_step.collect) simp_all
  have "res_Name r \<notin> deciding (ss_pc s)"
  proof
    assume "res_Name r \<in> deciding (ss_pc s)"
    then obtain ns where "ss_pc s = Decide (res_Name r) ns" by (cases "ss_pc s") auto
    then have "xs_pc x = Starting (res_Name r # ns)" using D(9) by simp
    then have "res_Name r \<notin> xs_executing x" using I(10) by auto
    moreover have "res_Name r \<in> set (names_of (xs_chan x))" using D(5) chan by simp
    ultimately show False using I(1) by auto
  qed
  then show "sim E ((stream_collect r s)\<lparr>ss_chan := rs, ss_collector := c\<rparr>) ?y"
    using D pc chan unfolding sim_def by (auto simp: collect_result_def)
qed

lemma sim_no_crash:
  assumes sim: "sim E s x" and inv: "exec_inv (plain_env E) x"
    and "ss_pc s = Closed" "ss_workers s = ws @ (n, Sending [] late res) # ws'"
  shows False
proof -
  note D = simD [OF sim]
  have "n \<in> fst ` set (xs_workers x)" using assms(4) D(7) by (auto simp: image_iff)
  then have "n \<in> xs_executing x" "n \<in> dag_names (se_dag E)"
    using exec_invD(1,5) [OF inv] by (auto simp: plain_env_def)
  then show False using D(4,13) assms(3) by auto
qed

lemma sim_step:
  assumes "stream_step E s t" "\<not> ss_cancelled t" and sim: "sim E s x" and inv: "exec_inv (plain_env E) x"
    and dist: "distinct (map fst (se_dag E))" and indep: "display_independent E"
  shows "simulated E t x"
proof -
  note D = simD [OF sim]
  have nc: "\<not> ss_cancelled s" using assms(1,2) stream_cancelled_mono by blast
  from assms(1) show ?thesis
  proof cases
    case (scan_ready ns)
    then show ?thesis using sim_scan [OF sim inv dist] by simp
  next
    case start_end
    have "exec_step (plain_env E) x (x\<lparr>xs_pc := Scanning\<rparr>)"
      using start_end D(9) by (intro exec_step.start_end) simp
    moreover have "sim E t (x\<lparr>xs_pc := Scanning\<rparr>)"
      using D start_end by (simp add: sim_def)
    ultimately show ?thesis by (rule simulated_step)
  next
    case (work_run ws n ws' run)
    have "strip (ar_result run) = strip (ar_result (se_run E {} n))"
      using indep unfolding work_run display_independent_def by blast
    then have "strip ((ar_result run)\<lparr>res_Name := n\<rparr>) = worker_result False n (plain_run (se_run E {} n))"
      by (simp add: worker_result_def plain_run_def)
    then show ?thesis using D work_run by (intro simulated_stay sim_stutter [OF sim]) auto
  next
    case (decide_skip_dep n ns nd)
    then show ?thesis using sim_decide(1) [OF sim] by simp
  next
    case (decide_skip_cond n ns nd)
    then show ?thesis using sim_decide(2) [OF sim] by simp
  next
    case (decide_run n ns nd)
    then show ?thesis using sim_decide(3) [OF sim] by simp
  next
    case (decide_panic n ns nd)
    then show ?thesis using sim_decide(4) [OF sim] by simp
  next
    case (work_send ws n late res ws')
    then show ?thesis using sim_send [OF sim] by simp
  next
    case (work_crash ws n late res ws')
    then show ?thesis using sim_no_crash [OF sim inv] by blast
  next
    case (receive r rs)
    then show ?thesis using sim_receive [OF sim inv] by simp
  qed (use nc assms(2) D in \<open>(simp; fail | intro simulated_stay sim_stutter [OF sim]; auto)+\<close>)
qed

lemma stream_sim:
  assumes "stream_reach E s" "\<not> ss_cancelled s" "distinct (map fst (se_dag E))" "display_independent E"
  shows "\<exists>x. exec_reach (plain_env E) x \<and> sim E s x"
  using assms(1,2)
proof (induction rule: stream_reach.induct)
  case init
  then show ?case using sim_init exec_reach.init by blast
next
  case (step s t)
  then have "\<not> ss_cancelled s" using stream_cancelled_mono by blast
  then obtain x where x: "exec_reach (plain_env E) x" "sim E s x" using step by blast
  have "exec_inv (plain_env E) x" using exec_reach_inv [OF x(1)] assms(3) by (simp add: plain_env_def)
  from sim_step [OF step.hyps(2) step.prems x(2) this assms(3,4)] x(1)
  show ?case unfolding simulated_def by (blast intro: exec_reach.step)
qed

lemma sim_finished:
  assumes "sim E s x" "exec_reach (plain_env E) x" "distinct (map fst (se_dag E))" "stream_finished s"
  shows "\<exists>y. exec_reach (plain_env E) y \<and> exec_finished y \<and> \<not> xs_cancelled y
     \<and> xs_results y = map strip (ss_results s)"
proof -
  note D = simD [OF assms(1)]
  have inv: "exec_inv (plain_env E) x" using exec_reach_inv [OF assms(2)] assms(3) by (simp add: plain_env_def)
  have pc: "ss_pc s = Closed" "ss_chan s = []" using assms(4) by (simp_all add: stream_finished_def)
  have ex: "xs_executing x = {}"
    using exec_invD(5) [OF inv] D(4,13) pc by (auto simp: plain_env_def)
  then have all: "dag_names (se_dag E) \<subseteq> xs_completed x" using D(2,4,12) pc by auto
  have "ready_steps (se_dag E) (xs_completed x) (xs_executing x) (xs_failed x) = []"
    using all ready_steps_set [OF assms(3)] by (metis (no_types, lifting) Collect_empty_eq set_empty2 subsetD)
  then have s1: "exec_step (plain_env E) x (x\<lparr>xs_pc := Draining\<rparr>)"
    using D(9,10) pc all by (intro exec_step.scan_done) (auto simp: plain_env_def)
  have s2: "exec_step (plain_env E) (x\<lparr>xs_pc := Draining\<rparr>) (x\<lparr>xs_closed := True, xs_pc := Stopped\<rparr>)"
    using exec_step.close_chan [of "x\<lparr>xs_pc := Draining\<rparr>" "plain_env E"] ex by simp
  have "exec_reach (plain_env E) (x\<lparr>xs_closed := True, xs_pc := Stopped\<rparr>)"
    using assms(2) s1 s2 by (blast intro: exec_reach.step)
  moreover have "exec_finished (x\<lparr>xs_closed := True, xs_pc := Stopped\<rparr>)"
    using D(5) pc by (simp add: exec_finished_def)
  ultimately show ?thesis using D(1,10) by (intro exI conjI) (assumption | simp)+
qed

lemma crash_step:
  assumes "stream_step E s t" "ss_pc s \<noteq> Crashed" "ss_pc t = Crashed"
  shows "ss_pc s = Closed \<and> ss_workers s \<noteq> [] \<or> (\<exists>n \<in> dag_names (se_dag E). se_should E n = None)"
  using assms by cases (auto simp: dag_names_iff split: if_splits)

lemma stream_no_crash:
  assumes "stream_reach E s" "\<not> ss_cancelled s" "distinct (map fst (se_dag E))" "display_independent E"
    and "\<forall>n \<in> dag_names (se_dag E). se_should E n \<noteq> None"
  shows "ss_pc s \<noteq> Crashed"
  using assms(1,2)
proof (induction rule: stream_reach.induct)
  case init
  show ?case by (simp add: stream_init_def)
next
  case (step s t)
  then have nc: "\<not> ss_cancelled s" using stream_cancelled_mono by blast
  show ?case
  proof
    assume "ss_pc t = Crashed"
    then have cl: "ss_pc s = Closed" "ss_workers s \<noteq> []"
      using crash_step [OF step.hyps(2)] step.IH nc assms(5) by blast+
    obtain x where x: "exec_reach (plain_env E) x" "sim E s x"
      using stream_sim step.hyps(1) nc assms(3,4) by blast
    note D = simD [OF x(2)]
    have inv: "exec_inv (plain_env E) x" using exec_reach_inv [OF x(1)] assms(3) by (simp add: plain_env_def)
    obtain n where "n \<in> fst ` set (xs_workers x)" using cl(2) D(7) by (cases "ss_workers s") auto
    then have "n \<in> xs_executing x \<and> n \<in> dag_names (se_dag E)"
      using exec_invD(1,5) [OF inv] by (auto simp: plain_env_def)
    with D(4,13) cl(1) show False by auto
  qed
qed

lemma streaming_result_independent:
  "strip (ar_result (executeActionForDAGWithStreamingControl r w b a))
     = strip (ar_result (executeActionForDAGWithStreamingControl r w False a))"
proof (cases "act_Uses a = []")
  case True
  show ?thesis
    unfolding executeActionForDAGWithStreamingControl_def with_duration_def
      runCustomActionForDAGWithStreamingControl_def executeCommandWithStreaming_def
    using True
    by (auto simp: Let_def strip_def mk_result_def split: sum.split option.split prod.split)
qed (simp add: executeActionForDAGWithStreamingControl_def)

lemma executors_independent:
  "display_independent (streaming_env r w dag steps)" "display_independent (parallel_env r w dag steps)"
  unfolding display_independent_def streaming_env_def parallel_env_def
  using streaming_result_independent by (simp_all add: Let_def) metis

section \<open>Properties\<close>

text \<open>One step that prints a line.\<close>

definition one_env :: stream_env where
  "one_env =
     \<lparr>se_ordered = True, se_verbose = True, se_callback = False, se_steps = [plain_step ''a'' []],
      se_dag = [(''a'', \<lparr>node_Step = plain_step ''a'' [], node_Action =
          \<lparr>act_Name = ''a'', act_Run = ''echo'', act_Uses = [], act_Shell = [], act_Variants = []\<rparr>,
        node_Dependencies = [], node_Dependents = []\<rparr>)],
      se_should = (\<lambda>_. Some True),
      se_run = (\<lambda>_ _. \<lparr>ar_events = [], ar_late = [], ar_result = mk_result StatusOK ''out'', ar_err = None\<rparr>)\<rparr>"

lemma one_names: "dag_names (se_dag one_env) = {''a''}"
  by (simp add: one_env_def dag_names_def)

lemma one_ok: "distinct (map fst (se_dag one_env))" "display_independent one_env"
  by (simp_all add: one_env_def display_independent_def)

definition one_started :: stream_state where
  "one_started = stream_init\<lparr>ss_executing := {''a''}, ss_workers := [(''a'', Waiting)], ss_pc := Scan\<rparr>"

lemma one_started: "stream_reach one_env one_started"
proof -
  have 1: "stream_reach one_env (stream_init\<lparr>ss_pc := Start [''a'']\<rparr>)"
    by (rule stream_reach.step [OF stream_reach.init], rule stream_step.scan_ready) (code_simp)+
  have 2: "stream_reach one_env (stream_init\<lparr>ss_pc := Decide ''a'' [], ss_executing := {''a''}\<rparr>)"
    using stream_reach.step [OF 1 stream_step.start [of _ "''a''" "[]"]] by (simp add: stream_init_def)
  have 3: "stream_reach one_env (one_started\<lparr>ss_pc := ShowStarted []\<rparr>)"
    using stream_reach.step [OF 2 stream_step.decide_run [of _ "''a''" "[]" one_env]]
    by (simp add: stream_init_def one_started_def one_env_def hasFailedDependency_def)
  have "checkAndDisplayNextStep one_env (one_started\<lparr>ss_pc := ShowStarted []\<rparr>) = one_started\<lparr>ss_pc := ShowStarted []\<rparr>"
    by (simp add: checkAndDisplayNextStep_def one_env_def one_started_def stream_init_def Let_def split: option.split)
  then have 4: "stream_reach one_env (one_started\<lparr>ss_pc := Start []\<rparr>)"
    using stream_reach.step [OF 3 stream_step.show_started [of _ "[]"]] by simp
  show ?thesis
    using stream_reach.step [OF 4 stream_step.start_end] by (simp add: one_started_def)
qed

definition one_result :: result where
  "one_result = (mk_result StatusOK ''out'')\<lparr>res_Name := ''a''\<rparr>"

lemma one_finishes:
  "\<exists>s. stream_reach one_env s \<and> stream_finished s \<and> \<not> ss_cancelled s \<and> ss_results s = [one_result]"
proof -
  let ?w = "one_started\<lparr>ss_workers := [(''a'', Sending [] [] one_result)]\<rparr>"
  have 1: "stream_reach one_env ?w"
    using stream_reach.step [OF one_started stream_step.work_run [of _ "[]" "''a''" "[]" "se_run one_env {} ''a''"]]
    by (simp add: one_started_def stream_init_def one_env_def error_events_def one_result_def)
  have r: "stream_ready one_env ?w = []"
    by (simp add: one_started_def stream_init_def stream_ready_def getReadyStepsLocked_def one_env_def)
  have 2: "stream_reach one_env (?w\<lparr>ss_pc := Drain\<rparr>)"
    by (rule stream_reach.step [OF 1 stream_step.scan_done [OF _ _ r]])
      (simp_all add: one_names one_started_def stream_init_def)
  let ?s = "?w\<lparr>ss_pc := Drain, ss_workers := [], ss_chan := [one_result], ss_late := [[]]\<rparr>"
  have 3: "stream_reach one_env ?s"
    using stream_reach.step [OF 2 stream_step.work_send [of _ "[]" "''a''" "[]" one_result "[]"]]
    by (simp add: one_started_def stream_init_def)
  let ?c = "(stream_collect one_result ?s)\<lparr>ss_chan := [], ss_collector := Displaying ''a''\<rparr>"
  have 4: "stream_reach one_env ?c"
    using stream_reach.step [OF 3 stream_step.receive [of _ one_result "[]"]]
    by (simp add: one_started_def stream_init_def one_env_def one_result_def)
  let ?d = "(displayStepInOrder one_env ''a'' ?c)\<lparr>ss_collector := DisplayNext\<rparr>"
  have 5: "stream_reach one_env ?d"
    using stream_reach.step [OF 4 stream_step.show_result [of _ "''a''"]] by simp
  let ?e = "(checkAndDisplayNextStep one_env ?d)\<lparr>ss_collector := Receive\<rparr>"
  have 6: "stream_reach one_env ?e"
    using stream_reach.step [OF 5 stream_step.show_next] by simp
  have 7: "stream_reach one_env (?e\<lparr>ss_pc := Closed\<rparr>)"
    using stream_reach.step [OF 6 stream_step.close_done] by (simp add: one_started_def one_result_def)
  then show ?thesis
    by (intro exI conjI, assumption) (simp_all add: stream_finished_def one_started_def stream_init_def)
qed



text \<open>Without a cancellation no worker ever sends on the closed channel: the streaming executor
  crashes only if a condition panics.\<close>

theorem streaming_no_crash:
  assumes "stream_reach E s" "\<not> ss_cancelled s" "distinct (map fst (se_dag E))" "display_independent E"
    and "\<forall>n \<in> dag_names (se_dag E). se_should E n \<noteq> None"
  shows "ss_pc s \<noteq> Crashed"
  by (rule stream_no_crash [OF assms])

theorem streaming_no_crash_witness: "ss_pc one_started \<noteq> Crashed"
proof (rule streaming_no_crash [OF one_started _ one_ok])
  show "\<not> ss_cancelled one_started" by (simp add: one_started_def stream_init_def)
  show "\<forall>n \<in> dag_names (se_dag one_env). se_should one_env n \<noteq> None" by (simp add: one_env_def)
qed

text \<open>A cancellation while a command runs may crash the program: the channel is closed without
  waiting for the worker, which then may send.\<close>

lemma cancelled_streaming_crashes: "\<exists>s. stream_reach one_env s \<and> ss_pc s = Crashed"
proof -
  let ?w = "one_started\<lparr>ss_workers := [(''a'', Sending [] [] one_result)]\<rparr>"
  have 1: "stream_reach one_env ?w"
    using stream_reach.step [OF one_started stream_step.work_run [of _ "[]" "''a''" "[]" "se_run one_env {} ''a''"]]
    by (simp add: one_started_def stream_init_def one_env_def error_events_def one_result_def)
  have 2: "stream_reach one_env (?w\<lparr>ss_cancelled := True\<rparr>)"
    using stream_reach.step [OF 1 stream_step.cancel] by (simp add: one_started_def stream_init_def)
  have 3: "stream_reach one_env (?w\<lparr>ss_cancelled := True, ss_pc := Drain\<rparr>)"
    using stream_reach.step [OF 2 stream_step.scan_cancelled] by (simp add: one_started_def)
  have 4: "stream_reach one_env (?w\<lparr>ss_cancelled := True, ss_pc := Closed\<rparr>)"
    using stream_reach.step [OF 3 stream_step.close_cancelled] by (simp add: one_started_def one_names)
  have "stream_reach one_env (?w\<lparr>ss_cancelled := True, ss_pc := Crashed\<rparr>)"
    using stream_reach.step [OF 4 stream_step.work_crash [of _ "[]" "''a''" "[]" one_result "[]"]] by simp
  then show ?thesis by (intro exI conjI, assumption) simp
qed

end
