(* ===== verification/Stream_Progress.thy ===== *)
theory Stream_Progress
  imports Stream_Correct
begin

text \<open>
  The executors of \<open>Stream_Exec\<close> return: an invariant that also holds after a cancellation, a
  bound on the steps of a run, and a next step in every state that is neither finished nor
  crashed.
\<close>

section \<open>The invariant\<close>

text \<open>
  It also holds after a cancellation, which may leave names in \<open>ss_executing\<close> that nobody works
  on any more.
\<close>

fun to_start :: "stream_pc \<Rightarrow> string list" where
  "to_start (Start ns) = ns"
| "to_start (Decide n ns) = ns"
| "to_start (ShowStarted ns) = ns"
| "to_start _ = []"

fun deciding_list :: "stream_pc \<Rightarrow> string list" where
  "deciding_list (Decide n ns) = [n]"
| "deciding_list _ = []"

fun worker_named :: "string \<times> worker \<Rightarrow> bool" where
  "worker_named (n, Waiting) = True"
| "worker_named (n, Sending evs late res) = (res_Name res = n)"

definition in_flight :: "stream_state \<Rightarrow> string list" where
  "in_flight s = deciding_list (ss_pc s) @ map fst (ss_workers s) @ map res_Name (ss_chan s)"

definition stream_inv :: "stream_env \<Rightarrow> stream_state \<Rightarrow> bool" where
  "stream_inv E s \<longleftrightarrow>
     (ss_pc s = Crashed \<or>
       distinct (in_flight s) \<and> set (in_flight s) \<subseteq> ss_executing s
       \<and> (\<not> ss_cancelled s \<longrightarrow> ss_executing s \<subseteq> set (in_flight s)))
     \<and> ss_executing s \<inter> ss_completed s = {}
     \<and> ss_executing s \<union> ss_completed s \<subseteq> dag_names (se_dag E)
     \<and> distinct (to_start (ss_pc s))
     \<and> set (to_start (ss_pc s)) \<subseteq> dag_names (se_dag E) - ss_executing s - ss_completed s
     \<and> (\<forall>p \<in> set (ss_workers s). worker_named p)"

lemma stream_inv_init: "stream_inv E stream_init"
  by (simp add: stream_inv_def stream_init_def in_flight_def)

lemma stream_ready_set:
  assumes "distinct (map fst (se_dag E))"
  shows "set (stream_ready E s) = {n \<in> dag_names (se_dag E). n \<notin> ss_completed s \<and> n \<notin> ss_executing s
           \<and> set (dag_deps (se_dag E) n) \<subseteq> ss_completed s}"
  using ready_failed [OF assms, of "{}" "ss_completed s" "ss_executing s"] ready_steps_set [OF assms]
  by (simp add: stream_ready_def)

lemma stream_inv_step:
  assumes "stream_step E s t" "stream_inv E s" "distinct (map fst (se_dag E))"
  shows "stream_inv E t"
  using assms(1,2)
proof cases
  case (scan_ready ns)
  then show ?thesis using assms(2)
    by (auto simp: stream_inv_def in_flight_def stream_ready_set [OF assms(3)])
next
  case (work_run ws n ws' run)
  show ?thesis using assms(2) unfolding stream_inv_def in_flight_def work_run(1) by (simp add: work_run(2,3))
next
  case (receive r rs)
  have names: "set (in_flight s) = insert (res_Name r) (set (in_flight t))"
    "distinct (in_flight s) \<longleftrightarrow> distinct (in_flight t) \<and> res_Name r \<notin> set (in_flight t)"
    by (auto simp: in_flight_def receive)
  have frame: "ss_executing t = ss_executing s - {res_Name r}" "ss_completed t = insert (res_Name r) (ss_completed s)"
    "ss_pc t = ss_pc s" "ss_cancelled t = ss_cancelled s" "ss_workers t = ss_workers s"
    by (simp_all add: receive)
  show ?thesis using assms(2) receive(2) unfolding stream_inv_def frame names by blast
qed (use assms(2) in \<open>auto simp: stream_inv_def in_flight_def\<close>)

lemma stream_reach_inv:
  assumes "stream_reach E s" "distinct (map fst (se_dag E))"
  shows "stream_inv E s"
  using assms(1) by (induction rule: stream_reach.induct) (use stream_inv_init stream_inv_step assms(2) in blast)+

section \<open>Termination\<close>

text \<open>
  A command may print any number of lines, so the bound is lexicographic: first the nodes and
  workers that have not begun to run, then what is under way.
\<close>

fun is_waiting :: "worker \<Rightarrow> bool" where
  "is_waiting Waiting = True"
| "is_waiting (Sending evs late res) = False"

definition to_run :: "stream_env \<Rightarrow> stream_state \<Rightarrow> nat" where
  "to_run E s =
     3 * card (dag_names (se_dag E) - ss_executing s - ss_completed s)
     + 2 * length (deciding_list (ss_pc s)) + length (filter (is_waiting \<circ> snd) (ss_workers s))"

fun worker_weight :: "worker \<Rightarrow> nat" where
  "worker_weight Waiting = 0"
| "worker_weight (Sending evs late res) = 4 + length evs + length late"

fun stream_pc_weight :: "stream_pc \<Rightarrow> nat" where
  "stream_pc_weight (Decide n ns) = 7"
| "stream_pc_weight (ShowStarted ns) = 6"
| "stream_pc_weight (Start []) = 5"
| "stream_pc_weight Scan = 4"
| "stream_pc_weight (Start (n # ns)) = 3"
| "stream_pc_weight Drain = 2"
| "stream_pc_weight Closed = 1"
| "stream_pc_weight Crashed = 0"

fun collector_weight :: "collector_pc \<Rightarrow> nat" where
  "collector_weight Receive = 0"
| "collector_weight (Displaying n) = 2"
| "collector_weight DisplayNext = 1"

definition under_way :: "stream_state \<Rightarrow> nat" where
  "under_way s =
     sum_list (map (worker_weight \<circ> snd) (ss_workers s)) + sum_list (map length (ss_late s))
     + 3 * length (ss_chan s) + collector_weight (ss_collector s) + stream_pc_weight (ss_pc s)
     + (if ss_cancelled s then 0 else 1)"

definition stream_order :: "stream_env \<Rightarrow> (stream_state \<times> stream_state) set" where
  "stream_order E = measures [to_run E, under_way]"

lemma display_frame [simp]:
  "ss_late (displayStepInOrder E n s) = ss_late s" "ss_late (checkAndDisplayNextStep E s) = ss_late s"
  "ss_collector (displayStepInOrder E n s) = ss_collector s"
  "ss_collector (checkAndDisplayNextStep E s) = ss_collector s"
  "ss_late (stream_collect r s) = ss_late s"
  by (simp_all add: displayStepInOrder_def checkAndDisplayNextStep_def stream_collect_def Let_def split: option.split)

lemma unstarted_less:
  assumes "finite A" "n \<in> A - X - C"
  shows "card (A - insert n X - C) < card (A - X - C)"
  using assms by (intro psubset_card_mono) auto

lemma stream_order_step:
  assumes "stream_step E s t" "stream_inv E s"
  shows "(t, s) \<in> stream_order E"
  using assms(1)
proof cases
  case (scan_ready ns)
  then show ?thesis by (cases ns) (auto simp: stream_order_def to_run_def under_way_def)
next
  case (start n ns)
  then have "n \<in> dag_names (se_dag E) - ss_executing s - ss_completed s"
    using assms(2) by (auto simp: stream_inv_def)
  from unstarted_less [OF _ this] show ?thesis using start by (simp add: stream_order_def to_run_def)
next
  case (decide_run n ns nd)
  then show ?thesis by (simp add: stream_order_def to_run_def)
next
  case (receive r rs)
  have "res_Name r \<in> ss_executing s" using assms(2) receive by (auto simp: stream_inv_def in_flight_def)
  then have "dag_names (se_dag E) - (ss_executing s - {res_Name r}) - insert (res_Name r) (ss_completed s)
      = dag_names (se_dag E) - ss_executing s - ss_completed s" by auto
  then show ?thesis using receive by (simp add: stream_order_def to_run_def under_way_def)
next
  case (show_started ns)
  then show ?thesis by (cases ns) (auto simp: stream_order_def to_run_def under_way_def)
qed (auto simp: stream_order_def to_run_def under_way_def)

section \<open>Progress\<close>

lemma stream_scan_progress:
  assumes "ss_pc s = Scan" "\<not> ss_cancelled s" "ss_executing s = {}" "graph_ok (se_dag E)"
  shows "\<exists>t. stream_step E s t \<and> ss_cancelled t = ss_cancelled s"
proof -
  have ready: "set (stream_ready E s) = {n \<in> dag_names (se_dag E). n \<notin> ss_completed s
      \<and> set (dag_deps (se_dag E) n) \<subseteq> ss_completed s}"
    using assms(3,4) by (simp add: stream_ready_set graph_ok_def)
  show ?thesis
  proof (cases "stream_ready E s = []")
    case True
    then have "\<forall>n \<in> dag_names (se_dag E). n \<in> ss_completed s \<or> n \<in> ss_executing s"
      using exists_ready [of "se_dag E" _ "ss_completed s"] ready assms(4) by (auto simp: graph_ok_def)
    from scan_done [OF assms(1,2) True this] show ?thesis by fastforce
  next
    case False
    from scan_ready [OF assms(1,2), of "remdups (stream_ready E s)" E] False show ?thesis by fastforce
  qed
qed

lemma stream_decide_progress:
  assumes Decide: "ss_pc s = Decide n ns" and nd: "map_of (se_dag E) n = Some nd"
  shows "\<exists>t. stream_step E s t \<and> ss_cancelled t = ss_cancelled s"
proof -
  let ?failed = "hasFailedDependency nd (ss_failed s)"
  consider (dep) ?failed | (panic) "\<not> ?failed" "se_should E n = None"
    | (cond) "\<not> ?failed" "se_should E n = Some False" | (run) "\<not> ?failed" "se_should E n = Some True"
    by (cases "se_should E n") auto
  then show ?thesis
  proof cases
    case dep
    from decide_skip_dep [OF Decide nd this] show ?thesis by fastforce
  next
    case panic
    from decide_panic [OF Decide nd this] show ?thesis by fastforce
  next
    case cond
    from decide_skip_cond [OF Decide nd this] show ?thesis by fastforce
  next
    case run
    from decide_run [OF Decide nd this] show ?thesis by fastforce
  qed
qed

lemma stream_idle_progress:
  assumes I: "stream_inv E s" and g: "graph_ok (se_dag E)"
    and nf: "\<not> stream_finished s" "ss_pc s \<noteq> Crashed"
    and idle: "ss_collector s = Receive" "ss_chan s = []" "ss_workers s = []"
  shows "\<exists>t. stream_step E s t \<and> ss_cancelled t = ss_cancelled s"
proof -
  have node: "\<exists>nd. map_of (se_dag E) n = Some nd" if "n \<in> ss_executing s" for n
    using I that by (auto simp: stream_inv_def dag_names_iff)
  show ?thesis
  proof (cases "ss_pc s")
    case (Start ns)
    then show ?thesis
      by (cases ns; cases "ss_cancelled s")
        (fastforce dest: start_end [of s E] start_cancelled [of s _ _ E] stream_step.start [of s _ _ E])+
  next
    case (Decide n ns)
    then have "n \<in> ss_executing s" using I nf(2) by (simp add: stream_inv_def in_flight_def)
    then obtain nd where nd: "map_of (se_dag E) n = Some nd" using node by blast
    from stream_decide_progress [OF Decide nd] show ?thesis .
  next
    case (ShowStarted ns)
    from show_started [OF this, of E] show ?thesis by fastforce
  next
    case Drain
    show ?thesis
    proof (cases "ss_executing s \<inter> dag_names (se_dag E) = {}")
      case True
      from close_done [OF Drain this] show ?thesis by fastforce
    next
      case False
      then have "ss_cancelled s" using I idle Drain by (auto simp: stream_inv_def in_flight_def)
      from close_cancelled [OF Drain this False] show ?thesis by fastforce
    qed
  next
    case Closed
    then show ?thesis using nf(1) idle by (simp add: stream_finished_def)
  next
    case Crashed
    then show ?thesis using nf(2) by simp
  next
    case Scan
    show ?thesis
    proof (cases "ss_cancelled s")
      case True
      from scan_cancelled [OF Scan True, of E] True show ?thesis by fastforce
    next
      case False
      then have ex: "ss_executing s = {}" using I idle Scan by (simp add: stream_inv_def in_flight_def)
      from stream_scan_progress [OF Scan False ex g] show ?thesis .
    qed
  qed
qed

lemma stream_progress:
  assumes I: "stream_inv E s" and g: "graph_ok (se_dag E)"
    and nf: "\<not> stream_finished s" "ss_pc s \<noteq> Crashed"
  shows "\<exists>t. stream_step E s t \<and> ss_cancelled t = ss_cancelled s"
proof -
  consider (busy) "ss_collector s \<noteq> Receive"
    | (receive) r rs where "ss_collector s = Receive" "ss_chan s = r # rs"
    | (worker) n wk ws where "ss_workers s = (n, wk) # ws"
    | (idle) "ss_collector s = Receive" "ss_chan s = []" "ss_workers s = []"
    by (metis neq_Nil_conv surj_pair)
  then show ?thesis
  proof cases
    case busy
    then show ?thesis
      by (cases "ss_collector s") (fastforce dest: show_result [OF nf(2), of _ E] show_next [OF nf(2), of E])+
  next
    case (receive r rs)
    from stream_step.receive [OF nf(2) this, of E] show ?thesis by fastforce
  next
    case (worker n wk ws)
    show ?thesis
    proof (cases wk)
      case Waiting
      from work_run [OF nf(2) _ refl, of "[]" n ws E] worker Waiting show ?thesis by fastforce
    next
      case (Sending evs late res)
      show ?thesis
      proof (cases evs)
        case Nil
        from work_send [OF nf(2), of "[]" n late res ws E] work_crash [of s "[]" n late res ws E]
        show ?thesis using worker Sending Nil by (cases "ss_pc s = Closed") fastforce+
      next
        case (Cons e es)
        from work_event [OF nf(2), of "[]" n e es late res ws E] worker Sending Cons show ?thesis by fastforce
      qed
    qed
  next
    case idle
    then show ?thesis by (rule stream_idle_progress [OF I g nf])
  qed
qed

section \<open>Runs to the end\<close>

lemma stream_run_to_end:
  assumes "graph_ok (se_dag E)" "display_independent E" "\<forall>n \<in> dag_names (se_dag E). se_should E n \<noteq> None"
    and "stream_reach E s" "\<not> ss_cancelled s"
  shows "\<exists>t. stream_reach E t \<and> stream_finished t \<and> \<not> ss_cancelled t"
proof -
  have dist: "distinct (map fst (se_dag E))" using assms(1) by (simp add: graph_ok_def)
  have "wf (stream_order E)" by (simp add: stream_order_def)
  then show ?thesis using assms(4,5)
  proof (induction s rule: wf_induct_rule)
    case (less s)
    show ?case
    proof (cases "stream_finished s")
      case False
      have I: "stream_inv E s" using stream_reach_inv less.prems(1) dist .
      have "ss_pc s \<noteq> Crashed" by (rule stream_no_crash [OF less.prems dist assms(2,3)])
      then obtain t where t: "stream_step E s t" "ss_cancelled t = ss_cancelled s"
        using stream_progress [OF I assms(1) False] by blast
      show ?thesis
        by (rule less.IH [OF stream_order_step [OF t(1) I] stream_reach.step [OF less.prems(1) t(1)]])
          (use t(2) less.prems(2) in simp)
    qed (use less.prems in blast)
  qed
qed

end
