(* ===== verification/Stage_Executors.thy ===== *)
theory Stage_Executors
  imports Stage_Correct Stream_Progress
begin

text \<open>
  What the error policy of \<open>RunStage\<close> and the summaries need from an executor, as the contract
  \<open>stage_executor\<close>, met by the executor with callbacks and by the streaming executor, and the
  properties of \<open>RunStage\<close> that hold whichever of them it chooses.
\<close>

section \<open>The contract of an executor\<close>

text \<open>
  What the error policy and the summaries rely on, for the runs of a stage: \<open>reached\<close> are the
  states of its runs, \<open>results\<close> the results collected. The order of the results is not part
  of the contract.
\<close>

locale stage_executor =
  fixes steps :: "step list"
    and reached :: "'s \<Rightarrow> bool" and finished :: "'s \<Rightarrow> bool" and cancelled :: "'s \<Rightarrow> bool"
    and results :: "'s \<Rightarrow> result list"
  assumes one_result: "reached s \<Longrightarrow> finished s \<Longrightarrow> \<not> cancelled s \<Longrightarrow> distinct (map res_Name (results s))"
    and complete: "reached s \<Longrightarrow> finished s \<Longrightarrow> \<not> cancelled s \<Longrightarrow>
      res_Name ` set (results s) = step_Action ` set steps"
    and determined: "reached s \<Longrightarrow> finished s \<Longrightarrow> \<not> cancelled s \<Longrightarrow> reached t \<Longrightarrow> finished t \<Longrightarrow> \<not> cancelled t \<Longrightarrow>
      res \<in> set (results s) \<Longrightarrow> \<exists>res' \<in> set (results t). res_Name res' = res_Name res \<and> res_Status res' = res_Status res"
begin

lemma results_count:
  assumes "reached s" "finished s" "\<not> cancelled s"
  shows "length (results s) = card (step_Action ` set steps)"
proof -
  have "length (results s) = card (set (map res_Name (results s)))"
    using distinct_card [OF one_result [OF assms]] by simp
  also have "\<dots> = card (step_Action ` set steps)" using complete [OF assms] by simp
  finally show ?thesis .
qed

lemma policy_le:
  assumes "reached s" "finished s" "\<not> cancelled s" "reached t" "finished t" "\<not> cancelled t"
    and "snd (check_results r steps (results t)) = None"
  shows "snd (check_results r' steps (results s)) = None"
proof (rule ccontr)
  assume "snd (check_results r' steps (results s)) \<noteq> None"
  then obtain res where res: "res \<in> set (results s)" "res_Status res = StatusError"
    "\<not> tolerated steps (res_Name res)"
    using check_results_cases [where r = r' and steps = steps and rs = "results s"] by (auto split: option.splits)
  then obtain res' where "res' \<in> set (results t)" "res_Name res' = res_Name res" "res_Status res' = StatusError"
    using determined [OF assms(1-6)] by metis
  with res(3) check_results_cases [where r = r and steps = steps and rs = "results t"] assms(7) show False by auto
qed

lemma policy_determined:
  assumes "reached s" "finished s" "\<not> cancelled s" "reached t" "finished t" "\<not> cancelled t"
  shows "snd (check_results r steps (results s)) = None \<longleftrightarrow> snd (check_results r steps (results t)) = None"
  using policy_le assms by blast

end

section \<open>The two executors\<close>

text \<open>The orders in which the graph is built do not matter.\<close>

lemma built_same:
  assumes "built r steps dag" "built r steps dag'"
  shows "dag_names dag = dag_names dag'" "dag_deps dag = dag_deps dag'"
    "node_should r dag = node_should r dag'" "node_run r w dag steps = node_run r w dag' steps"
    "node_action dag = node_action dag'"
proof -
  show names: "dag_names dag = dag_names dag'" using built_graph(2) assms by metis
  have *: "(map_of dag n = None \<and> map_of dag' n = None)
      \<or> (\<exists>nd nd'. map_of dag n = Some nd \<and> map_of dag' n = Some nd' \<and> node_Step nd = node_Step nd'
          \<and> node_Action nd = node_Action nd' \<and> node_Dependencies nd = node_Dependencies nd')" for n
  proof (cases "map_of dag n")
    case None
    then show ?thesis using names dag_names_iff by (metis not_None_eq)
  next
    case (Some nd)
    then obtain nd' where nd': "map_of dag' n = Some nd'" using names dag_names_iff by (metis not_None_eq)
    show ?thesis
      using built_node [OF assms(1) Some] built_node [OF assms(2) nd'] Some nd' by simp
  qed
  show "dag_deps dag = dag_deps dag'" "node_should r dag = node_should r dag'" "node_action dag = node_action dag'"
    using * by (auto simp: dag_deps_def node_should_def node_action_def fun_eq_iff split: option.split)
      (metis option.distinct(1) option.inject)+
  show "node_run r w dag steps = node_run r w dag' steps"
    using * by (auto simp: node_run_def fun_eq_iff split: option.split)
      (metis option.distinct(1) option.inject)+
qed

definition callback_reached :: "runner \<Rightarrow> world \<Rightarrow> step list \<Rightarrow> exec_state \<Rightarrow> bool" where
  "callback_reached r w steps s = (\<exists>dag. built r steps dag \<and> exec_reach (stage_env r w dag steps) s)"

definition streaming_reached :: "runner \<Rightarrow> world \<Rightarrow> step list \<Rightarrow> stream_state \<Rightarrow> bool" where
  "streaming_reached r w steps s = (\<exists>dag. built r steps dag \<and> stream_reach (streaming_env r w dag steps) s)"

lemma exec_results_determined:
  assumes "graph_ok (xe_dag E)" "exec_reach E s" "exec_finished s" "\<not> xs_cancelled s"
    and "graph_ok (xe_dag F)" "exec_reach F t" "exec_finished t" "\<not> xs_cancelled t" "same_stage E F"
  shows "set (xs_results s) = set (xs_results t)"
proof -
  have "exec_inv E s" "exec_inv F t" using exec_reach_inv assms by (simp_all add: graph_ok_def)
  then show ?thesis
    using final_results_agree [OF assms] final_result_iff by (intro set_eqI) metis
qed

lemma callback_results:
  assumes "callback_reached r w steps s" "exec_finished s" "\<not> xs_cancelled s"
  shows "distinct (map res_Name (xs_results s))" "res_Name ` set (xs_results s) = step_Action ` set steps"
proof -
  obtain dag where dag: "built r steps dag" "exec_reach (stage_env r w dag steps) s"
    using assms(1) by (auto simp: callback_reached_def)
  have I: "exec_inv (stage_env r w dag steps) s" using exec_reach_inv [OF dag(2)] built_keys [OF dag(1)] by simp
  show "distinct (map res_Name (xs_results s))" using exec_inv_parts(4) [OF I] by (simp add: names_of_def)
  show "res_Name ` set (xs_results s) = step_Action ` set steps"
    using finished_all [OF I assms(2,3)] built_graph(2) [OF dag(1)] by (simp add: names_of_def)
qed

lemma callback_determined:
  assumes "callback_reached r w steps s" "exec_finished s" "\<not> xs_cancelled s"
    "callback_reached r w steps t" "exec_finished t" "\<not> xs_cancelled t"
  shows "set (xs_results s) = set (xs_results t)"
proof -
  obtain dag dag' where dag: "built r steps dag" "exec_reach (stage_env r w dag steps) s"
    "built r steps dag'" "exec_reach (stage_env r w dag' steps) t"
    using assms(1,4) by (auto simp: callback_reached_def)
  have "same_stage (stage_env r w dag steps) (stage_env r w dag' steps)"
    using built_same [OF dag(1,3)] by (simp add: same_stage_def)
  then show ?thesis
    using exec_results_determined [of "stage_env r w dag steps" s "stage_env r w dag' steps" t]
      built_graph(1) dag assms by simp
qed

interpretation callback_executor:
  stage_executor steps "callback_reached r w steps" exec_finished xs_cancelled xs_results for steps r w
  by unfold_locales (use callback_results callback_determined in blast)+

text \<open>The streaming executor meets the contract through its refinement.\<close>

lemma streaming_refined:
  assumes "streaming_reached r w steps s" "stream_finished s" "\<not> ss_cancelled s"
  obtains dag x where "built r steps dag" "exec_reach (plain_env (streaming_env r w dag steps)) x"
    "exec_finished x" "\<not> xs_cancelled x" "xs_results x = map strip (ss_results s)"
proof -
  obtain dag where dag: "built r steps dag" "stream_reach (streaming_env r w dag steps) s"
    using assms(1) by (auto simp: streaming_reached_def)
  have E: "distinct (map fst (se_dag (streaming_env r w dag steps)))" "display_independent (streaming_env r w dag steps)"
    using built_keys [OF dag(1)] executors_independent by (simp_all add: streaming_env_def)
  obtain y where "exec_reach (plain_env (streaming_env r w dag steps)) y" "sim (streaming_env r w dag steps) s y"
    using stream_sim [OF dag(2) assms(3) E] by blast
  from sim_finished [OF this(2,1) E(1) assms(2)] show thesis using that [OF dag(1)] by blast
qed

lemma plain_same:
  assumes "built r steps dag" "built r steps dag'"
  shows "same_stage (plain_env (streaming_env r w dag steps)) (plain_env (streaming_env r w dag' steps))"
  using built_same [OF assms] by (simp add: same_stage_def plain_env_def streaming_env_def)

lemma plain_graph: "built r steps dag \<Longrightarrow> graph_ok (xe_dag (plain_env (streaming_env r w dag steps)))"
  using built_graph(1) by (simp add: plain_env_def streaming_env_def)

lemma map_strip [simp]: "map res_Name (map strip rs) = map res_Name rs" "res_Name ` strip ` A = res_Name ` A"
  by (simp_all add: image_image)

lemma streaming_results:
  assumes "streaming_reached r w steps s" "stream_finished s" "\<not> ss_cancelled s"
  shows "distinct (map res_Name (ss_results s))" "res_Name ` set (ss_results s) = step_Action ` set steps"
proof -
  obtain dag x where x: "built r steps dag" "exec_reach (plain_env (streaming_env r w dag steps)) x"
    "exec_finished x" "\<not> xs_cancelled x" "xs_results x = map strip (ss_results s)"
    using streaming_refined [OF assms] .
  have I: "exec_inv (plain_env (streaming_env r w dag steps)) x"
    using exec_reach_inv [OF x(2)] plain_graph [OF x(1)] by (simp add: graph_ok_def)
  have "distinct (map res_Name (map strip (ss_results s)))"
    using exec_inv_parts(4) [OF I] unfolding names_of_def x(5) distinct_append by blast
  then show "distinct (map res_Name (ss_results s))" unfolding map_strip .
  have "res_Name ` set (map strip (ss_results s)) = dag_names dag"
    using finished_all [OF I x(3,4)] unfolding names_of_def x(5) by (simp add: plain_env_def streaming_env_def)
  then show "res_Name ` set (ss_results s) = step_Action ` set steps"
    using built_graph(2) [OF x(1)] by (simp add: image_image)
qed

lemma streaming_determined:
  assumes "streaming_reached r w steps s" "stream_finished s" "\<not> ss_cancelled s"
    "streaming_reached r w steps t" "stream_finished t" "\<not> ss_cancelled t"
  shows "strip ` set (ss_results s) = strip ` set (ss_results t)"
proof -
  obtain dag x where x: "built r steps dag" "exec_reach (plain_env (streaming_env r w dag steps)) x"
    "exec_finished x" "\<not> xs_cancelled x" "xs_results x = map strip (ss_results s)"
    using streaming_refined [OF assms(1-3)] .
  obtain dag' y where y: "built r steps dag'" "exec_reach (plain_env (streaming_env r w dag' steps)) y"
    "exec_finished y" "\<not> xs_cancelled y" "xs_results y = map strip (ss_results t)"
    using streaming_refined [OF assms(4-6)] .
  have "set (xs_results x) = set (xs_results y)"
    by (rule exec_results_determined [OF plain_graph x(2-4) plain_graph y(2-4) plain_same]) (use x(1) y(1) in simp_all)
  then show ?thesis using x(5) y(5) by simp
qed

interpretation streaming_executor:
  stage_executor steps "streaming_reached r w steps" stream_finished ss_cancelled ss_results for steps r w
proof
  fix s t res assume *: "streaming_reached r w steps s" "stream_finished s" "\<not> ss_cancelled s"
    "streaming_reached r w steps t" "stream_finished t" "\<not> ss_cancelled t" "res \<in> set (ss_results s)"
  then have "strip res \<in> strip ` set (ss_results t)" using streaming_determined [OF *(1-6)] by blast
  then obtain res' where "res' \<in> set (ss_results t)" "strip res = strip res'" by blast
  then show "\<exists>res' \<in> set (ss_results t). res_Name res' = res_Name res \<and> res_Status res' = res_Status res"
    by (metis strip_simps(1,2))
qed (use streaming_results in blast)+

section \<open>Options that are not used\<close>

text \<open>The options \<open>Only\<close>, \<open>MaxParallel\<close> and \<open>WithRequires\<close>.\<close>

definition with_limits :: "string list \<Rightarrow> int \<Rightarrow> bool \<Rightarrow> runner \<Rightarrow> runner" where
  "with_limits only k requires r =
     r\<lparr>rn_opts := (rn_opts r)\<lparr>ro_Only := only, ro_MaxParallel := k, ro_WithRequires := requires\<rparr>\<rparr>"

lemma with_limits_simps [simp]:
  "rn_config (with_limits ls k b r) = rn_config r" "rn_registry (with_limits ls k b r) = rn_registry r"
  "rn_env (with_limits ls k b r) = rn_env r" "rn_goos (with_limits ls k b r) = rn_goos r"
  "rn_lookpath (with_limits ls k b r) = rn_lookpath r"
  "ro_Verbose (rn_opts (with_limits ls k b r)) = ro_Verbose (rn_opts r)"
  "ro_Debug (rn_opts (with_limits ls k b r)) = ro_Debug (rn_opts r)"
  "ro_DryRun (rn_opts (with_limits ls k b r)) = ro_DryRun (rn_opts r)"
  "ro_Variables (rn_opts (with_limits ls k b r)) = ro_Variables (rn_opts r)"
  "ro_WorkingDir (rn_opts (with_limits ls k b r)) = ro_WorkingDir (rn_opts r)"
  "ro_StepCallback (rn_opts (with_limits ls k b r)) = ro_StepCallback (rn_opts r)"
  "vars_of (rn_opts (with_limits ls k b r)) = vars_of (rn_opts r)"
  by (simp_all add: with_limits_def vars_of_def)

lemma with_limits_runs:
  "getShellCommand (with_limits ls k b r) = getShellCommand r" "mk_command (with_limits ls k b r) = mk_command r"
  "with_callback (with_limits ls k b r) = with_callback r" "out_events (with_limits ls k b r) = out_events r"
  "buffered_run (with_limits ls k b r) = buffered_run r" "step_warning (with_limits ls k b r) = step_warning r"
  "shouldExecuteStepByCondition (with_limits ls k b r) = shouldExecuteStepByCondition r"
  by (unfold getShellCommand_def mk_command_def with_callback_def out_events_def buffered_run_def
      step_warning_def verbose_line_def shouldExecuteStepByCondition_def with_limits_simps, (rule refl)+)

lemma with_limits_nodes:
  "executeCommandWithStreaming (with_limits ls k b r) = executeCommandWithStreaming r"
  "runBuiltInActionForDAG (with_limits ls k b r) = runBuiltInActionForDAG r"
  "shouldExecuteStep (with_limits ls k b r) = shouldExecuteStep r"
  by (unfold executeCommandWithStreaming_def runBuiltInActionForDAG_def shouldExecuteStep_def
      with_limits_runs with_limits_simps, (rule refl)+)

lemma with_limits_actions:
  "executeActionForDAGWithCallback (with_limits ls k b r) = executeActionForDAGWithCallback r"
  "executeActionForDAGWithStreamingControl (with_limits ls k b r) = executeActionForDAGWithStreamingControl r"
  "node_should (with_limits ls k b r) = node_should r"
  by (unfold executeActionForDAGWithCallback_def executeActionForDAGWithStreamingControl_def
      runCustomActionForDAG_def runCustomActionForDAGWithStreamingControl_def node_should_def
      with_limits_nodes with_limits_runs with_limits_simps, (rule refl)+)

lemma with_limits_step: "RunStageStep (with_limits ls k b r) = RunStageStep r"
  by (unfold RunStageStep_def run_reported_def runActionInternal_def runBuiltInAction_def runCustomAction_def
      verbose_line_def with_limits_nodes with_limits_runs with_limits_simps, (rule refl)+)

lemma with_limits_env:
  "stage_env (with_limits ls k b r) = stage_env r" "streaming_env (with_limits ls k b r) = streaming_env r"
  by (unfold stage_env_def streaming_env_def node_run_def with_limits_actions with_limits_simps, (rule refl)+)

lemma with_limits_check:
  "check_steps (with_limits ls k b r) res steps = check_steps r res steps"
  "check_results (with_limits ls k b r) steps rs = check_results r steps rs"
proof -
  show steps: "check_steps (with_limits ls k b r) res steps = check_steps r res steps" for res steps
    by (induction steps) (simp_all add: with_limits_runs)
  show "check_results (with_limits ls k b r) steps rs = check_results r steps rs"
    by (induction rs) (simp_all add: steps)
qed

lemma with_limits_stage:
  assumes "RunStage r w lo co stageName out" "\<not> ro_DryRun (rn_opts r)"
  shows "RunStage (with_limits ls k b r) w lo co stageName out"
  using assms(1)
proof (cases rule: RunStage.cases)
  case (known stg)
  let ?r = "with_limits ls k b r"
  from known(2) have "runStageInternal ?r w lo co stageName (stage_Steps stg) out"
  proof (cases rule: runStageInternal.cases)
    case callback
    from callback(3) have "executeStageWithCallback ?r w lo co (stage_Steps stg) out"
      by (cases rule: executeStageWithCallback.cases)
        (auto simp: with_limits_check with_limits_env intro!: executeStageWithCallback.intros)
    then show ?thesis using callback(1,2) by (intro runStageInternal.callback) simp_all
  next
    case (streamed dag s warnings policy)
    show ?thesis
      unfolding streamed(1) with_limits_env(2) [of ls k b r, symmetric]
      by (rule runStageInternal.streamed) (use streamed in \<open>simp_all add: with_limits_check with_limits_env\<close>)
  qed (use assms(2) in \<open>auto intro: runStageInternal.intros\<close>)
  then show ?thesis using known(1) by (intro RunStage.known) simp_all
qed (auto intro: RunStage.unknown)

lemma with_limits_back: "with_limits (ro_Only (rn_opts r)) (ro_MaxParallel (rn_opts r)) (ro_WithRequires (rn_opts r))
    (with_limits ls k b r) = r"
  by (simp add: with_limits_def)

section \<open>Properties\<close>

fun outcome_cancelled :: "stage_outcome \<Rightarrow> bool" where
  "outcome_cancelled (Finished s warnings err) = xs_cancelled s"
| "outcome_cancelled (Streamed s warnings err) = ss_cancelled s"
| "outcome_cancelled (Refused e) = False"
| "outcome_cancelled (DryRan out err) = False"

lemma remaining_frame [simp]:
  "ss_results (displayRemainingSteps E s) = ss_results s"
  "ss_cancelled (displayRemainingSteps E s) = ss_cancelled s"
proof -
  let ?f = "\<lambda>(st :: step) (s :: stream_state). let n = step_Action st in
      if n \<in> ss_displayed s then s
      else (case ss_resultMap s n of
              None \<Rightarrow> s
            | Some res \<Rightarrow> s\<lparr>ss_events := ss_events s @ display_completion E n res,
                            ss_displayed := insert n (ss_displayed s)\<rparr>)"
  have "ss_results (fold ?f sts s) = ss_results s \<and> ss_cancelled (fold ?f sts s) = ss_cancelled s" for sts
    by (induction sts arbitrary: s) (simp_all add: Let_def split: option.split)
  then show "ss_results (displayRemainingSteps E s) = ss_results s"
    "ss_cancelled (displayRemainingSteps E s) = ss_cancelled s" by (simp_all add: displayRemainingSteps_def)
qed

lemma accepted_indep:
  assumes "range_order lo" "range_order co" "buildDAG c lo co steps = Ok dag"
    and "range_order lo'" "range_order co'"
  shows "buildDAG c lo' co' steps \<noteq> Err e"
  using buildDAG_Ok(1-3) [OF assms(1-3)] buildDAG_Err [OF assms(4,5)] by blast

text \<open>How an outcome came about, for either executor.\<close>

lemma internal_outcome [consumes 4, case_names dry refused callback streamed]:
  assumes "runStageInternal r w lo co stageName steps out" "range_order lo" "range_order co"
    and "\<not> outcome_cancelled out"
  obtains (dry) "ro_DryRun (rn_opts r)"
      "\<And>ls err. executeStageDryRun r stageName steps = Some (ls, err) \<longleftrightarrow> out = DryRan ls err"
    | (refused) e where "\<not> ro_DryRun (rn_opts r)" "buildDAG (rn_config r) lo co steps = Err e"
        "outcome_error out = Some (BuildDAGFailed e)"
    | (callback) s dag where "\<not> ro_DryRun (rn_opts r)" "ro_StepCallback (rn_opts r)"
        "buildDAG (rn_config r) lo co steps = Ok dag"
        "callback_reached r w steps s" "exec_finished s" "\<not> xs_cancelled s"
        "outcome_error out = snd (check_results r steps (xs_results s))"
    | (streamed) s dag where "\<not> ro_DryRun (rn_opts r)" "\<not> ro_StepCallback (rn_opts r)"
        "buildDAG (rn_config r) lo co steps = Ok dag"
        "streaming_reached r w steps s" "stream_finished s" "\<not> ss_cancelled s"
        "outcome_error out = snd (check_results r steps (ss_results s))"
  using assms(1)
proof cases
  case dry
  then show thesis using that(1) by auto
next
  case callback
  from callback(3) show thesis
  proof (cases rule: executeStageWithCallback.cases)
    case (no_graph e)
    then show thesis using that(2) callback(1) by simp
  next
    case (executed dag s warnings policy)
    then have "callback_reached r w steps s" using assms(2,3) by (auto simp: callback_reached_def built_def)
    then show thesis using that(3) callback(1,2) executed assms(4) by (simp add: stage_error_def split: option.splits)
  qed
next
  case (streaming_refused e)
  then show thesis using that(2) by simp
next
  case (streamed dag s warnings policy)
  then have "streaming_reached r w steps s" using assms(2,3) by (auto simp: streaming_reached_def built_def)
  then show thesis using that(4) streamed assms(4) by (simp add: stage_error_def split: option.splits)
qed

lemma internal_determined:
  assumes "range_order lo" "range_order co" "range_order lo'" "range_order co'"
    and "runStageInternal r w lo co stageName steps out" "\<not> outcome_cancelled out"
    and "runStageInternal r w lo' co' stageName steps out'" "\<not> outcome_cancelled out'"
  shows "outcome_error out = None \<longleftrightarrow> outcome_error out' = None"
  using assms(5,1,2,6)
proof (cases rule: internal_outcome)
  case dry
  from assms(7) dry(1) obtain ls err where "executeStageDryRun r stageName steps = Some (ls, err)"
    "out' = DryRan ls err" by (auto elim: runStageInternalE)
  with dry(2) [of ls err] show ?thesis by simp
next
  case (refused e)
  from assms(7,3,4,8) show ?thesis
    by (cases rule: internal_outcome) (use refused accepted_indep [OF assms(3,4) _ assms(1,2)] in fastforce)+
next
  case (callback s dag)
  from assms(7,3,4,8) show ?thesis
  proof (cases rule: internal_outcome)
    case (callback t dag')
    then show ?thesis
      using callback_executor.policy_determined [OF \<open>callback_reached r w steps s\<close> \<open>exec_finished s\<close>
          \<open>\<not> xs_cancelled s\<close> callback(4-6)] \<open>outcome_error out = _\<close> by simp
  qed (use callback accepted_indep [OF assms(1,2) _ assms(3,4)] in fastforce)+
next
  case (streamed s dag)
  from assms(7,3,4,8) show ?thesis
  proof (cases rule: internal_outcome)
    case (streamed t dag')
    then show ?thesis
      using streaming_executor.policy_determined [OF \<open>streaming_reached r w steps s\<close> \<open>stream_finished s\<close>
          \<open>\<not> ss_cancelled s\<close> streamed(4-6)] \<open>outcome_error out = _\<close> by simp
  qed (use streamed accepted_indep [OF assms(1,2) _ assms(3,4)] in fastforce)+
qed

lemma stream_terminates:
  assumes "distinct (map fst (se_dag E))"
  shows "\<nexists>f. f 0 = stream_init \<and> (\<forall>i. stream_step E (f i) (f (Suc i)))"
proof
  assume "\<exists>f. f 0 = stream_init \<and> (\<forall>i. stream_step E (f i) (f (Suc i)))"
  then obtain f where f: "f 0 = stream_init" "\<And>i. stream_step E (f i) (f (Suc i))" by blast
  have "stream_reach E (f i)" for i by (induction i) (use f in \<open>auto intro: stream_reach.intros\<close>)
  then have "(f (Suc i), f i) \<in> stream_order E" for i
    using stream_order_step [OF f(2)] stream_reach_inv assms by blast
  moreover have "wf (stream_order E)" by (simp add: stream_order_def)
  ultimately show False unfolding wf_iff_no_infinite_down_chain by blast
qed

lemma streaming_env_finishes:
  assumes "built r steps dag" "no_panics (stage_env r w dag steps)"
  shows "\<exists>s. stream_reach (streaming_env r w dag steps) s \<and> stream_finished s \<and> \<not> ss_cancelled s"
proof (rule stream_run_to_end [OF _ executors_independent(1) _ stream_reach.init])
  show "graph_ok (se_dag (streaming_env r w dag steps))"
    using built_graph(1) [OF assms(1)] by (simp add: streaming_env_def)
  show "\<forall>n \<in> dag_names (se_dag (streaming_env r w dag steps)). se_should (streaming_env r w dag steps) n \<noteq> None"
    using assms(2) by (simp add: no_panics_def streaming_env_def)
  show "\<not> ss_cancelled stream_init" by (simp add: stream_init_def)
qed

lemma internal_returns:
  assumes "range_order lo" "range_order co"
    and "\<And>dag. buildDAG (rn_config r) lo co steps = Ok dag \<Longrightarrow> no_panics (stage_env r w dag steps)"
    and "ro_DryRun (rn_opts r) \<Longrightarrow> executeStageDryRun r stageName steps \<noteq> None"
  shows "\<exists>out. runStageInternal r w lo co stageName steps out \<and> \<not> outcome_cancelled out"
proof -
  consider (dry) "ro_DryRun (rn_opts r)"
    | (refused) e where "\<not> ro_DryRun (rn_opts r)" "buildDAG (rn_config r) lo co steps = Err e"
    | (callback) dag where "\<not> ro_DryRun (rn_opts r)" "ro_StepCallback (rn_opts r)"
        "buildDAG (rn_config r) lo co steps = Ok dag"
    | (streamed) dag where "\<not> ro_DryRun (rn_opts r)" "\<not> ro_StepCallback (rn_opts r)"
        "buildDAG (rn_config r) lo co steps = Ok dag"
    using buildDAG_cases [OF assms(1,2), of "rn_config r" steps]
    by (cases "buildDAG (rn_config r) lo co steps") auto
  then show ?thesis
  proof cases
    case dry
    then obtain ls err where "executeStageDryRun r stageName steps = Some (ls, err)" using assms(4) by auto
    from runStageInternal.dry [OF dry this] show ?thesis by fastforce
  next
    case (refused e)
    show ?thesis
    proof (cases "ro_StepCallback (rn_opts r)")
      case True
      from runStageInternal.callback [OF refused(1) True no_graph [OF refused(2)]] show ?thesis by fastforce
    next
      case False
      from streaming_refused [OF refused(1) False refused(2)] show ?thesis by fastforce
    qed
  next
    case (callback dag)
    then have b: "built r steps dag" using assms(1,2) by (auto simp: built_def)
    obtain s where s: "exec_reach (stage_env r w dag steps) s" "exec_finished s" "\<not> xs_cancelled s"
      by (rule exec_can_finish [of "stage_env r w dag steps"]) (use built_graph(1) [OF b] assms(3) callback in auto)
    obtain ws p where "check_results r steps (xs_results s) = (ws, p)" by fastforce
    from executed [OF callback(3) s(1,2) this] runStageInternal.callback [OF callback(1,2)] s(3)
    show ?thesis by fastforce
  next
    case (streamed dag)
    then have b: "built r steps dag" using assms(1,2) by (auto simp: built_def)
    obtain s where s: "stream_reach (streaming_env r w dag steps) s" "stream_finished s" "\<not> ss_cancelled s"
      using streaming_env_finishes [OF b assms(3) [OF streamed(3)]] by blast
    obtain ws p where "check_results r steps (ss_results s) = (ws, p)" by fastforce
    from runStageInternal.streamed [OF streamed s(1,2) this] s(3) show ?thesis
      by (metis outcome_cancelled.simps(2) remaining_frame(2))
  qed
qed

text \<open>C21: The streaming executor returns: without a cancellation it never sends on the closed
  channel, it always has a next step until it is finished, no run goes on for ever, with or
  without a cancellation, and a run to the end exists. Only conditions that panic are excluded.\<close>

theorem streaming_returns:
  assumes "graph_ok (se_dag E)" "display_independent E" "\<forall>n \<in> dag_names (se_dag E). se_should E n \<noteq> None"
  shows "(\<forall>s. stream_reach E s \<and> \<not> ss_cancelled s \<longrightarrow> ss_pc s \<noteq> Crashed
            \<and> (stream_finished s \<or> (\<exists>t. stream_step E s t \<and> \<not> ss_cancelled t)))
     \<and> (\<nexists>f. f 0 = stream_init \<and> (\<forall>i. stream_step E (f i) (f (Suc i))))
     \<and> (\<exists>s. stream_reach E s \<and> stream_finished s \<and> \<not> ss_cancelled s)"
proof (intro conjI allI impI)
  have dist: "distinct (map fst (se_dag E))" using assms(1) by (simp add: graph_ok_def)
  fix s assume s: "stream_reach E s \<and> \<not> ss_cancelled s"
  then show nc: "ss_pc s \<noteq> Crashed" using stream_no_crash [OF _ _ dist assms(2,3)] by blast
  show "stream_finished s \<or> (\<exists>t. stream_step E s t \<and> \<not> ss_cancelled t)"
    using stream_progress [OF stream_reach_inv [OF _ dist] assms(1) _ nc] s by metis
next
  show "\<nexists>f. f 0 = stream_init \<and> (\<forall>i. stream_step E (f i) (f (Suc i)))"
    by (rule stream_terminates) (use assms(1) in \<open>simp add: graph_ok_def\<close>)
next
  show "\<exists>s. stream_reach E s \<and> stream_finished s \<and> \<not> ss_cancelled s"
    using stream_run_to_end [OF assms stream_reach.init] by (simp add: stream_init_def)
qed

theorem streaming_returns_witness:
  "\<exists>s. stream_reach one_env s \<and> stream_finished s \<and> \<not> ss_cancelled s"
proof -
  have "graph_ok (se_dag one_env)"
    by (auto simp: graph_ok_def one_env_def dag_closed_def dag_deps_def dep_edge_def acyclic_def dag_names_def
        split: if_splits dest: tranclD)
  from streaming_returns [OF this one_ok(2)] show ?thesis by (simp add: one_env_def)
qed

lemma three_run:
  obtains s ws e where "RunStage three_runner sample_world (map fst) (map fst) ''s'' (Finished s ws (Some e))"
    "\<not> xs_cancelled s"
proof -
  obtain s ws e where s: "executeStageWithCallback three_runner sample_world (map fst) (map fst) three_steps
      (Finished s ws (Some e))" "\<not> xs_cancelled s" by (rule three_fails)
  have "RunStage three_runner sample_world (map fst) (map fst) ''s'' (Finished s ws (Some e))"
    by (rule known [of _ _ "\<lparr>stage_Steps = three_steps\<rparr>"])
      (use s(1) in \<open>simp_all add: runStageInternal.callback three_runner_def three_config_def sample_runner_def GetStage_def\<close>)
  with s(2) show thesis using that by blast
qed





text \<open>C18: The options \<open>Only\<close>, \<open>MaxParallel\<close> and \<open>WithRequires\<close> have no effect: a stage that
  is not only tried out has the same runs whatever they are, and so has a single step.\<close>

theorem limits_without_effect:
  "(\<not> ro_DryRun (rn_opts r) \<longrightarrow>
      RunStage (with_limits ls k b r) w lo co stageName out = RunStage r w lo co stageName out)
   \<and> RunStageStep (with_limits ls k b r) w stageName stepName = RunStageStep r w stageName stepName"
proof (intro conjI impI iffI)
  assume "\<not> ro_DryRun (rn_opts r)" "RunStage (with_limits ls k b r) w lo co stageName out"
  with with_limits_stage [OF this(2), of "ro_Only (rn_opts r)" "ro_MaxParallel (rn_opts r)" "ro_WithRequires (rn_opts r)"]
  show "RunStage r w lo co stageName out" by (simp add: with_limits_back)
qed (simp_all add: with_limits_stage with_limits_step)

theorem limits_without_effect_witness:
  "\<exists>out. RunStage (with_limits [''release''] 1 True three_runner) sample_world (map fst) (map fst) ''s'' out"
proof -
  obtain s ws e where "RunStage three_runner sample_world (map fst) (map fst) ''s'' (Finished s ws (Some e))"
    by (rule three_run)
  moreover have "\<not> ro_DryRun (rn_opts three_runner)" by (simp add: three_runner_def sample_runner_def)
  ultimately show ?thesis using limits_without_effect [of three_runner] by blast
qed

end
