(* ===== verification/Support.thy ===== *)
theory Support
  imports Simple_Run
begin

text \<open>
  The parts beside the runner: the error types of \<open>pkg/buildfab/errors.go\<close>, the version detector
  of \<open>internal/version\<close>, and the printing of \<open>internal/ui\<close>.
\<close>

section \<open>errors.go\<close>

record configuration_error =
  coe_Message :: string
  coe_Path :: string
  coe_Line :: int
  coe_Column :: int

definition ConfigurationError_Error :: "configuration_error \<Rightarrow> string" where
  "ConfigurationError_Error e =
     (if coe_Path e \<noteq> []
      then ''configuration error in '' @ coe_Path e @ '' at line '' @ show_int (coe_Line e) @ '', column ''
           @ show_int (coe_Column e) @ '': '' @ coe_Message e
      else ''configuration error: '' @ coe_Message e)"

record execution_error =
  exe_StepName :: string
  exe_Action :: string
  exe_Message :: string
  exe_Output :: string

definition ExecutionError_Error :: "execution_error \<Rightarrow> string" where
  "ExecutionError_Error e =
     ''execution error in step '' @ go_quote (exe_StepName e) @ '' (action '' @ go_quote (exe_Action e)
     @ ''): '' @ exe_Message e"

record dependency_error =
  dee_Message :: string
  dee_Cycle :: "string list"

definition DependencyError_Error :: "dependency_error \<Rightarrow> string" where
  "DependencyError_Error e =
     (if 0 < length (dee_Cycle e)
      then ''dependency error: '' @ dee_Message e @ '' (cycle: ['' @ join_str '' '' (dee_Cycle e) @ ''])''
      else ''dependency error: '' @ dee_Message e)"

record variable_error =
  vae_Variable :: string
  vae_Message :: string

definition VariableError_Error :: "variable_error \<Rightarrow> string" where
  "VariableError_Error e = ''variable error for '' @ go_quote (vae_Variable e) @ '': '' @ vae_Message e"

section \<open>internal/version\<close>

text \<open>
  The version library's parsed version, and what the detector finds outside: the commands it
  runs, the file it reads, the working directory, and the library's parser.
\<close>

record parsed_version =
  pv_Major :: int
  pv_Minor :: int
  pv_Patch :: int
  pv_Type :: string

record detect_env =
  de_command :: "string list \<Rightarrow> string + string"
  de_readfile :: "string \<Rightarrow> string + string"
  de_getwd :: "string + string"
  de_parse :: "string \<Rightarrow> string + parsed_version"

record version_info =
  vi_Version :: string
  vi_Project :: string
  vi_Commit :: string
  vi_Date :: string
  vi_Type :: string
  vi_Major :: int
  vi_Minor :: int
  vi_Patch :: int

definition readVersionFile :: "detect_env \<Rightarrow> string + string" where
  "readVersionFile d =
     (case de_readfile d ''VERSION'' of
        Inl e \<Rightarrow> Inl e
      | Inr data \<Rightarrow>
          let version = trim_space data
          in if version = [] then Inl ''VERSION file is empty'' else Inr version)"

definition Detector_detectGitTag :: "detect_env \<Rightarrow> string + string" where
  "Detector_detectGitTag d =
     map_sum id trim_space (de_command d [''git'', ''describe'', ''--tags'', ''--abbrev=0''])"

definition detectGitCommit :: "detect_env \<Rightarrow> string + string" where
  "detectGitCommit d = map_sum id trim_space (de_command d [''git'', ''rev-parse'', ''HEAD''])"

text \<open>The parts of a split are never none, so the last part is there.\<close>

definition detectProjectName :: "detect_env \<Rightarrow> string + string" where
  "detectProjectName d =
     (case de_command d [''go'', ''list'', ''-m''] of
        Inr output \<Rightarrow> Inr (last (split_str ''/'' (trim_space output)))
      | Inl _ \<Rightarrow>
          (case de_getwd d of Inl e \<Rightarrow> Inl e | Inr wd \<Rightarrow> Inr (last (split_str ''/'' wd))))"

definition detectBuildDate :: string where
  "detectBuildDate = ''unknown''"

definition determineVersionType :: "detect_env \<Rightarrow> string \<Rightarrow> string" where
  "determineVersionType d versionStr =
     (case de_parse d versionStr of Inl _ \<Rightarrow> ''invalid'' | Inr v \<Rightarrow> pv_Type v)"

text \<open>\<open>DetectCurrentVersion\<close> never returns an error.\<close>

definition DetectCurrentVersion :: "detect_env \<Rightarrow> string" where
  "DetectCurrentVersion d =
     (case readVersionFile d of
        Inr version \<Rightarrow> version
      | Inl _ \<Rightarrow> (case Detector_detectGitTag d of Inr version \<Rightarrow> version | Inl _ \<Rightarrow> ''unknown''))"

definition DetectVersionInfo :: "detect_env \<Rightarrow> string + version_info" where
  "DetectVersionInfo d =
     (let versionStr = DetectCurrentVersion d
      in case de_parse d versionStr of
           Inl e \<Rightarrow> Inl (''failed to parse version: '' @ e)
         | Inr v \<Rightarrow>
             Inr \<lparr>vi_Version = versionStr,
                  vi_Project = (case detectProjectName d of Inr p \<Rightarrow> p | Inl _ \<Rightarrow> []),
                  vi_Commit = (case detectGitCommit d of Inr c \<Rightarrow> c | Inl _ \<Rightarrow> []),
                  vi_Date = detectBuildDate, vi_Type = pv_Type v, vi_Major = pv_Major v,
                  vi_Minor = pv_Minor v, vi_Patch = pv_Patch v\<rparr>)"

definition GetVersionVariables :: "detect_env \<Rightarrow> string + (string \<Rightarrow> string option)" where
  "GetVersionVariables d =
     map_sum id
       (\<lambda>info. [''version.version'' \<mapsto> vi_Version info, ''version.project'' \<mapsto> vi_Project info,
               ''version.commit'' \<mapsto> vi_Commit info, ''version.date'' \<mapsto> vi_Date info,
               ''version.type'' \<mapsto> vi_Type info, ''version.major'' \<mapsto> show_int (vi_Major info),
               ''version.minor'' \<mapsto> show_int (vi_Minor info), ''version.patch'' \<mapsto> show_int (vi_Patch info)])
       (DetectVersionInfo d)"

definition getProjectVersion :: "detect_env \<Rightarrow> string" where
  "getProjectVersion d =
     (if DetectCurrentVersion d \<noteq> [] then DetectCurrentVersion d
      else case de_readfile d ''VERSION'' of
             Inr data \<Rightarrow> if trim_space data \<noteq> [] then trim_space data else ''unknown''
           | Inl _ \<Rightarrow> ''unknown'')"

section \<open>internal/ui\<close>

text \<open>What each method prints to the standard error, one text per \<open>Fprintf\<close>.\<close>

record ui =
  ui_verbose :: bool
  ui_debug :: bool
  ui_quiet :: bool

definition UI_New :: "bool \<Rightarrow> bool \<Rightarrow> ui" where
  "UI_New verbose debug = \<lparr>ui_verbose = verbose, ui_debug = debug, ui_quiet = False\<rparr>"

definition UI_NewWithQuiet :: "bool \<Rightarrow> bool \<Rightarrow> bool \<Rightarrow> ui" where
  "UI_NewWithQuiet verbose debug quiet = \<lparr>ui_verbose = verbose, ui_debug = debug, ui_quiet = quiet\<rparr>"

definition icon_rocket :: string where "icon_rocket = [CHR 0xF0, CHR 0x9F, CHR 0x9A, CHR 0x80]"
definition icon_package :: string where "icon_package = [CHR 0xF0, CHR 0x9F, CHR 0x93, CHR 0xA6]"
definition icon_label :: string where
  "icon_label = [CHR 0xF0, CHR 0x9F, CHR 0x8F, CHR 0xB7, CHR 0xEF, CHR 0xB8, CHR 0x8F]"
definition icon_wrench :: string where "icon_wrench = [CHR 0xF0, CHR 0x9F, CHR 0x94, CHR 0xA7]"
definition icon_bulb :: string where "icon_bulb = [CHR 0xF0, CHR 0x9F, CHR 0x92, CHR 0xA1]"
definition colorWhite :: string where "colorWhite = escape ''37''"

definition ui_line :: "string \<Rightarrow> string" where
  "ui_line t = t @ [newline]"

definition PrintCLIHeader :: "string \<Rightarrow> string \<Rightarrow> string list" where
  "PrintCLIHeader name version =
     [ui_line (icon_rocket @ '' '' @ name @ '' ''
        @ (if \<not> hasPrefix version ''v'' then ''v'' @ version else version)), rule_line]"

definition PrintProjectCheck :: "string \<Rightarrow> string \<Rightarrow> string list" where
  "PrintProjectCheck projectName version =
     [ui_line (icon_package @ '' Project: '' @ projectName),
      ui_line (icon_label @ ''  Version: '' @ version), [newline]]"

definition PrintStageHeader :: "string \<Rightarrow> string list" where
  "PrintStageHeader stageName = [ui_line (icon_play @ ''  Running stage: '' @ stageName), [newline]]"

fun ui_icon :: "status \<Rightarrow> string" where
  "ui_icon StatusOK = icon_check"
| "ui_icon StatusWarn = ''!''"
| "ui_icon StatusError = icon_cross"
| "ui_icon StatusSkipped = icon_arrow"
| "ui_icon StatusRunning = icon_circle"
| "ui_icon StatusPending = ''?''"

fun ui_color :: "status \<Rightarrow> string" where
  "ui_color StatusOK = colorGreen"
| "ui_color StatusWarn = colorYellow"
| "ui_color StatusError = colorRed"
| "ui_color StatusSkipped = colorGray"
| "ui_color StatusRunning = colorCyan"
| "ui_color StatusPending = colorWhite"

text \<open>A message of several lines: the first behind the name, the others indented unless blank.\<close>

definition PrintStepStatus :: "string \<Rightarrow> status \<Rightarrow> string \<Rightarrow> string list" where
  "PrintStepStatus stepName status message =
     (let lines = split_str [newline] message;
          head = ''  '' @ ui_color status @ ui_icon status @ colorReset @ '' '' @ stepName @ '' ''
      in if length lines = 1 then [ui_line (head @ message)]
         else ui_line (head @ hd lines)
              # map (\<lambda>line. ui_line (''    '' @ line)) (filter (\<lambda>line. trim_space line \<noteq> []) (tl lines)))"

text \<open>\<open>%.2f\<close> of a finite number.\<close>

fun format_2f :: "f64 \<Rightarrow> string" where
  "format_2f (F64_Fin neg m e) =
     (let k = div_half_even (f64_num m e * 100) (f64_den e)
      in (if neg then ''-'' else '''') @ show_nat (k div 100) @ ''.''
         @ pad_left 2 (CHR ''0'') (show_nat (k mod 100)))"
| "format_2f (F64_Inf neg) = (if neg then ''-Inf'' else ''+Inf'')"
| "format_2f F64_NaN = ''NaN''"

definition stage_line :: "string \<Rightarrow> string \<Rightarrow> string \<Rightarrow> string \<Rightarrow> nat \<Rightarrow> string" where
  "stage_line icon color status stageName duration =
     ui_line (icon @ '' '' @ color @ status @ colorReset @ '' - '' @ stageName @ '' (''
       @ format_2f (duration_seconds duration) @ ''s)'')"

definition PrintStageResult :: "string \<Rightarrow> bool \<Rightarrow> nat \<Rightarrow> string list" where
  "PrintStageResult stageName success duration =
     [[newline], rule_line,
      if success then stage_line icon_party colorGreen ''SUCCESS'' stageName duration
      else stage_line icon_boom colorRed ''FAILED'' stageName duration]"

definition PrintStageTerminated :: "string \<Rightarrow> nat \<Rightarrow> string list" where
  "PrintStageTerminated stageName duration =
     [[newline], rule_line, stage_line (icon_warn @ '' '') colorYellow ''TERMINATED'' stageName duration]"

definition PrintCommand :: "string \<Rightarrow> string list" where
  "PrintCommand command = []"

definition PrintStepName :: "string \<Rightarrow> string list" where
  "PrintStepName stepName = [ui_line (''  '' @ icon_laptop @ '' '' @ stepName)]"

definition PrintCommandOutput :: "ui \<Rightarrow> string \<Rightarrow> string list" where
  "PrintCommandOutput u output =
     (if ui_verbose u \<and> output \<noteq> []
      then map (\<lambda>line. ui_line (''    '' @ line)) (split_str [newline] (trim_right_newlines output)) else [])"

definition PrintRepro :: "string \<Rightarrow> string \<Rightarrow> string list" where
  "PrintRepro stepName repro =
     [[newline], ui_line (icon_wrench @ '' To reproduce '' @ stepName @ '':'')]
     @ map ui_line (filter (\<lambda>line. trim_space line \<noteq> []) (split_str [newline] (trim_right_newlines repro)))"

definition PrintReproInline :: "string \<Rightarrow> string \<Rightarrow> string list" where
  "PrintReproInline stepName repro = [ui_line (''   '' @ icon_bulb @ '' '' @ repro)]"

definition UI_statusOrder :: "status list" where
  "UI_statusOrder = [StatusError, StatusWarn, StatusOK, StatusSkipped]"

definition UI_statusCounts :: "result list \<Rightarrow> status \<Rightarrow> nat" where
  "UI_statusCounts results status = length (filter (\<lambda>r. res_Status r = status) results)"

text \<open>The counts of the other statuses are not shown.\<close>

definition PrintSummary :: "result list \<Rightarrow> string list" where
  "PrintSummary results =
     (if length results = 0 then []
      else [[newline], ui_line (icon_chart @ '' Summary:'')]
        @ map (\<lambda>status.
            let count = UI_statusCounts results status;
                color = (if 0 < count then ui_color status else colorGray)
            in ui_line (''   '' @ color @ ui_icon status @ colorReset @ '' '' @ color
                 @ pad_right 8 (Status_String status) @ '' '' @ pad_left 3 (CHR '' '') (show_nat count)
                 @ colorReset)) UI_statusOrder)"

definition IsVerbose :: "ui \<Rightarrow> bool" where
  "IsVerbose u = ui_verbose u"

definition IsDebug :: "ui \<Rightarrow> bool" where
  "IsDebug u = ui_debug u"

end
